(* ===== verification/BH_Prelude.thy ===== *)
theory BH_Prelude
  imports Main "HOL-Library.Word" "HOL-Library.Monad_Syntax"
begin

text \<open>
  Shared vocabulary of the BloodHorn development: names for the C integer types, the memory-access
  helpers (a C buffer is a list of bytes, an access outside it is the value \<^const>\<open>None\<close>),
  big-endian byte encodings, bytewise exclusive or, and the generic lemmas the components share.
\<close>

unbundle bit_operations_syntax

section \<open>Types\<close>

type_synonym u8 = "8 word"
type_synonym u16 = "16 word"
type_synonym u32 = "32 word"
type_synonym u64 = "64 word"

text \<open>
  A computation that may leave the bounds of a C object (or divide by zero) returns an option:
  \<^const>\<open>None\<close> is undefined behaviour of the C code, never a value the program tests for.
  A pointer argument that the program compares with NULL is an option as well, NULL being
  \<^const>\<open>None\<close>.
\<close>

type_synonym 'a cmem = "'a option"
type_synonym 'a ptr = "'a option"

named_theorems mem_simps \<open>definitions of the memory-access helpers\<close>
named_theorems len_simps \<open>lengths of buffers after an operation\<close>

section \<open>Memory access\<close>

definition memcpy :: "'a list \<Rightarrow> nat \<Rightarrow> 'a list \<Rightarrow> nat \<Rightarrow> nat \<Rightarrow> 'a list cmem" where
  [mem_simps]: "memcpy dst off src soff n =
     (if off + n \<le> length dst \<and> soff + n \<le> length src
      then Some (take off dst @ take n (drop soff src) @ drop (off + n) dst) else None)"

definition peek :: "'a list \<Rightarrow> nat \<Rightarrow> 'a cmem" where
  [mem_simps]: "peek xs i = (if i < length xs then Some (xs ! i) else None)"

definition poke :: "'a list \<Rightarrow> nat \<Rightarrow> 'a \<Rightarrow> 'a list cmem" where
  [mem_simps]: "poke xs i v = (if i < length xs then Some (xs[i := v]) else None)"

lemma memcpy_Some_iff:
  "memcpy dst off src soff n = Some r \<longleftrightarrow>
     off + n \<le> length dst \<and> soff + n \<le> length src \<and>
     r = take off dst @ take n (drop soff src) @ drop (off + n) dst"
  by (auto simp: memcpy_def)

lemma memcpy_length [len_simps]: "memcpy dst off src soff n = Some r \<Longrightarrow> length r = length dst"
  by (auto simp: memcpy_Some_iff)

lemma memcpy_whole: "n = length src \<Longrightarrow> n = length dst \<Longrightarrow> memcpy dst 0 src 0 n = Some src"
  by (simp add: memcpy_def)

lemma memcpy_zero [simp]:
  "off \<le> length dst \<Longrightarrow> soff \<le> length src \<Longrightarrow> memcpy dst off src soff 0 = Some dst"
  by (simp add: memcpy_def)

section \<open>Words and bytes\<close>

lemma unat_add_small:
  "unat a + unat b < 2 ^ LENGTH('a) \<Longrightarrow> unat (a + b) = unat a + unat (b :: 'a::len word)"
  by (simp add: unat_word_ariths)

lemma unat_mult_small:
  "unat a * unat b < 2 ^ LENGTH('a) \<Longrightarrow> unat (a * b) = unat a * unat (b :: 'a::len word)"
  by (simp add: unat_word_ariths)

lemma unat_sub_small: "unat b \<le> unat a \<Longrightarrow> unat (a - b) = unat a - unat (b :: 'a::len word)"
  by (simp add: unat_sub word_le_nat_alt)

lemma unat_eqI: "unat a = unat b \<Longrightarrow> a = (b :: 'a::len word)"
  by (simp add: word_unat_eq_iff)

lemma unat_u32_bound [simp]: "unat (x :: u32) < 4294967296"
  using unsigned_less [of x, where ?'a = nat] by simp

lemma ucast_of_nat_unat: "(ucast (x :: 'a::len word) :: 'b::len word) = of_nat (unat x)"
  by simp

lemma unat_of_int_small:
  "0 \<le> i \<Longrightarrow> i < 2 ^ LENGTH('a) \<Longrightarrow> unat (of_int i :: 'a::len word) = nat i"
  by (simp add: unat_eq_nat_uint uint_word_of_int_eq take_bit_int_eq_self)

lemma word_add_of_nat_diff:
  assumes "unat x \<le> n"
  shows "x + of_nat (n - unat x) = (of_nat n :: 'a::len word)"
proof -
  have "x + of_nat (n - unat x) = of_nat (unat x + (n - unat x))"
    by (simp only: of_nat_add) simp
  then show ?thesis using assms by simp
qed

lemma unat_of_nat_small: "n < 2 ^ LENGTH('a) \<Longrightarrow> unat (of_nat n :: 'a::len word) = n"
  by (simp add: unat_of_nat take_bit_nat_eq_self)

lemma sint_u32_small:
  assumes "unat (x :: u32) < 2 ^ 31"
  shows "sint x = int (unat x)"
proof -
  have u: "uint x = int (unat x)" by (rule uint_nat)
  have a: "unat x < 2147483648" using assms by simp
  have b: "- 2147483648 \<le> uint x" "uint x < 2147483648" using a by (simp_all only: u)
  have "sint x = signed_take_bit 31 (uint x)" by (simp add: sint_uint)
  also have "\<dots> = uint x" using b by (intro signed_take_bit_int_eq_self) simp_all
  finally show ?thesis by (simp only: u)
qed

lemma unat_ucast_u8: "unat (ucast (x :: u8) :: u32) = unat x"
  by (simp add: unsigned_ucast_eq take_bit_nat_eq_self less_trans [OF unsigned_less])

lemma unat_ucast_u32: "unat (ucast (x :: u32) :: u64) = unat x"
  by (simp add: unsigned_ucast_eq take_bit_nat_eq_self less_trans [OF unsigned_less])

lemma ucast_u32_u64_u32 [simp]: "(ucast (ucast (x :: u32) :: u64) :: u32) = x"
  by (rule bit_word_eqI) (auto simp: bit_ucast_iff dest: bit_imp_le_length)

lemma length_concat_const:
  "(\<And>x. x \<in> set xs \<Longrightarrow> length (f x) = k) \<Longrightarrow> length (concat (map f xs)) = length xs * k"
  by (induction xs) auto

lemma take_drop_append: "take a (drop p xs) @ take b (drop (p + a) xs) = take (a + b) (drop p xs)"
  by (simp add: take_add add.commute)

definition be32 :: "u8 \<Rightarrow> u8 \<Rightarrow> u8 \<Rightarrow> u8 \<Rightarrow> u32" where
  "be32 b0 b1 b2 b3 =
     push_bit 24 (ucast b0) OR push_bit 16 (ucast b1) OR push_bit 8 (ucast b2) OR ucast b3"

definition byte_at :: "nat \<Rightarrow> 'a::len word \<Rightarrow> u8" where
  "byte_at k w = ucast (drop_bit k w AND 0xFF)"

definition be32_bytes :: "u32 \<Rightarrow> u8 list" where
  "be32_bytes w = [byte_at 24 w, byte_at 16 w, byte_at 8 w, byte_at 0 w]"

definition le32_bytes :: "u32 \<Rightarrow> u8 list" where
  "le32_bytes w = [byte_at 0 w, byte_at 8 w, byte_at 16 w, byte_at 24 w]"

definition be64_bytes :: "u64 \<Rightarrow> u8 list" where
  "be64_bytes w = map (\<lambda>i. byte_at (8 * i) w) (rev [0..<8])"

lemma length_be32_bytes [simp]: "length (be32_bytes w) = 4"
  by (simp add: be32_bytes_def)

lemma length_le32_bytes [simp]: "length (le32_bytes w) = 4"
  by (simp add: le32_bytes_def)

lemma length_be64_bytes [simp]: "length (be64_bytes w) = 8"
  by (simp add: be64_bytes_def)

lemma bit_byte_at: "bit (byte_at k (w :: 'a::len word)) n \<longleftrightarrow> n < 8 \<and> bit w (k + n)"
proof -
  have "bit (0xFF :: 'a word) n \<longleftrightarrow> n < 8 \<and> n < LENGTH('a)"
    using bit_mask_iff [where 'a = "'a word", of 8 n] by (auto simp: mask_eq_exp_minus_1)
  then show ?thesis
    by (auto simp: byte_at_def bit_ucast_iff bit_and_iff bit_drop_bit_eq dest: bit_imp_le_length)
qed

lemma bit_be32:
  "bit (be32 a b c d) n \<longleftrightarrow>
     (if n < 8 then bit d n else if n < 16 then bit c (n - 8)
      else if n < 24 then bit b (n - 16) else if n < 32 then bit a (n - 24) else False)"
  by (auto simp: be32_def bit_or_iff bit_push_bit_iff bit_ucast_iff
      dest: bit_imp_le_length)

lemma be32_of_bytes: "be32 (byte_at 24 w) (byte_at 16 w) (byte_at 8 w) (byte_at 0 w) = (w :: u32)"
  by (rule bit_word_eqI) (auto simp: bit_be32 bit_byte_at)

lemma byte_at_be32 [simp]:
  "byte_at 24 (be32 a b c d) = a" "byte_at 16 (be32 a b c d) = b"
  "byte_at 8 (be32 a b c d) = c" "byte_at 0 (be32 a b c d) = d"
  by (rule bit_word_eqI; simp add: bit_byte_at bit_be32)+

text \<open>Little-endian fields of a structure laid over a buffer.\<close>

definition le16_at :: "u8 list \<Rightarrow> nat \<Rightarrow> u16" where
  "le16_at b i = ucast (b ! i) OR push_bit 8 (ucast (b ! (i + 1)))"

definition le32_at :: "u8 list \<Rightarrow> nat \<Rightarrow> u32" where
  "le32_at b i = be32 (b ! (i + 3)) (b ! (i + 2)) (b ! (i + 1)) (b ! i)"

lemma le16_at_slice: "i + j + 2 \<le> length b \<Longrightarrow> j + 2 \<le> k \<Longrightarrow> le16_at (take k (drop i b)) j = le16_at b (i + j)"
  by (simp add: le16_at_def add.assoc)

lemma le32_at_slice: "i + j + 4 \<le> length b \<Longrightarrow> j + 4 \<le> k \<Longrightarrow> le32_at (take k (drop i b)) j = le32_at b (i + j)"
  by (simp add: le32_at_def add.assoc)

section \<open>Bytewise exclusive or\<close>

definition xor_bytes :: "u8 list \<Rightarrow> u8 list \<Rightarrow> u8 list" where
  "xor_bytes xs ys = map2 (XOR) xs ys"

lemma length_xor_bytes [simp]: "length (xor_bytes xs ys) = min (length xs) (length ys)"
  by (simp add: xor_bytes_def)

lemma xor_bytes_Nil [simp]: "xor_bytes [] ys = []" "xor_bytes xs [] = []"
  by (simp_all add: xor_bytes_def)

lemma xor_bytes_Cons [simp]: "xor_bytes (x # xs) (y # ys) = (x XOR y) # xor_bytes xs ys"
  by (simp add: xor_bytes_def)

lemma word_xor_cancel [simp]: "(x XOR y) XOR y = (x :: 'a::len word)"
  by (simp add: xor.assoc)

lemma xor_bytes_cancel: "length xs \<le> length ys \<Longrightarrow> xor_bytes (xor_bytes xs ys) ys = xs"
proof (induction xs arbitrary: ys)
  case Nil
  then show ?case by simp
next
  case (Cons x xs)
  then show ?case by (cases ys) auto
qed

lemma xor_bytes_nth:
  "i < length xs \<Longrightarrow> i < length ys \<Longrightarrow> xor_bytes xs ys ! i = xs ! i XOR ys ! i"
  by (simp add: xor_bytes_def)

section \<open>Splitting a buffer into blocks\<close>

fun blocks :: "nat \<Rightarrow> 'a list \<Rightarrow> 'a list list" where
  "blocks n xs = (if n = 0 \<or> length xs < n then [] else take n xs # blocks n (drop n xs))"

declare blocks.simps [simp del]

definition rest :: "nat \<Rightarrow> 'a list \<Rightarrow> 'a list" where
  "rest n xs = drop (n * (length xs div n)) xs"

lemma blocks_short [simp]: "length xs < n \<Longrightarrow> blocks n xs = []"
  by (simp add: blocks.simps)

lemma blocks_step:
  "0 < n \<Longrightarrow> length b = n \<Longrightarrow> blocks n (b @ xs) = b # blocks n xs"
  by (simp add: blocks.simps [of n "b @ xs"])

lemma blocks_append_aligned:
  "0 < n \<Longrightarrow> n dvd length xs \<Longrightarrow> blocks n (xs @ ys) = blocks n xs @ blocks n ys"
proof (induction n xs rule: blocks.induct)
  case (1 n xs)
  show ?case
  proof (cases "length xs < n")
    case True
    with "1.prems" have "xs = []" by (auto dest: dvd_imp_le)
    with \<open>0 < n\<close> show ?thesis by simp
  next
    case False
    with "1.prems" have "n dvd length (drop n xs)" by simp
    with "1" False have IH: "blocks n (drop n xs @ ys) = blocks n (drop n xs) @ blocks n ys"
      by simp
    from False IH \<open>0 < n\<close> show ?thesis
      by (simp add: blocks.simps [of n xs] blocks.simps [of n "xs @ ys"])
  qed
qed

lemma length_rest: "0 < n \<Longrightarrow> length (rest n xs) = length xs mod n"
  by (simp add: rest_def minus_mult_div_eq_mod)

lemma length_rest_less: "0 < n \<Longrightarrow> length (rest n xs) < n"
  by (simp add: length_rest)

lemma rest_short [simp]: "length xs < n \<Longrightarrow> rest n xs = xs"
  by (simp add: rest_def)

lemma blocks_snoc_block:
  assumes "0 < n" and "length (rest n xs @ ys) = n"
  shows "blocks n (xs @ ys) = blocks n xs @ [rest n xs @ ys]" and "rest n (xs @ ys) = []"
proof -
  define k where "k = n * (length xs div n)"
  have xs: "xs = take k xs @ rest n xs" by (simp add: rest_def k_def)
  have k: "n dvd length (take k xs)" by (simp add: k_def)
  have bx: "blocks n xs = blocks n (take k xs)"
    using blocks_append_aligned [OF assms(1) k, of "rest n xs"] xs length_rest_less [OF assms(1), of xs]
    by simp
  have "blocks n (xs @ ys) = blocks n (take k xs @ (rest n xs @ ys))"
    using xs by (metis append.assoc)
  also have "\<dots> = blocks n (take k xs) @ blocks n (rest n xs @ ys)"
    by (rule blocks_append_aligned [OF assms(1) k])
  also have "blocks n (rest n xs @ ys) = [rest n xs @ ys]"
    using assms blocks_step [of n "rest n xs @ ys" "[]"] by simp
  finally show "blocks n (xs @ ys) = blocks n xs @ [rest n xs @ ys]" by (simp add: bx)
  have "length xs = length (take k xs) + length (rest n xs)"
    by (subst xs) (simp only: length_append)
  then have "length (xs @ ys) = length (take k xs) + n"
    using assms(2) by simp
  then have "n dvd length (xs @ ys)" using k by simp
  then have "length (xs @ ys) mod n = 0" by (simp add: mod_eq_0_iff_dvd)
  then show "rest n (xs @ ys) = []" using length_rest [OF assms(1), of "xs @ ys"] by simp
qed

lemma blocks_short_append:
  assumes "0 < n" and "length (rest n xs @ ys) < n"
  shows "blocks n (xs @ ys) = blocks n xs" and "rest n (xs @ ys) = rest n xs @ ys"
proof -
  define k where "k = n * (length xs div n)"
  have xs: "xs = take k xs @ rest n xs" by (simp add: rest_def k_def)
  have k: "n dvd length (take k xs)" by (simp add: k_def)
  have "blocks n (xs @ ys) = blocks n (take k xs @ (rest n xs @ ys))"
    using xs by (metis append.assoc)
  also have "\<dots> = blocks n (take k xs)"
    using blocks_append_aligned [OF assms(1) k] assms(2) by simp
  also have "\<dots> = blocks n xs"
    using blocks_append_aligned [OF assms(1) k, of "rest n xs"] xs length_rest_less [OF assms(1), of xs]
    by simp
  finally show "blocks n (xs @ ys) = blocks n xs" .
  have len: "length (take k xs) = k" by (simp add: k_def)
  have "length (xs @ ys) div n = length xs div n"
  proof -
    have "length xs = k + length (rest n xs)" using arg_cong [OF xs, of length] len by simp
    then have "length (xs @ ys) = length (rest n xs @ ys) + n * (length xs div n)"
      by (simp add: k_def)
    then show ?thesis using assms by (simp only: div_mult_self2) simp
  qed
  then show "rest n (xs @ ys) = rest n xs @ ys" by (simp add: rest_def)
qed

lemma concat_blocks_rest: "0 < n \<Longrightarrow> concat (blocks n xs) @ rest n xs = xs"
proof (induction n xs rule: blocks.induct)
  case (1 n xs)
  show ?case
  proof (cases "length xs < n")
    case True
    then show ?thesis by simp
  next
    case False
    have "length xs div n = Suc (length (drop n xs) div n)"
      using \<open>0 < n\<close> False by (simp add: le_div_geq)
    then have "rest n xs = rest n (drop n xs)"
      by (simp add: rest_def add.commute)
    with "1" False show ?thesis by (simp add: blocks.simps [of n xs])
  qed
qed

lemma blocks_length: "b \<in> set (blocks n xs) \<Longrightarrow> length b = n"
proof (induction n xs rule: blocks.induct)
  case (1 n xs)
  then show ?case
    by (cases "n = 0 \<or> length xs < n") (auto simp: blocks.simps [of n xs])
qed

end
