(* ===== verification/Sha256.thy ===== *)
theory Sha256
  imports BH_Prelude
begin

text \<open>
  The SHA-256 part of \<^verbatim>\<open>security/crypto.c\<close>: the compression function, the streaming
  context and its three operations, and the one-shot \<open>sha256_hash\<close>. The abstract view of
  a context is the message absorbed so far; \<open>sha256_rep\<close> relates the two.
\<close>

section \<open>Status codes and constants\<close>

datatype crypto_status =
    CRYPTO_SUCCESS
  | CRYPTO_ERROR_INVALID_PARAM
  | CRYPTO_ERROR_BUFFER_TOO_SMALL
  | CRYPTO_ERROR_VERIFICATION_FAILED
  | CRYPTO_ERROR_NOT_SUPPORTED
  | CRYPTO_ERROR_HARDWARE_UNAVAILABLE

text \<open>The round constants, in the rows of four in which the source lists them.\<close>

definition sha256_k :: "u32 list" where
  "sha256_k = concat
    [[0x428a2f98, 0x71374491, 0xb5c0fbcf, 0xe9b5dba5],
     [0x3956c25b, 0x59f111f1, 0x923f82a4, 0xab1c5ed5],
     [0xd807aa98, 0x12835b01, 0x243185be, 0x550c7dc3],
     [0x72be5d74, 0x80deb1fe, 0x9bdc06a7, 0xc19bf174],
     [0xe49b69c1, 0xefbe4786, 0x0fc19dc6, 0x240ca1cc],
     [0x2de92c6f, 0x4a7484aa, 0x5cb0a9dc, 0x76f988da],
     [0x983e5152, 0xa831c66d, 0xb00327c8, 0xbf597fc7],
     [0xc6e00bf3, 0xd5a79147, 0x06ca6351, 0x14292967],
     [0x27b70a85, 0x2e1b2138, 0x4d2c6dfc, 0x53380d13],
     [0x650a7354, 0x766a0abb, 0x81c2c92e, 0x92722c85],
     [0xa2bfe8a1, 0xa81a664b, 0xc24b8b70, 0xc76c51a3],
     [0xd192e819, 0xd6990624, 0xf40e3585, 0x106aa070],
     [0x19a4c116, 0x1e376c08, 0x2748774c, 0x34b0bcb5],
     [0x391c0cb3, 0x4ed8aa4a, 0x5b9cca4f, 0x682e6ff3],
     [0x748f82ee, 0x78a5636f, 0x84c87814, 0x8cc70208],
     [0x90befffa, 0xa4506ceb, 0xbef9a3f7, 0xc67178f2]]"

definition sha256_h :: "u32 list" where
  "sha256_h =
    [0x6a09e667, 0xbb67ae85, 0x3c6ef372, 0xa54ff53a,
     0x510e527f, 0x9b05688c, 0x1f83d9ab, 0x5be0cd19]"

section \<open>The round functions\<close>

definition rotr :: "u32 \<Rightarrow> nat \<Rightarrow> u32" where
  "rotr x n = drop_bit n x OR push_bit (32 - n) x"

definition ch :: "u32 \<Rightarrow> u32 \<Rightarrow> u32 \<Rightarrow> u32" where
  "ch x y z = (x AND y) XOR (NOT x AND z)"

definition maj :: "u32 \<Rightarrow> u32 \<Rightarrow> u32 \<Rightarrow> u32" where
  "maj x y z = (x AND y) XOR (x AND z) XOR (y AND z)"

definition sigma0 :: "u32 \<Rightarrow> u32" where
  "sigma0 x = rotr x 2 XOR rotr x 13 XOR rotr x 22"

definition sigma1 :: "u32 \<Rightarrow> u32" where
  "sigma1 x = rotr x 6 XOR rotr x 11 XOR rotr x 25"

definition gamma0 :: "u32 \<Rightarrow> u32" where
  "gamma0 x = rotr x 7 XOR rotr x 18 XOR drop_bit 3 x"

definition gamma1 :: "u32 \<Rightarrow> u32" where
  "gamma1 x = rotr x 17 XOR rotr x 19 XOR drop_bit 10 x"

text \<open>The message schedule: sixteen big-endian words of the block, then 48 derived ones.\<close>

definition sha256_schedule :: "u8 list \<Rightarrow> u32 list" where
  "sha256_schedule b =
     foldl (\<lambda>w j. w @ [gamma1 (w ! (j - 2)) + w ! (j - 7) + gamma0 (w ! (j - 15)) + w ! (j - 16)])
       (map (\<lambda>j. be32 (b ! (j * 4)) (b ! (j * 4 + 1)) (b ! (j * 4 + 2)) (b ! (j * 4 + 3))) [0..<16])
       [16..<64]"

type_synonym sha256_vars = "u32 \<times> u32 \<times> u32 \<times> u32 \<times> u32 \<times> u32 \<times> u32 \<times> u32"

fun sha256_round :: "sha256_vars \<Rightarrow> u32 \<times> u32 \<Rightarrow> sha256_vars" where
  "sha256_round (a, b, c, d, e, f, g, h_val) (k, w) =
     (let temp1 = h_val + sigma1 e + ch e f g + k + w;
          temp2 = sigma0 a + maj a b c
      in (temp1 + temp2, a, b, c, d + temp1, e, f, g))"

definition sha256_compress :: "u32 list \<Rightarrow> u8 list \<Rightarrow> u32 list" where
  "sha256_compress hs blk =
     (case foldl sha256_round (hs ! 0, hs ! 1, hs ! 2, hs ! 3, hs ! 4, hs ! 5, hs ! 6, hs ! 7)
             (zip sha256_k (sha256_schedule blk)) of
        (a, b, c, d, e, f, g, h_val) \<Rightarrow>
          [hs ! 0 + a, hs ! 1 + b, hs ! 2 + c, hs ! 3 + d,
           hs ! 4 + e, hs ! 5 + f, hs ! 6 + g, hs ! 7 + h_val])"

lemma length_sha256_compress [simp]: "length (sha256_compress hs b) = 8"
  by (simp add: sha256_compress_def split: prod.split)

section \<open>The streaming context\<close>

record crypto_sha256_ctx =
  sh_h :: "u32 list"
  sh_len :: u64
  sh_buf :: "u8 list"
  sh_buf_len :: u32

definition sha256_init_ctx :: crypto_sha256_ctx where
  "sha256_init_ctx = \<lparr>sh_h = sha256_h, sh_len = 0, sh_buf = replicate 64 0, sh_buf_len = 0\<rparr>"

definition crypto_sha256_init ::
  "crypto_sha256_ctx ptr \<Rightarrow> crypto_status \<times> crypto_sha256_ctx ptr" where
  "crypto_sha256_init ctx =
     (case ctx of None \<Rightarrow> (CRYPTO_ERROR_INVALID_PARAM, None)
      | Some c \<Rightarrow> (CRYPTO_SUCCESS, Some sha256_init_ctx))"

text \<open>
  One \<^verbatim>\<open>memcpy\<close> of the update loop into the 64-byte array \<^verbatim>\<open>ctx->buf\<close>. The source buffer
  is given as a function of the context, because \<open>crypto_sha256_final\<close> passes
  \<^verbatim>\<open>ctx->buf\<close> itself as the data.
\<close>

definition sha256_absorb ::
  "crypto_sha256_ctx \<Rightarrow> u8 list \<Rightarrow> nat \<Rightarrow> u32 \<Rightarrow> crypto_sha256_ctx cmem" where
  "sha256_absorb c data pos chunk_size =
     (if length (sh_buf c) \<noteq> 64 then None
      else do {
        b \<leftarrow> memcpy (sh_buf c) (unat (sh_buf_len c)) data pos (unat chunk_size);
        Some (c\<lparr>sh_buf := b, sh_buf_len := sh_buf_len c + chunk_size\<rparr>)
      })"

definition sha256_chunk :: "crypto_sha256_ctx \<Rightarrow> u32 \<Rightarrow> u32" where
  "sha256_chunk c len = (if 64 < sh_buf_len c + len then 64 - sh_buf_len c else len)"

definition sha256_flush :: "crypto_sha256_ctx \<Rightarrow> crypto_sha256_ctx" where
  "sha256_flush c =
     (if sh_buf_len c = 64
      then c\<lparr>sh_h := sha256_compress (sh_h c) (sh_buf c), sh_buf_len := 0\<rparr> else c)"

lemma sha256_absorb_Some:
  assumes "sha256_absorb c data pos n = Some c'"
  shows "unat (sh_buf_len c) + unat n \<le> 64"
    and "c' = c\<lparr>sh_buf := take (unat (sh_buf_len c)) (sh_buf c) @ take (unat n) (drop pos data) @
                 drop (unat (sh_buf_len c) + unat n) (sh_buf c),
                sh_buf_len := sh_buf_len c + n\<rparr>"
  using assms by (auto simp: sha256_absorb_def memcpy_Some_iff split: if_splits bind_splits)

function (sequential) sha256_update_loop ::
  "(crypto_sha256_ctx \<Rightarrow> u8 list) \<Rightarrow> crypto_sha256_ctx \<Rightarrow> nat \<Rightarrow> u32 \<Rightarrow> crypto_sha256_ctx cmem" where
  "sha256_update_loop src c pos len =
     (if len = 0 then Some c
      else (case sha256_absorb c (src c) pos (sha256_chunk c len) of
              None \<Rightarrow> None
            | Some c' \<Rightarrow> sha256_update_loop src (sha256_flush c')
                (pos + unat (sha256_chunk c len)) (len - sha256_chunk c len)))"
  by pat_completeness auto

lemma sha256_chunk_le: "unat (sh_buf_len c) \<le> 64 \<Longrightarrow> sha256_chunk c len \<le> len"
  unfolding sha256_chunk_def by unat_arith

lemma sha256_chunk_zero: "unat (sh_buf_len c) \<le> 64 \<Longrightarrow> len \<noteq> 0 \<Longrightarrow>
    sha256_chunk c len = 0 \<Longrightarrow> sh_buf_len c = 64"
  by (simp add: sha256_chunk_def split: if_splits)

termination sha256_update_loop
proof (relation "measure (\<lambda>(src, c, pos, len). 2 * unat len + (if sh_buf_len c = 64 then 1 else 0))",
    goal_cases)
  case 1
  show ?case by simp
next
  case (2 src c pos len c')
  let ?n = "sha256_chunk c len"
  from sha256_absorb_Some(1) [OF 2(2)] have bl: "unat (sh_buf_len c) \<le> 64" by simp
  have eq: "c' = c\<lparr>sh_buf := sh_buf c', sh_buf_len := sh_buf_len c + ?n\<rparr>"
    using sha256_absorb_Some(2) [OF 2(2)] by simp
  have fl: "sh_buf_len (sha256_flush c') \<noteq> 64"
    by (simp add: sha256_flush_def)
  show ?case
  proof (cases "?n = 0")
    case True
    with bl 2(1) have "sh_buf_len c = 64" by (intro sha256_chunk_zero)
    with True fl show ?thesis by simp
  next
    case False
    from sha256_chunk_le [OF bl] have "?n \<le> len" .
    then have "unat (len - ?n) < unat len"
      using False 2(1) by unat_arith
    with fl show ?thesis by simp
  qed
qed

declare sha256_update_loop.simps [simp del]

definition sha256_update_core ::
  "(crypto_sha256_ctx \<Rightarrow> u8 list) \<Rightarrow> crypto_sha256_ctx \<Rightarrow> u32 \<Rightarrow> crypto_sha256_ctx cmem" where
  "sha256_update_core src c len = sha256_update_loop src (c\<lparr>sh_len := sh_len c + ucast len\<rparr>) 0 len"

definition crypto_sha256_update ::
  "crypto_sha256_ctx ptr \<Rightarrow> u8 list ptr \<Rightarrow> u32 \<Rightarrow> (crypto_status \<times> crypto_sha256_ctx ptr) cmem" where
  "crypto_sha256_update ctx data len =
     (case (ctx, data) of
        (Some c, Some d) \<Rightarrow> do {
          c' \<leftarrow> sha256_update_core (\<lambda>_. d) c len;
          Some (CRYPTO_SUCCESS, Some c')
        }
      | _ \<Rightarrow> Some (CRYPTO_ERROR_INVALID_PARAM, ctx))"

text \<open>\<^verbatim>\<open>ctx->buf[ctx->buf_len++] = b\<close>, within the 64 bytes of the array.\<close>

definition sha256_put :: "crypto_sha256_ctx \<Rightarrow> u8 \<Rightarrow> crypto_sha256_ctx cmem" where
  "sha256_put c b =
     (if unat (sh_buf_len c) < 64
      then Some (c\<lparr>sh_buf := (sh_buf c)[unat (sh_buf_len c) := b], sh_buf_len := sh_buf_len c + 1\<rparr>)
      else None)"

fun sha256_put_all :: "crypto_sha256_ctx \<Rightarrow> u8 list \<Rightarrow> crypto_sha256_ctx cmem" where
  "sha256_put_all c [] = Some c"
| "sha256_put_all c (b # bs) =
     (case sha256_put c b of None \<Rightarrow> None | Some c' \<Rightarrow> sha256_put_all c' bs)"

text \<open>The body of the padding loop when the buffer is full: \<^verbatim>\<open>update(ctx, ctx->buf, 64)\<close>.\<close>

definition sha256_pad_wrap :: "crypto_sha256_ctx \<Rightarrow> crypto_sha256_ctx cmem" where
  "sha256_pad_wrap c =
     (if sh_buf_len c = 64
      then do { c' \<leftarrow> sha256_update_core sh_buf c 64; Some (c'\<lparr>sh_buf_len := 0\<rparr>) }
      else Some c)"

function (sequential) sha256_pad_zeros :: "crypto_sha256_ctx \<Rightarrow> crypto_sha256_ctx cmem" where
  "sha256_pad_zeros c =
     (if sh_buf_len c mod 64 = 56 then Some c
      else (case sha256_pad_wrap c of
              None \<Rightarrow> None
            | Some c1 \<Rightarrow> (case sha256_put c1 0 of
                            None \<Rightarrow> None
                          | Some c2 \<Rightarrow> sha256_pad_zeros c2)))"
  by pat_completeness auto
termination
proof (relation "measure (\<lambda>c. if sh_buf_len c \<le> 56 then 56 - unat (sh_buf_len c)
                               else 200 - unat (sh_buf_len c))", goal_cases)
  case 1
  show ?case by simp
next
  case (2 c c1 c2)
  from 2(3) have c1: "unat (sh_buf_len c1) < 64" and c2: "sh_buf_len c2 = sh_buf_len c1 + 1"
    by (auto simp: sha256_put_def split: if_splits)
  show ?case
  proof (cases "sh_buf_len c = 64")
    case True
    with 2(2) have "sh_buf_len c1 = 0" by (auto simp: sha256_pad_wrap_def split: bind_splits)
    with c2 True show ?thesis by simp
  next
    case False
    with 2(2) have [simp]: "c1 = c" by (simp add: sha256_pad_wrap_def)
    have "sh_buf_len c \<noteq> 56" using 2(1) by auto
    then have "unat (sh_buf_len c) \<noteq> 56" by unat_arith
    moreover have "unat (sh_buf_len c2) = Suc (unat (sh_buf_len c))"
      using c1 c2 by (simp add: unat_word_ariths)
    ultimately show ?thesis using c1 by (auto simp: word_le_nat_alt)
  qed
qed

declare sha256_pad_zeros.simps [simp del]

definition sha256_digest :: "u32 list \<Rightarrow> u8 list" where
  "sha256_digest hs = concat (map (\<lambda>i. be32_bytes (hs ! i)) [0..<8])"

definition crypto_sha256_final ::
  "crypto_sha256_ctx ptr \<Rightarrow> u8 list ptr \<Rightarrow>
   (crypto_status \<times> crypto_sha256_ctx ptr \<times> u8 list ptr) cmem" where
  "crypto_sha256_final ctx hash =
     (case (ctx, hash) of
        (Some c, Some out) \<Rightarrow> do {
          let bit_len = sh_len c * 8;
          c1 \<leftarrow> sha256_put c 0x80;
          c2 \<leftarrow> sha256_pad_zeros c1;
          c3 \<leftarrow> sha256_put_all c2 (be64_bytes bit_len);
          c4 \<leftarrow> sha256_update_core sh_buf c3 (sh_buf_len c3);
          out' \<leftarrow> memcpy out 0 (sha256_digest (sh_h c4)) 0 32;
          Some (CRYPTO_SUCCESS, Some c4, Some out')
        }
      | _ \<Rightarrow> Some (CRYPTO_ERROR_INVALID_PARAM, ctx, hash))"

text \<open>
  The one-shot hash ignores the status codes of the three calls. The context is a local variable
  that is zeroized before the function returns, so only the output buffer is left.
\<close>

definition sha256_hash :: "u8 list ptr \<Rightarrow> u32 \<Rightarrow> u8 list ptr \<Rightarrow> u8 list ptr cmem" where
  "sha256_hash data len hash = do {
     (_, c1) \<leftarrow> crypto_sha256_update (snd (crypto_sha256_init (Some sha256_init_ctx))) data len;
     (_, _, out) \<leftarrow> crypto_sha256_final c1 hash;
     Some out
   }"

section \<open>What a context stands for\<close>

text \<open>
  \<open>sha256_rep c m\<close>: the context \<open>c\<close> has absorbed the message \<open>m\<close>. The full blocks of \<open>m\<close>
  are folded into the chaining value, the rest lies at the front of the buffer.
\<close>

definition sha256_absorbed :: "crypto_sha256_ctx \<Rightarrow> u8 list \<Rightarrow> bool" where
  "sha256_absorbed c m \<longleftrightarrow>
     sh_h c = foldl sha256_compress sha256_h (blocks 64 m) \<and>
     length (sh_buf c) = 64 \<and>
     unat (sh_buf_len c) = length (rest 64 m) \<and>
     take (length (rest 64 m)) (sh_buf c) = rest 64 m"

definition sha256_rep :: "crypto_sha256_ctx \<Rightarrow> u8 list \<Rightarrow> bool" where
  "sha256_rep c m \<longleftrightarrow> sha256_absorbed c m \<and> sh_len c = of_nat (length m)"

lemma sha256_rep_init: "sha256_rep sha256_init_ctx []"
  by (simp add: sha256_rep_def sha256_absorbed_def sha256_init_ctx_def)

lemma sha256_absorbed_buf_len: "sha256_absorbed c m \<Longrightarrow> unat (sh_buf_len c) < 64"
  by (simp add: sha256_absorbed_def length_rest)

lemma unat_sha256_chunk:
  assumes "unat (sh_buf_len c) < 64" and "unat (sh_buf_len c) + unat len < 2 ^ 32"
  shows "unat (sha256_chunk c len) = min (64 - unat (sh_buf_len c)) (unat len)"
proof -
  have s: "unat (sh_buf_len c + len) = unat (sh_buf_len c) + unat len"
    using assms(2) by (simp add: unat_add_small)
  have d: "unat (64 - sh_buf_len c) = 64 - unat (sh_buf_len c)"
    using assms(1) by (simp add: unat_sub_small)
  show ?thesis using s d by (auto simp: sha256_chunk_def word_less_nat_alt)
qed

lemma sha256_flush_fields [simp]:
  "sh_len (sha256_flush c) = sh_len c" "sh_buf (sha256_flush c) = sh_buf c"
  by (simp_all add: sha256_flush_def)

text \<open>One iteration of the loop absorbs one chunk of the data.\<close>

lemma sha256_step:
  assumes rep: "sha256_absorbed c m"
    and fit: "unat (sh_buf_len c) + unat len < 2 ^ 32" and pos: "pos + unat len \<le> length d"
  defines "n \<equiv> unat (sha256_chunk c len)"
  shows "\<exists>c'. sha256_absorb c d pos (sha256_chunk c len) = Some c' \<and>
           sha256_absorbed (sha256_flush c') (m @ take n (drop pos d)) \<and> sh_len c' = sh_len c"
proof -
  let ?bl = "unat (sh_buf_len c)" and ?y = "take n (drop pos d)"
  from rep have bl: "?bl < 64" and blr: "?bl = length (rest 64 m)" and lb: "length (sh_buf c) = 64"
    and pre: "take ?bl (sh_buf c) = rest 64 m" and hh: "sh_h c = foldl sha256_compress sha256_h (blocks 64 m)"
    by (auto simp: sha256_absorbed_def length_rest)
  have n: "n = min (64 - ?bl) (unat len)" using unat_sha256_chunk [OF bl fit] by (simp add: n_def)
  then have nb: "?bl + n \<le> 64" and np: "pos + n \<le> length d" using pos bl by auto
  define c' where "c' = c\<lparr>sh_buf := take ?bl (sh_buf c) @ ?y @ drop (?bl + n) (sh_buf c),
                            sh_buf_len := sh_buf_len c + sha256_chunk c len\<rparr>"
  have ab: "sha256_absorb c d pos (sha256_chunk c len) = Some c'"
    using nb np lb by (simp add: sha256_absorb_def memcpy_def c'_def n_def [symmetric])
  have ly: "length ?y = n" using np by simp
  have ubl: "unat (sh_buf_len c + sha256_chunk c len) = ?bl + n"
    using nb by (simp add: unat_word_ariths n_def)
  have b': "sh_buf c' = (rest 64 m @ ?y) @ drop (?bl + n) (sh_buf c)" by (simp add: c'_def pre)
  have lry: "length (rest 64 m @ ?y) = ?bl + n" by (simp only: length_append ly blr)
  show ?thesis
  proof (cases "?bl + n = 64")
    case True
    have bb: "sh_buf_len c + sha256_chunk c len = 64" using ubl True by (intro unat_eqI) simp
    from True lry have l64: "length (rest 64 m @ ?y) = 64" by simp
    have "sh_buf c' = rest 64 m @ ?y" using b' True lb by simp
    then have "sha256_absorbed (sha256_flush c') (m @ ?y)"
      using blocks_snoc_block [OF _ l64] hh l64 bb
      by (simp add: sha256_absorbed_def sha256_flush_def c'_def)
    with ab show ?thesis by (auto simp: c'_def)
  next
    case False
    with nb lry have l: "length (rest 64 m @ ?y) < 64" by simp
    have "sh_buf_len c + sha256_chunk c len \<noteq> 64" using ubl False by auto
    then have fl: "sha256_flush c' = c'" by (simp add: sha256_flush_def c'_def)
    have "take (?bl + n) (sh_buf c') = rest 64 m @ ?y" using b' lry by (metis append_eq_conv_conj)
    then have "sha256_absorbed c' (m @ ?y)"
      using blocks_short_append [OF _ l] hh lb nb ubl lry np
      by (simp add: sha256_absorbed_def c'_def)
    with ab fl show ?thesis by (auto simp: c'_def)
  qed
qed

lemma sha256_update_loop_absorbs:
  assumes "sha256_absorbed c m"
    and "unat (sh_buf_len c) + unat len < 2 ^ 32" and "pos + unat len \<le> length d"
  shows "\<exists>c'. sha256_update_loop (\<lambda>_. d) c pos len = Some c' \<and>
           sha256_absorbed c' (m @ take (unat len) (drop pos d)) \<and> sh_len c' = sh_len c"
  using assms
proof (induction "\<lambda>_ :: crypto_sha256_ctx. d" c pos len arbitrary: m rule: sha256_update_loop.induct)
  case (1 c pos len)
  show ?case
  proof (cases "len = 0")
    case True
    with "1.prems" show ?thesis by (simp add: sha256_update_loop.simps)
  next
    case False
    let ?n = "sha256_chunk c len"
    have bl: "unat (sh_buf_len c) < 64" using "1.prems"(1) by (rule sha256_absorbed_buf_len)
    have n: "unat ?n = min (64 - unat (sh_buf_len c)) (unat len)"
      by (rule unat_sha256_chunk [OF bl "1.prems"(2)])
    then have nl: "unat ?n \<le> unat len" by simp
    then have sub: "unat (len - ?n) = unat len - unat ?n"
      by (simp add: unat_sub word_le_nat_alt)
    from sha256_step [OF "1.prems"] obtain c' where
      c': "sha256_absorb c d pos ?n = Some c'"
      and ab: "sha256_absorbed (sha256_flush c') (m @ take (unat ?n) (drop pos d))"
      and ln: "sh_len c' = sh_len c" by blast
    have bl': "unat (sh_buf_len (sha256_flush c')) < 64" by (rule sha256_absorbed_buf_len [OF ab])
    have "sh_buf_len c' = sh_buf_len c + ?n" using sha256_absorb_Some(2) [OF c'] by simp
    have fit': "unat (sh_buf_len (sha256_flush c')) + unat (len - ?n) < 2 ^ 32"
    proof (cases "unat ?n = unat len")
      case True
      with sub bl' show ?thesis by simp
    next
      case F: False
      with n have "unat (sh_buf_len c) + unat ?n = 64" using bl by auto
      then have "sh_buf_len c + ?n = 64" by (intro unat_eqI) (simp add: unat_add_small)
      then have "sh_buf_len (sha256_flush c') = 0"
        using \<open>sh_buf_len c' = sh_buf_len c + ?n\<close> by (simp add: sha256_flush_def)
      then show ?thesis by simp
    qed
    have pos': "(pos + unat ?n) + unat (len - ?n) \<le> length d" using "1.prems"(3) sub nl by simp
    from "1.hyps" [OF False c' ab fit' pos'] obtain c'' where
      c'': "sha256_update_loop (\<lambda>_. d) (sha256_flush c') (pos + unat ?n) (len - ?n) = Some c''"
      and ab'': "sha256_absorbed c'' ((m @ take (unat ?n) (drop pos d)) @
              take (unat (len - ?n)) (drop (pos + unat ?n) d))"
      and ln'': "sh_len c'' = sh_len (sha256_flush c')" by blast
    have "take (unat ?n) (drop pos d) @ take (unat (len - ?n)) (drop (pos + unat ?n) d)
        = take (unat len) (drop pos d)"
      using nl sub by (simp add: take_drop_append)
    with ab'' have "sha256_absorbed c'' (m @ take (unat len) (drop pos d))" by simp
    moreover have "sha256_update_loop (\<lambda>_. d) c pos len = Some c''"
      using False c' c'' by (simp add: sha256_update_loop.simps [of _ c pos len])
    ultimately show ?thesis using ln ln'' by simp
  qed
qed

lemma sha256_update_core_rep:
  assumes "sha256_rep c m" and "unat len \<le> length d" and "unat len \<le> 2 ^ 32 - 64"
  shows "\<exists>c'. sha256_update_core (\<lambda>_. d) c len = Some c' \<and> sha256_rep c' (m @ take (unat len) d)"
proof -
  let ?c = "c\<lparr>sh_len := sh_len c + ucast len\<rparr>"
  from assms(1) have ab: "sha256_absorbed ?c m" by (simp add: sha256_rep_def sha256_absorbed_def)
  have "unat (sh_buf_len ?c) < 64" by (rule sha256_absorbed_buf_len [OF ab])
  then have "unat (sh_buf_len ?c) + unat len < 2 ^ 32" using assms(3) by simp
  from sha256_update_loop_absorbs [OF ab this, of 0 d] assms(2) obtain c' where
    c': "sha256_update_loop (\<lambda>_. d) ?c 0 len = Some c'"
    and ab': "sha256_absorbed c' (m @ take (unat len) d)" and ln: "sh_len c' = sh_len c + ucast len"
    by auto
  have "sh_len c' = of_nat (length (m @ take (unat len) d))"
    using ln assms(1,2) by (simp add: sha256_rep_def)
  with ab' have "sha256_rep c' (m @ take (unat len) d)" by (simp add: sha256_rep_def)
  with c' show ?thesis unfolding sha256_update_core_def by blast
qed

section \<open>Finalisation\<close>

text \<open>
  The call \<^verbatim>\<open>crypto_sha256_update(ctx, ctx->buf, 64)\<close> on a full buffer: the first iteration of
  the loop copies nothing and compresses the buffer, the second copies the buffer onto itself and
  compresses it again.
\<close>

lemma sha256_update_self:
  assumes "length (sh_buf c) = 64" and "sh_buf_len c = 64"
  shows "sha256_update_core sh_buf c 64 =
     Some (c\<lparr>sh_h := sha256_compress (sha256_compress (sh_h c) (sh_buf c)) (sh_buf c),
             sh_len := sh_len c + 64, sh_buf_len := 0\<rparr>)"
  using assms
  by (simp add: sha256_update_core_def sha256_update_loop.simps sha256_chunk_def sha256_absorb_def
      memcpy_def sha256_flush_def)

lemma sha256_put_all_eq:
  assumes "length (sh_buf c) = 64" and "unat (sh_buf_len c) + length bs \<le> 64"
  shows "sha256_put_all c bs =
     Some (c\<lparr>sh_buf := take (unat (sh_buf_len c)) (sh_buf c) @ bs @
                       drop (unat (sh_buf_len c) + length bs) (sh_buf c),
             sh_buf_len := sh_buf_len c + of_nat (length bs)\<rparr>)"
  using assms
proof (induction bs arbitrary: c)
  case Nil
  then show ?case by simp
next
  case (Cons b bs)
  let ?n = "unat (sh_buf_len c)"
  let ?c = "c\<lparr>sh_buf := (sh_buf c)[?n := b], sh_buf_len := sh_buf_len c + 1\<rparr>"
  from Cons.prems have n: "?n < 64" by simp
  then have n1: "unat (sh_buf_len c + 1) = Suc ?n" by (simp add: unat_add_small)
  have "sha256_put_all ?c bs = Some (?c\<lparr>sh_buf := take (Suc ?n) (sh_buf ?c) @ bs @
          drop (Suc ?n + length bs) (sh_buf ?c), sh_buf_len := sh_buf_len c + 1 + of_nat (length bs)\<rparr>)"
    using Cons.IH [of ?c] Cons.prems n1 by simp
  moreover have "take (Suc ?n) ((sh_buf c)[?n := b]) = take ?n (sh_buf c) @ [b]"
    using n Cons.prems(1) by (simp add: take_Suc_conv_app_nth)
  ultimately show ?case using n
    by (simp add: sha256_put_def drop_update_cancel add.commute add.left_commute)
qed

lemma sha256_pad_zeros_low:
  assumes "length (sh_buf c) = 64" and "unat (sh_buf_len c) \<le> 56"
  shows "sha256_pad_zeros c = sha256_put_all c (replicate (56 - unat (sh_buf_len c)) 0)"
  using assms
proof (induction "56 - unat (sh_buf_len c)" arbitrary: c)
  case 0
  then have "sh_buf_len c = 56" by (intro unat_eqI) simp
  then show ?case by (simp add: sha256_pad_zeros.simps [of c])
next
  case (Suc k)
  then have lt: "unat (sh_buf_len c) < 56" by simp
  then have ne: "sh_buf_len c mod 64 \<noteq> 56" "sh_buf_len c \<noteq> 64"
    by (auto simp: word_arith_nat_mod unat_of_nat dest!: arg_cong [where f = unat])
  define c2 where "c2 = c\<lparr>sh_buf := (sh_buf c)[unat (sh_buf_len c) := 0], sh_buf_len := sh_buf_len c + 1\<rparr>"
  have put: "sha256_put c 0 = Some c2" using lt by (simp add: sha256_put_def c2_def)
  have bl2: "unat (sh_buf_len c2) = Suc (unat (sh_buf_len c))"
    using lt by (simp add: c2_def unat_add_small)
  have "sha256_pad_zeros c = sha256_pad_zeros c2"
    using ne put by (simp add: sha256_pad_zeros.simps [of c] sha256_pad_wrap_def)
  also have "\<dots> = sha256_put_all c2 (replicate (56 - unat (sh_buf_len c2)) 0)"
    using Suc bl2 lt by (intro Suc.hyps(1)) (simp_all add: c2_def)
  also have "\<dots> = sha256_put_all c (replicate (56 - unat (sh_buf_len c)) 0)"
  proof -
    have "56 - unat (sh_buf_len c) = Suc (56 - unat (sh_buf_len c2))" using bl2 lt by simp
    then show ?thesis using put by simp
  qed
  finally show ?case .
qed

lemma sha256_put_all_append:
  "sha256_put_all c (xs @ ys) = (case sha256_put_all c xs of None \<Rightarrow> None | Some c' \<Rightarrow> sha256_put_all c' ys)"
  by (induction xs arbitrary: c) (auto split: option.splits)

definition sha256_compress_twice :: "u32 list \<Rightarrow> u8 list \<Rightarrow> u32 list" where
  "sha256_compress_twice hs b = sha256_compress (sha256_compress hs b) b"

lemma length_sha256_compress_twice [simp]: "length (sha256_compress_twice hs b) = 8"
  by (simp add: sha256_compress_twice_def)

lemma sha256_pad_zeros_full:
  assumes "length (sh_buf c) = 64" and "sh_buf_len c = 64"
  shows "sha256_pad_zeros c =
     Some (c\<lparr>sh_h := sha256_compress_twice (sh_h c) (sh_buf c), sh_len := sh_len c + 64,
             sh_buf := replicate 56 0 @ drop 56 (sh_buf c), sh_buf_len := 56\<rparr>)"
proof -
  let ?w = "c\<lparr>sh_h := sha256_compress_twice (sh_h c) (sh_buf c), sh_len := sh_len c + 64, sh_buf_len := 0\<rparr>"
  have w: "sha256_pad_wrap c = Some ?w"
    using assms by (simp add: sha256_pad_wrap_def sha256_update_self sha256_compress_twice_def)
  have p: "sha256_put ?w 0 = Some (?w\<lparr>sh_buf := (sh_buf c)[0 := 0], sh_buf_len := 1\<rparr>)"
    by (simp add: sha256_put_def)
  have "sha256_pad_zeros c = sha256_pad_zeros (?w\<lparr>sh_buf := (sh_buf c)[0 := 0], sh_buf_len := 1\<rparr>)"
    using assms(2) w p by (simp add: sha256_pad_zeros.simps [of c])
  moreover have "take 1 ((sh_buf c)[0 := 0]) = [0]" using assms(1) by (cases "sh_buf c") auto
  moreover have "(0::u8) # replicate 55 0 = replicate 56 0" by (simp add: numeral_eq_Suc)
  ultimately show ?thesis using assms(1)
    by (simp add: sha256_pad_zeros_low sha256_put_all_eq drop_update_cancel)
qed

lemma sha256_pad_zeros_high:
  assumes "length (sh_buf c) = 64" and "56 < unat (sh_buf_len c)" and "unat (sh_buf_len c) \<le> 64"
  shows "sha256_pad_zeros c =
     (case sha256_put_all c (replicate (64 - unat (sh_buf_len c)) 0) of
        None \<Rightarrow> None | Some c' \<Rightarrow> sha256_pad_zeros c')"
  using assms
proof (induction "64 - unat (sh_buf_len c)" arbitrary: c)
  case 0
  then show ?case by simp
next
  case (Suc k)
  then have lt: "unat (sh_buf_len c) < 64" by simp
  have ne: "sh_buf_len c mod 64 \<noteq> 56" "sh_buf_len c \<noteq> 64"
    using lt Suc.prems(2) by (auto simp: word_arith_nat_mod unat_of_nat dest!: arg_cong [where f = unat])
  define c2 where "c2 = c\<lparr>sh_buf := (sh_buf c)[unat (sh_buf_len c) := 0], sh_buf_len := sh_buf_len c + 1\<rparr>"
  have put: "sha256_put c 0 = Some c2" using lt by (simp add: sha256_put_def c2_def)
  have bl2: "unat (sh_buf_len c2) = Suc (unat (sh_buf_len c))"
    using lt by (simp add: c2_def unat_add_small)
  have "sha256_pad_zeros c = sha256_pad_zeros c2"
    using ne put by (simp add: sha256_pad_zeros.simps [of c] sha256_pad_wrap_def)
  also have "\<dots> = (case sha256_put_all c2 (replicate (64 - unat (sh_buf_len c2)) 0) of
        None \<Rightarrow> None | Some c' \<Rightarrow> sha256_pad_zeros c')"
    using Suc bl2 lt by (intro Suc.hyps(1)) (simp_all add: c2_def)
  also have "sha256_put_all c2 (replicate (64 - unat (sh_buf_len c2)) 0) =
      sha256_put_all c (replicate (64 - unat (sh_buf_len c)) 0)"
  proof -
    have "64 - unat (sh_buf_len c) = Suc (64 - unat (sh_buf_len c2))" using bl2 lt by simp
    then show ?thesis using put by simp
  qed
  finally show ?case .
qed

section \<open>The digest the code computes\<close>

text \<open>
  \<open>sha256_fips\<close> is the SHA-256 of the standard: every block of the padded message is compressed
  once. \<open>sha256_code\<close> is what the code computes: the blocks of the message proper are compressed
  once, the one or two blocks that hold the padding twice each.
\<close>

definition sha256_padding :: "u8 list \<Rightarrow> u8 list" where
  "sha256_padding m =
     0x80 # replicate ((119 - length m mod 64) mod 64) 0 @ be64_bytes (of_nat (length m) * 8)"

definition sha256_fips :: "u8 list \<Rightarrow> u8 list" where
  "sha256_fips m = sha256_digest (foldl sha256_compress sha256_h (blocks 64 (m @ sha256_padding m)))"

definition sha256_code :: "u8 list \<Rightarrow> u8 list" where
  "sha256_code m =
     sha256_digest (foldl sha256_compress_twice (foldl sha256_compress sha256_h (blocks 64 m))
       (blocks 64 (rest 64 m @ sha256_padding m)))"

lemma length_sha256_digest [simp]: "length (sha256_digest hs) = 32"
  by (simp add: sha256_digest_def length_concat comp_def sum_list_triv)

lemma length_sha256_code [simp]: "length (sha256_code m) = 32"
  by (simp add: sha256_code_def)

definition sha256_pad_ctx :: "crypto_sha256_ctx \<Rightarrow> u8 list \<Rightarrow> crypto_sha256_ctx cmem" where
  "sha256_pad_ctx c lenb = do {
     c1 \<leftarrow> sha256_put c 0x80;
     c2 \<leftarrow> sha256_pad_zeros c1;
     sha256_put_all c2 lenb
   }"

lemma sha256_pad_ctx_low:
  assumes ab: "sha256_absorbed c m" and low: "length (rest 64 m) < 56" and lb: "length lenb = 8"
  shows "sha256_pad_ctx c lenb =
     Some (c\<lparr>sh_buf := rest 64 m @ 0x80 # replicate (55 - length (rest 64 m)) 0 @ lenb,
             sh_buf_len := 64\<rparr>)"
proof -
  let ?r = "unat (sh_buf_len c)" and ?pad = "0x80 # replicate (55 - unat (sh_buf_len c)) (0::u8) @ lenb"
  from ab have r: "?r = length (rest 64 m)" and b: "length (sh_buf c) = 64"
    and pre: "take ?r (sh_buf c) = rest 64 m" by (auto simp: sha256_absorbed_def)
  let ?c1 = "c\<lparr>sh_buf := (sh_buf c)[?r := 0x80], sh_buf_len := sh_buf_len c + 1\<rparr>"
  have put: "sha256_put c 0x80 = Some ?c1" using low r by (simp add: sha256_put_def)
  have n1: "unat (sh_buf_len ?c1) = Suc ?r" using low r by (simp add: unat_add_small)
  have "sha256_pad_ctx c lenb = sha256_put_all c ?pad"
    using put n1 low r b sha256_pad_zeros_low [of ?c1]
    by (simp add: sha256_pad_ctx_def sha256_put_all_append Option.bind_eq_Some_conv split: option.split)
  also have lp: "length ?pad = 64 - ?r" using lb low r by simp
  have s64: "sh_buf_len c + of_nat (length ?pad) = 64"
    using low r word_add_of_nat_diff [of "sh_buf_len c" 64] unfolding lp by simp
  have dr: "drop (?r + length ?pad) (sh_buf c) = []" using low r lp b by simp
  have "sha256_put_all c ?pad = Some (c\<lparr>sh_buf := take ?r (sh_buf c) @ ?pad @
      drop (?r + length ?pad) (sh_buf c), sh_buf_len := sh_buf_len c + of_nat (length ?pad)\<rparr>)"
    using b low r lp by (intro sha256_put_all_eq) simp_all
  finally show ?thesis by (simp only: s64 dr pre append_Nil2) (simp only: r append_Cons)
qed

lemma sha256_pad_ctx_high:
  assumes ab: "sha256_absorbed c m" and high: "56 \<le> length (rest 64 m)" and lb: "length lenb = 8"
  shows "sha256_pad_ctx c lenb =
     Some (c\<lparr>sh_h := sha256_compress_twice (sh_h c)
                       (rest 64 m @ 0x80 # replicate (63 - length (rest 64 m)) 0),
             sh_len := sh_len c + 64, sh_buf := replicate 56 0 @ lenb, sh_buf_len := 64\<rparr>)"
proof -
  let ?r = "unat (sh_buf_len c)" and ?blk = "rest 64 m @ 0x80 # replicate (63 - length (rest 64 m)) (0::u8)"
  from ab have r: "?r = length (rest 64 m)" and b: "length (sh_buf c) = 64"
    and pre: "take ?r (sh_buf c) = rest 64 m" and r64: "?r < 64"
    by (auto simp: sha256_absorbed_def length_rest)
  let ?c1 = "c\<lparr>sh_buf := (sh_buf c)[?r := 0x80], sh_buf_len := sh_buf_len c + 1\<rparr>"
  let ?c2 = "c\<lparr>sh_buf := ?blk, sh_buf_len := 64\<rparr>"
  have put: "sha256_put c 0x80 = Some ?c1" using r64 by (simp add: sha256_put_def)
  have n1: "unat (sh_buf_len ?c1) = Suc ?r" using r64 by (simp add: unat_add_small)
  let ?pad = "0x80 # replicate (63 - ?r) (0::u8)"
  have lp: "length ?pad = 64 - ?r" using r64 by simp
  have s64: "sh_buf_len c + of_nat (length ?pad) = 64"
    using r64 by (simp only: lp word_add_of_nat_diff less_imp_le) simp
  have "sha256_put_all c ?pad = Some (c\<lparr>sh_buf := take ?r (sh_buf c) @ ?pad @
      drop (?r + length ?pad) (sh_buf c), sh_buf_len := sh_buf_len c + of_nat (length ?pad)\<rparr>)"
    using b r64 lp by (intro sha256_put_all_eq) simp_all
  then have "sha256_put_all c ?pad = Some ?c2"
    using b r64 by (simp only: pre s64) (simp add: r)
  then have "sha256_put_all ?c1 (replicate (64 - unat (sh_buf_len ?c1)) 0) = Some ?c2"
    using put n1 r64 by simp
  then have pz: "sha256_pad_zeros ?c1 = sha256_pad_zeros ?c2"
    using n1 r64 high r b sha256_pad_zeros_high [of ?c1] by simp
  have lblk: "length ?blk = 64" using r r64 by simp
  show ?thesis
    using put pz lblk lb sha256_pad_zeros_full [of ?c2]
    by (simp add: sha256_pad_ctx_def sha256_put_all_eq)
qed

lemma pad_zeros_count_low: "x < 56 \<Longrightarrow> (119 - x) mod 64 = 55 - (x :: nat)"
proof -
  assume "x < 56"
  then have "119 - x = 55 - x + 64" by simp
  then show ?thesis by (simp only: mod_add_self2) simp
qed

lemma pad_zeros_count_high: "56 \<le> x \<Longrightarrow> x < 64 \<Longrightarrow> (119 - x) mod 64 = 63 - x + (56 :: nat)"
  by simp

lemma sha256_pad_ctx_blocks:
  assumes "sha256_absorbed c m" and "length lenb = 8"
  shows "\<exists>c3. sha256_pad_ctx c lenb = Some c3 \<and> sh_buf_len c3 = 64 \<and> length (sh_buf c3) = 64 \<and>
     sha256_compress_twice (sh_h c3) (sh_buf c3) =
       foldl sha256_compress_twice (sh_h c)
         (blocks 64 (rest 64 m @ 0x80 # replicate ((119 - length m mod 64) mod 64) 0 @ lenb))"
proof (cases "length (rest 64 m) < 56")
  case True
  let ?b = "rest 64 m @ 0x80 # replicate (55 - length (rest 64 m)) (0::u8) @ lenb"
  have r: "length m mod 64 = length (rest 64 m)" by (simp add: length_rest)
  have "(119 - length m mod 64) mod 64 = 55 - length (rest 64 m)" 
    using True by (simp only: r pad_zeros_count_low)
  moreover have "length ?b = 64" using True assms(2) by simp
  moreover have "blocks 64 ?b = [?b]" using \<open>length ?b = 64\<close> blocks_step [of 64 ?b "[]"] by simp
  ultimately show ?thesis
    using sha256_pad_ctx_low [OF assms(1) True assms(2)] by (simp add: r)
next
  case False
  let ?b = "rest 64 m @ 0x80 # replicate (63 - length (rest 64 m)) (0::u8)"
  let ?e = "replicate 56 (0::u8) @ lenb"
  have r: "length m mod 64 = length (rest 64 m)" by (simp add: length_rest)
  have lt: "length (rest 64 m) < 64" by (simp add: length_rest)
  have z: "replicate ((119 - length m mod 64) mod 64) (0::u8) =
      replicate (63 - length (rest 64 m)) 0 @ replicate 56 0"
    using False lt by (simp only: r pad_zeros_count_high not_less replicate_add)
  moreover have "length ?b = 64" "length ?e = 64" using lt assms(2) by simp_all
  moreover have "blocks 64 (?b @ ?e) = [?b, ?e]"
    using \<open>length ?b = 64\<close> \<open>length ?e = 64\<close> blocks_step [of 64 ?b ?e] blocks_step [of 64 ?e "[]"] by simp
  ultimately show ?thesis
    using sha256_pad_ctx_high [OF assms(1) _ assms(2)] False by (simp only: z) simp
qed

lemma sha256_final_eq:
  assumes "sha256_rep c m" and "32 \<le> length out"
  shows "\<exists>c'. crypto_sha256_final (Some c) (Some out) =
     Some (CRYPTO_SUCCESS, Some c', Some (sha256_code m @ drop 32 out))"
proof -
  let ?lenb = "be64_bytes (sh_len c * 8)"
  from assms(1) have ab: "sha256_absorbed c m" and len: "sh_len c = of_nat (length m)"
    and hh: "sh_h c = foldl sha256_compress sha256_h (blocks 64 m)"
    by (auto simp: sha256_rep_def sha256_absorbed_def)
  from sha256_pad_ctx_blocks [OF ab, of ?lenb] obtain c3 where
    c3: "sha256_pad_ctx c ?lenb = Some c3" and b3: "sh_buf_len c3 = 64" "length (sh_buf c3) = 64"
    and tw: "sha256_compress_twice (sh_h c3) (sh_buf c3) =
       foldl sha256_compress_twice (sh_h c) (blocks 64 (rest 64 m @ sha256_padding m))"
    by (auto simp: sha256_padding_def len)
  from b3 have up: "sha256_update_core sh_buf c3 (sh_buf_len c3) =
     Some (c3\<lparr>sh_h := sha256_compress_twice (sh_h c3) (sh_buf c3), sh_len := sh_len c3 + 64,
              sh_buf_len := 0\<rparr>)"
    by (simp add: sha256_update_self sha256_compress_twice_def)
  have "crypto_sha256_final (Some c) (Some out) = do {
      c3 \<leftarrow> sha256_pad_ctx c ?lenb;
      c4 \<leftarrow> sha256_update_core sh_buf c3 (sh_buf_len c3);
      out' \<leftarrow> memcpy out 0 (sha256_digest (sh_h c4)) 0 32;
      Some (CRYPTO_SUCCESS, Some c4, Some out') }"
    by (simp add: crypto_sha256_final_def sha256_pad_ctx_def)
  also have "\<dots> = do {
      out' \<leftarrow> memcpy out 0 (sha256_code m) 0 32;
      Some (CRYPTO_SUCCESS, Some (c3\<lparr>sh_h := sha256_compress_twice (sh_h c3) (sh_buf c3),
        sh_len := sh_len c3 + 64, sh_buf_len := 0\<rparr>), Some out') }"
    by (simp add: c3 up tw hh sha256_code_def)
  finally show ?thesis using assms(2) by (simp add: memcpy_def)
qed

lemma sha256_hash_eq:
  assumes "unat len \<le> length d" and "unat len \<le> 2 ^ 32 - 64" and "32 \<le> length out"
  shows "sha256_hash (Some d) len (Some out) =
     Some (Some (sha256_code (take (unat len) d) @ drop 32 out))"
proof -
  from sha256_update_core_rep [OF sha256_rep_init assms(1,2)] obtain c where
    c: "sha256_update_core (\<lambda>_. d) sha256_init_ctx len = Some c"
    and rep: "sha256_rep c (take (unat len) d)" by auto
  from sha256_final_eq [OF rep assms(3)] obtain c' where
    "crypto_sha256_final (Some c) (Some out) =
       Some (CRYPTO_SUCCESS, Some c', Some (sha256_code (take (unat len) d) @ drop 32 out))"
    by blast
  with c show ?thesis
    by (simp add: sha256_hash_def crypto_sha256_update_def crypto_sha256_init_def)
qed

section \<open>Properties\<close>

text \<open>streaming is independent of how the data is cut: for a context that has absorbed a
  message, two successive calls of \<open>crypto_sha256_update\<close> succeed without leaving any buffer and
  yield a context that has absorbed the message followed by the two pieces, whatever the fill level
  of the block buffer is. The sizes are those the 32-bit length arithmetic of the loop can handle.\<close>

lemma sha256_update_streams:
  assumes "sha256_rep c m"
    and "unat n1 \<le> length d1" and "unat n1 \<le> 2 ^ 32 - 64"
    and "unat n2 \<le> length d2" and "unat n2 \<le> 2 ^ 32 - 64"
  shows "\<exists>c1 c2. crypto_sha256_update (Some c) (Some d1) n1 = Some (CRYPTO_SUCCESS, Some c1) \<and>
     crypto_sha256_update (Some c1) (Some d2) n2 = Some (CRYPTO_SUCCESS, Some c2) \<and>
     sha256_rep c2 (m @ take (unat n1) d1 @ take (unat n2) d2)"
proof -
  from sha256_update_core_rep [OF assms(1-3)] obtain c1 where
    c1: "sha256_update_core (\<lambda>_. d1) c n1 = Some c1" and r1: "sha256_rep c1 (m @ take (unat n1) d1)"
    by blast
  from sha256_update_core_rep [OF r1 assms(4,5)] obtain c2 where
    "sha256_update_core (\<lambda>_. d2) c1 n2 = Some c2"
    and "sha256_rep c2 (m @ take (unat n1) d1 @ take (unat n2) d2)"
    by auto
  with c1 show ?thesis by (simp add: crypto_sha256_update_def)
qed

text \<open>C22: the digest that \<open>sha256_hash\<close> really computes. Every call on a buffer of at least
  \<open>len\<close> bytes returns, stays within the buffers and writes exactly 32 bytes: the blocks of the
  message are compressed once, but each block that contains padding is compressed twice, because
  \<open>crypto_sha256_final\<close> passes the full block buffer to \<open>crypto_sha256_update\<close> while
  \<^verbatim>\<open>buf_len\<close> is still 64.\<close>

theorem sha256_hash_digest:
  assumes "unat len \<le> length d" and "unat len \<le> 2 ^ 32 - 64" and "32 \<le> length out"
  shows "sha256_hash (Some d) len (Some out) =
     Some (Some (sha256_digest
       (foldl (\<lambda>h b. sha256_compress (sha256_compress h b) b)
          (foldl sha256_compress sha256_h (blocks 64 (take (unat len) d)))
          (blocks 64 (rest 64 (take (unat len) d) @ sha256_padding (take (unat len) d))))
       @ drop 32 out))"
  using sha256_hash_eq [OF assms]
  by (simp add: sha256_code_def sha256_compress_twice_def [abs_def])

theorem sha256_hash_digest_witness:
  "sha256_hash (Some [97, 98, 99]) 3 (Some (replicate 32 0)) =
     Some (Some (sha256_digest
       (foldl (\<lambda>h b. sha256_compress (sha256_compress h b) b) sha256_h
          (blocks 64 ([97, 98, 99] @ sha256_padding [97, 98, 99])))))"
  using sha256_hash_digest [of 3 "[97, 98, 99]" "replicate 32 0"] by simp

end
