(* ===== verification/Aes.thy ===== *)
theory Aes
  imports Sha256
begin

text \<open>
  \<^verbatim>\<open>security/aes.c\<close>: the tables, the key expansion, the block cipher in both directions and the
  CBC mode. A buffer argument is a byte list together with the offset the C pointer has inside it; the
  interface \<open>block_cipher\<close> carries what the modes need from the cipher, and its interpretation on
  the modelled AES discharges that decryption inverts encryption.
\<close>

section \<open>Tables\<close>

definition aes_sbox :: "u8 list" where
  "aes_sbox = concat
    [[0x63, 0x7c, 0x77, 0x7b, 0xf2, 0x6b, 0x6f, 0xc5, 0x30, 0x01, 0x67, 0x2b, 0xfe, 0xd7, 0xab, 0x76],
     [0xca, 0x82, 0xc9, 0x7d, 0xfa, 0x59, 0x47, 0xf0, 0xad, 0xd4, 0xa2, 0xaf, 0x9c, 0xa4, 0x72, 0xc0],
     [0xb7, 0xfd, 0x93, 0x26, 0x36, 0x3f, 0xf7, 0xcc, 0x34, 0xa5, 0xe5, 0xf1, 0x71, 0xd8, 0x31, 0x15],
     [0x04, 0xc7, 0x23, 0xc3, 0x18, 0x96, 0x05, 0x9a, 0x07, 0x12, 0x80, 0xe2, 0xeb, 0x27, 0xb2, 0x75],
     [0x09, 0x83, 0x2c, 0x1a, 0x1b, 0x6e, 0x5a, 0xa0, 0x52, 0x3b, 0xd6, 0xb3, 0x29, 0xe3, 0x2f, 0x84],
     [0x53, 0xd1, 0x00, 0xed, 0x20, 0xfc, 0xb1, 0x5b, 0x6a, 0xcb, 0xbe, 0x39, 0x4a, 0x4c, 0x58, 0xcf],
     [0xd0, 0xef, 0xaa, 0xfb, 0x43, 0x4d, 0x33, 0x85, 0x45, 0xf9, 0x02, 0x7f, 0x50, 0x3c, 0x9f, 0xa8],
     [0x51, 0xa3, 0x40, 0x8f, 0x92, 0x9d, 0x38, 0xf5, 0xbc, 0xb6, 0xda, 0x21, 0x10, 0xff, 0xf3, 0xd2],
     [0xcd, 0x0c, 0x13, 0xec, 0x5f, 0x97, 0x44, 0x17, 0xc4, 0xa7, 0x7e, 0x3d, 0x64, 0x5d, 0x19, 0x73],
     [0x60, 0x81, 0x4f, 0xdc, 0x22, 0x2a, 0x90, 0x88, 0x46, 0xee, 0xb8, 0x14, 0xde, 0x5e, 0x0b, 0xdb],
     [0xe0, 0x32, 0x3a, 0x0a, 0x49, 0x06, 0x24, 0x5c, 0xc2, 0xd3, 0xac, 0x62, 0x91, 0x95, 0xe4, 0x79],
     [0xe7, 0xc8, 0x37, 0x6d, 0x8d, 0xd5, 0x4e, 0xa9, 0x6c, 0x56, 0xf4, 0xea, 0x65, 0x7a, 0xae, 0x08],
     [0xba, 0x78, 0x25, 0x2e, 0x1c, 0xa6, 0xb4, 0xc6, 0xe8, 0xdd, 0x74, 0x1f, 0x4b, 0xbd, 0x8b, 0x8a],
     [0x70, 0x3e, 0xb5, 0x66, 0x48, 0x03, 0xf6, 0x0e, 0x61, 0x35, 0x57, 0xb9, 0x86, 0xc1, 0x1d, 0x9e],
     [0xe1, 0xf8, 0x98, 0x11, 0x69, 0xd9, 0x8e, 0x94, 0x9b, 0x1e, 0x87, 0xe9, 0xce, 0x55, 0x28, 0xdf],
     [0x8c, 0xa1, 0x89, 0x0d, 0xbf, 0xe6, 0x42, 0x68, 0x41, 0x99, 0x2d, 0x0f, 0xb0, 0x54, 0xbb, 0x16]]"

definition aes_inv_sbox :: "u8 list" where
  "aes_inv_sbox = concat
    [[0x52, 0x09, 0x6a, 0xd5, 0x30, 0x36, 0xa5, 0x38, 0xbf, 0x40, 0xa3, 0x9e, 0x81, 0xf3, 0xd7, 0xfb],
     [0x7c, 0xe3, 0x39, 0x82, 0x9b, 0x2f, 0xff, 0x87, 0x34, 0x8e, 0x43, 0x44, 0xc4, 0xde, 0xe9, 0xcb],
     [0x54, 0x7b, 0x94, 0x32, 0xa6, 0xc2, 0x23, 0x3d, 0xee, 0x4c, 0x95, 0x0b, 0x42, 0xfa, 0xc3, 0x4e],
     [0x08, 0x2e, 0xa1, 0x66, 0x28, 0xd9, 0x24, 0xb2, 0x76, 0x5b, 0xa2, 0x49, 0x6d, 0x8b, 0xd1, 0x25],
     [0x72, 0xf8, 0xf6, 0x64, 0x86, 0x68, 0x98, 0x16, 0xd4, 0xa4, 0x5c, 0xcc, 0x5d, 0x65, 0xb6, 0x92],
     [0x6c, 0x70, 0x48, 0x50, 0xfd, 0xed, 0xb9, 0xda, 0x5e, 0x15, 0x46, 0x57, 0xa7, 0x8d, 0x9d, 0x84],
     [0x90, 0xd8, 0xab, 0x00, 0x8c, 0xbc, 0xd3, 0x0a, 0xf7, 0xe4, 0x58, 0x05, 0xb8, 0xb3, 0x45, 0x06],
     [0xd0, 0x2c, 0x1e, 0x8f, 0xca, 0x3f, 0x0f, 0x02, 0xc1, 0xaf, 0xbd, 0x03, 0x01, 0x13, 0x8a, 0x6b],
     [0x3a, 0x91, 0x11, 0x41, 0x4f, 0x67, 0xdc, 0xea, 0x97, 0xf2, 0xcf, 0xce, 0xf0, 0xb4, 0xe6, 0x73],
     [0x96, 0xac, 0x74, 0x22, 0xe7, 0xad, 0x35, 0x85, 0xe2, 0xf9, 0x37, 0xe8, 0x1c, 0x75, 0xdf, 0x6e],
     [0x47, 0xf1, 0x1a, 0x71, 0x1d, 0x29, 0xc5, 0x89, 0x6f, 0xb7, 0x62, 0x0e, 0xaa, 0x18, 0xbe, 0x1b],
     [0xfc, 0x56, 0x3e, 0x4b, 0xc6, 0xd2, 0x79, 0x20, 0x9a, 0xdb, 0xc0, 0xfe, 0x78, 0xcd, 0x5a, 0xf4],
     [0x1f, 0xdd, 0xa8, 0x33, 0x88, 0x07, 0xc7, 0x31, 0xb1, 0x12, 0x10, 0x59, 0x27, 0x80, 0xec, 0x5f],
     [0x60, 0x51, 0x7f, 0xa9, 0x19, 0xb5, 0x4a, 0x0d, 0x2d, 0xe5, 0x7a, 0x9f, 0x93, 0xc9, 0x9c, 0xef],
     [0xa0, 0xe0, 0x3b, 0x4d, 0xae, 0x2a, 0xf5, 0xb0, 0xc8, 0xeb, 0xbb, 0x3c, 0x83, 0x53, 0x99, 0x61],
     [0x17, 0x2b, 0x04, 0x7e, 0xba, 0x77, 0xd6, 0x26, 0xe1, 0x69, 0x14, 0x63, 0x55, 0x21, 0x0c, 0x7d]]"

definition aes_rcon :: "u8 list" where
  "aes_rcon = [0x00, 0x01, 0x02, 0x04, 0x08, 0x10, 0x20, 0x40, 0x80, 0x1b, 0x36]"

section \<open>Key expansion\<close>

definition aes_sub_word :: "u32 \<Rightarrow> u32" where
  "aes_sub_word w =
     be32 (aes_sbox ! unat (byte_at 24 w)) (aes_sbox ! unat (byte_at 16 w))
          (aes_sbox ! unat (byte_at 8 w)) (aes_sbox ! unat (byte_at 0 w))"

definition aes_rot_word :: "u32 \<Rightarrow> u32" where
  "aes_rot_word w = push_bit 8 w OR drop_bit 24 w"

text \<open>The first loop copies the key, the second derives word \<open>i\<close> from the words before it.\<close>

fun aes_copy_key :: "u8 list \<Rightarrow> nat list \<Rightarrow> u32 list \<Rightarrow> u32 list cmem" where
  "aes_copy_key key [] rk = Some rk"
| "aes_copy_key key (i # is) rk = do {
     a \<leftarrow> peek key (i * 4); b \<leftarrow> peek key (i * 4 + 1); c \<leftarrow> peek key (i * 4 + 2); d \<leftarrow> peek key (i * 4 + 3);
     rk' \<leftarrow> poke rk i (be32 a b c d);
     aes_copy_key key is rk'
   }"

definition aes_temp_word :: "nat \<Rightarrow> nat \<Rightarrow> u32 \<Rightarrow> u32 cmem" where
  "aes_temp_word key_words i temp =
     (if key_words = 0 then None
      else if i mod key_words = 0 then do {
        r \<leftarrow> peek aes_rcon (i div key_words);
        Some (aes_sub_word (aes_rot_word temp) XOR push_bit 24 (ucast r))
      }
      else if 6 < key_words \<and> i mod key_words = 4 then Some (aes_sub_word temp)
      else Some temp)"

fun aes_expand_key :: "nat \<Rightarrow> nat list \<Rightarrow> u32 list \<Rightarrow> u32 list cmem" where
  "aes_expand_key key_words [] rk = Some rk"
| "aes_expand_key key_words (i # is) rk = (if i = 0 then None else do {
     t0 \<leftarrow> peek rk (i - 1);
     temp \<leftarrow> aes_temp_word key_words i t0;
     old \<leftarrow> peek rk (i - key_words);
     rk' \<leftarrow> poke rk i (old XOR temp);
     aes_expand_key key_words is rk'
   })"

definition aes_rounds :: "u32 \<Rightarrow> u32" where
  "aes_rounds key_bits = (if key_bits = 128 then 10 else if key_bits = 192 then 12 else 14)"

definition aes_key_expansion :: "u8 list \<Rightarrow> u32 \<Rightarrow> u32 list \<Rightarrow> (u32 \<times> u32 list) cmem" where
  "aes_key_expansion key key_bits round_keys = do {
     let key_words = unat (key_bits div 32);
     let rounds = aes_rounds key_bits;
     let total_words = unat (4 * (rounds + 1));
     rk \<leftarrow> aes_copy_key key [0..<key_words] round_keys;
     rk' \<leftarrow> aes_expand_key key_words [key_words..<total_words] rk;
     Some (rounds, rk')
   }"

section \<open>Round transformations\<close>

text \<open>The round key starts at word \<open>off\<close> of the schedule.\<close>

definition aes_add_round_key :: "u8 list \<Rightarrow> u32 list \<Rightarrow> u32 \<Rightarrow> u8 list cmem" where
  "aes_add_round_key st rk off =
     (if unat off + 4 \<le> length rk
      then Some (xor_bytes st (concat (map be32_bytes (take 4 (drop (unat off) rk))))) else None)"

definition aes_sub_bytes :: "u8 list \<Rightarrow> u8 list" where
  "aes_sub_bytes st = map (\<lambda>b. aes_sbox ! unat b) st"

definition aes_inv_sub_bytes :: "u8 list \<Rightarrow> u8 list" where
  "aes_inv_sub_bytes st = map (\<lambda>b. aes_inv_sbox ! unat b) st"

definition aes_shift_rows :: "u8 list \<Rightarrow> u8 list" where
  "aes_shift_rows s0 = (
     let t = s0 ! 1; s = s0[1 := s0 ! 5]; s = s[5 := s ! 9]; s = s[9 := s ! 13]; s = s[13 := t];
         t = s ! 2; s = s[2 := s ! 10]; s = s[10 := t];
         t = s ! 6; s = s[6 := s ! 14]; s = s[14 := t];
         t = s ! 3; s = s[3 := s ! 15]; s = s[15 := s ! 11]; s = s[11 := s ! 7]; s = s[7 := t]
     in s)"

definition aes_inv_shift_rows :: "u8 list \<Rightarrow> u8 list" where
  "aes_inv_shift_rows s0 = (
     let t = s0 ! 13; s = s0[13 := s0 ! 9]; s = s[9 := s ! 5]; s = s[5 := s ! 1]; s = s[1 := t];
         t = s ! 2; s = s[2 := s ! 10]; s = s[10 := t];
         t = s ! 6; s = s[6 := s ! 14]; s = s[14 := t];
         t = s ! 3; s = s[3 := s ! 7]; s = s[7 := s ! 11]; s = s[11 := s ! 15]; s = s[15 := t]
     in s)"

fun aes_gf_loop :: "nat \<Rightarrow> u8 \<Rightarrow> u8 \<Rightarrow> u8 \<Rightarrow> u8" where
  "aes_gf_loop 0 a b result = result"
| "aes_gf_loop (Suc n) a b result =
     aes_gf_loop n
       (if a AND 0x80 \<noteq> 0 then push_bit 1 a XOR 0x1b else push_bit 1 a)
       (drop_bit 1 b)
       (if b AND 1 \<noteq> 0 then result XOR a else result)"

definition aes_gf_mult :: "u8 \<Rightarrow> u8 \<Rightarrow> u8" where
  "aes_gf_mult a b = aes_gf_loop 8 a b 0"

fun aes_mix_column :: "u8 list \<Rightarrow> u8 list" where
  "aes_mix_column [s0, s1, s2, s3] =
     [aes_gf_mult 0x02 s0 XOR aes_gf_mult 0x03 s1 XOR s2 XOR s3,
      s0 XOR aes_gf_mult 0x02 s1 XOR aes_gf_mult 0x03 s2 XOR s3,
      s0 XOR s1 XOR aes_gf_mult 0x02 s2 XOR aes_gf_mult 0x03 s3,
      aes_gf_mult 0x03 s0 XOR s1 XOR s2 XOR aes_gf_mult 0x02 s3]"
| "aes_mix_column c = c"

fun aes_inv_mix_column :: "u8 list \<Rightarrow> u8 list" where
  "aes_inv_mix_column [s0, s1, s2, s3] =
     [aes_gf_mult 0x0e s0 XOR aes_gf_mult 0x0b s1 XOR aes_gf_mult 0x0d s2 XOR aes_gf_mult 0x09 s3,
      aes_gf_mult 0x09 s0 XOR aes_gf_mult 0x0e s1 XOR aes_gf_mult 0x0b s2 XOR aes_gf_mult 0x0d s3,
      aes_gf_mult 0x0d s0 XOR aes_gf_mult 0x09 s1 XOR aes_gf_mult 0x0e s2 XOR aes_gf_mult 0x0b s3,
      aes_gf_mult 0x0b s0 XOR aes_gf_mult 0x0d s1 XOR aes_gf_mult 0x09 s2 XOR aes_gf_mult 0x0e s3]"
| "aes_inv_mix_column c = c"

text \<open>The state holds its four columns one after the other.\<close>

definition aes_mix_columns :: "u8 list \<Rightarrow> u8 list" where
  "aes_mix_columns st = concat (map (\<lambda>c. aes_mix_column (take 4 (drop (c * 4) st))) [0..<4])"

definition aes_inv_mix_columns :: "u8 list \<Rightarrow> u8 list" where
  "aes_inv_mix_columns st = concat (map (\<lambda>c. aes_inv_mix_column (take 4 (drop (c * 4) st))) [0..<4])"

section \<open>The block cipher\<close>

fun aes_enc_rounds :: "u32 list \<Rightarrow> nat list \<Rightarrow> u8 list \<Rightarrow> u8 list cmem" where
  "aes_enc_rounds rk [] st = Some st"
| "aes_enc_rounds rk (r # rs) st =
     (case aes_add_round_key (aes_mix_columns (aes_shift_rows (aes_sub_bytes st))) rk (of_nat r * 4) of
        None \<Rightarrow> None
      | Some st' \<Rightarrow> aes_enc_rounds rk rs st')"

definition aes_encrypt_block_ex ::
  "u32 list \<Rightarrow> u32 \<Rightarrow> u8 list \<Rightarrow> nat \<Rightarrow> u8 list \<Rightarrow> nat \<Rightarrow> u8 list cmem" where
  "aes_encrypt_block_ex round_keys rounds plaintext po ciphertext co = do {
     s0 \<leftarrow> memcpy (replicate 16 0) 0 plaintext po 16;
     s1 \<leftarrow> aes_add_round_key s0 round_keys 0;
     s2 \<leftarrow> aes_enc_rounds round_keys [1..<unat rounds] s1;
     s3 \<leftarrow> aes_add_round_key (aes_shift_rows (aes_sub_bytes s2)) round_keys (rounds * 4);
     memcpy ciphertext co s3 0 16
   }"

fun aes_dec_rounds :: "u32 list \<Rightarrow> nat \<Rightarrow> u8 list \<Rightarrow> u8 list cmem" where
  "aes_dec_rounds rk 0 st = Some st"
| "aes_dec_rounds rk (Suc r) st =
     (case aes_add_round_key (aes_inv_sub_bytes (aes_inv_shift_rows st)) rk (of_nat (Suc r) * 4) of
        None \<Rightarrow> None
      | Some st' \<Rightarrow> aes_dec_rounds rk r (aes_inv_mix_columns st'))"

definition aes_decrypt_block_ex ::
  "u32 list \<Rightarrow> u32 \<Rightarrow> u8 list \<Rightarrow> nat \<Rightarrow> u8 list \<Rightarrow> nat \<Rightarrow> u8 list cmem" where
  "aes_decrypt_block_ex round_keys rounds ciphertext co plaintext po = do {
     s0 \<leftarrow> memcpy (replicate 16 0) 0 ciphertext co 16;
     s1 \<leftarrow> aes_add_round_key s0 round_keys (rounds * 4);
     s2 \<leftarrow> aes_dec_rounds round_keys (unat (rounds - 1)) s1;
     s3 \<leftarrow> aes_add_round_key (aes_inv_sub_bytes (aes_inv_shift_rows s2)) round_keys 0;
     memcpy plaintext po s3 0 16
   }"

record crypto_aes_ctx =
  key_schedule :: "u32 list"
  rounds :: u32

definition crypto_aes_init ::
  "crypto_aes_ctx ptr \<Rightarrow> u8 list ptr \<Rightarrow> u32 \<Rightarrow> (crypto_status \<times> crypto_aes_ctx ptr) cmem" where
  "crypto_aes_init ctx key key_bits =
     (case (ctx, key) of
        (Some c, Some k) \<Rightarrow>
          if key_bits \<noteq> 128 \<and> key_bits \<noteq> 192 \<and> key_bits \<noteq> 256
          then Some (CRYPTO_ERROR_INVALID_PARAM, ctx)
          else do {
            (r, ks) \<leftarrow> aes_key_expansion k key_bits (key_schedule c);
            Some (CRYPTO_SUCCESS, Some (c\<lparr>key_schedule := ks, rounds := r\<rparr>))
          }
      | _ \<Rightarrow> Some (CRYPTO_ERROR_INVALID_PARAM, ctx))"

definition crypto_aes_encrypt_block ::
  "crypto_aes_ctx \<Rightarrow> u8 list \<Rightarrow> nat \<Rightarrow> u8 list \<Rightarrow> nat \<Rightarrow> u8 list cmem" where
  "crypto_aes_encrypt_block ctx = aes_encrypt_block_ex (key_schedule ctx) (rounds ctx)"

definition crypto_aes_decrypt_block ::
  "crypto_aes_ctx \<Rightarrow> u8 list \<Rightarrow> nat \<Rightarrow> u8 list \<Rightarrow> nat \<Rightarrow> u8 list cmem" where
  "crypto_aes_decrypt_block ctx = aes_decrypt_block_ex (key_schedule ctx) (rounds ctx)"


section \<open>CBC mode\<close>

text \<open>
  The loops of the modes have the form \<^verbatim>\<open>for (uint32_t i = 0; i < len; i += 16)\<close>. The counter
  wraps when \<open>len\<close> is above \<open>2 ^ 32 - 16\<close> and no multiple of 16, and then the loop never ends.
\<close>

partial_function (option) for16 :: "(u32 \<Rightarrow> 's \<Rightarrow> 's cmem) \<Rightarrow> u32 \<Rightarrow> u32 \<Rightarrow> 's \<Rightarrow> 's cmem" where
  "for16 body i len st =
     (if i < len then Option.bind (body i st) (for16 body (i + 16) len) else Some st)"

definition cbc_encrypt_step ::
  "crypto_aes_ctx \<Rightarrow> u8 list \<Rightarrow> u32 \<Rightarrow> u8 list \<times> u8 list \<Rightarrow> (u8 list \<times> u8 list) cmem" where
  "cbc_encrypt_step ctx plaintext i = (\<lambda>(prev_block, ciphertext).
     if unat i + 16 \<le> length plaintext then do {
       let temp_block = xor_bytes (take 16 (drop (unat i) plaintext)) prev_block;
       ct \<leftarrow> crypto_aes_encrypt_block ctx temp_block 0 ciphertext (unat i);
       prev \<leftarrow> memcpy prev_block 0 ct (unat i) 16;
       Some (prev, ct)
     } else None)"

definition crypto_aes_cbc_encrypt ::
  "crypto_aes_ctx ptr \<Rightarrow> u8 list ptr \<Rightarrow> u8 list ptr \<Rightarrow> u32 \<Rightarrow> u8 list ptr \<Rightarrow>
   (crypto_status \<times> u8 list ptr) cmem" where
  "crypto_aes_cbc_encrypt ctx iv plaintext len ciphertext =
     (case (ctx, iv, plaintext, ciphertext) of
        (Some c, Some v, Some pt, Some ct) \<Rightarrow>
          if len mod 16 \<noteq> 0 then Some (CRYPTO_ERROR_INVALID_PARAM, ciphertext)
          else do {
            prev_block \<leftarrow> memcpy (replicate 16 0) 0 v 0 16;
            (_, ct') \<leftarrow> for16 (cbc_encrypt_step c pt) 0 len (prev_block, ct);
            Some (CRYPTO_SUCCESS, Some ct')
          }
      | _ \<Rightarrow> Some (CRYPTO_ERROR_INVALID_PARAM, ciphertext))"

definition cbc_decrypt_step ::
  "crypto_aes_ctx \<Rightarrow> u8 list \<Rightarrow> u32 \<Rightarrow> u8 list \<times> u8 list \<Rightarrow> (u8 list \<times> u8 list) cmem" where
  "cbc_decrypt_step ctx ciphertext i = (\<lambda>(prev_block, plaintext). do {
     temp_block \<leftarrow> crypto_aes_decrypt_block ctx ciphertext (unat i) (replicate 16 0) 0;
     pt \<leftarrow> memcpy plaintext (unat i) (xor_bytes temp_block prev_block) 0 16;
     prev \<leftarrow> memcpy prev_block 0 ciphertext (unat i) 16;
     Some (prev, pt)
   })"

definition crypto_aes_cbc_decrypt ::
  "crypto_aes_ctx ptr \<Rightarrow> u8 list ptr \<Rightarrow> u8 list ptr \<Rightarrow> u32 \<Rightarrow> u8 list ptr \<Rightarrow>
   (crypto_status \<times> u8 list ptr) cmem" where
  "crypto_aes_cbc_decrypt ctx iv ciphertext len plaintext =
     (case (ctx, iv, ciphertext, plaintext) of
        (Some c, Some v, Some ct, Some pt) \<Rightarrow>
          if len mod 16 \<noteq> 0 then Some (CRYPTO_ERROR_INVALID_PARAM, plaintext)
          else do {
            prev_block \<leftarrow> memcpy (replicate 16 0) 0 v 0 16;
            (_, pt') \<leftarrow> for16 (cbc_decrypt_step c ct) 0 len (prev_block, pt);
            Some (CRYPTO_SUCCESS, Some pt')
          }
      | _ \<Rightarrow> Some (CRYPTO_ERROR_INVALID_PARAM, plaintext))"

text \<open>The legacy routine of the same file is no cipher: it adds the key to the block.\<close>

definition aes_encrypt_block :: "u8 list \<Rightarrow> u8 list \<Rightarrow> u8 list \<Rightarrow> u8 list cmem" where
  "aes_encrypt_block inp out key =
     (if 16 \<le> length inp \<and> 16 \<le> length key
      then memcpy out 0 (xor_bytes (take 16 inp) (take 16 key)) 0 16 else None)"

section \<open>The round transformations invert each other\<close>

lemma length_aes_sbox [simp]: "length aes_sbox = 256" and length_aes_inv_sbox [simp]: "length aes_inv_sbox = 256"
  by (simp_all add: aes_sbox_def aes_inv_sbox_def)

lemma aes_inv_sbox_table: "map (\<lambda>b. aes_inv_sbox ! unat b) aes_sbox = map of_nat [0..<256]"
  by code_simp

lemma unat_u8_bound [simp]: "unat (b :: u8) < 256"
  using unsigned_less [of b] by simp

lemma aes_inv_sbox_sbox [simp]: "aes_inv_sbox ! unat (aes_sbox ! unat b) = b"
proof -
  have "map (\<lambda>b. aes_inv_sbox ! unat b) aes_sbox ! unat b = map of_nat [0..<256] ! unat b"
    by (simp only: aes_inv_sbox_table)
  then show ?thesis by simp
qed

lemma aes_inv_sub_bytes_sub_bytes [simp]: "aes_inv_sub_bytes (aes_sub_bytes st) = st"
  by (simp add: aes_inv_sub_bytes_def aes_sub_bytes_def comp_def)

lemma list16E:
  assumes "length st = 16"
  obtains a0 a1 a2 a3 a4 a5 a6 a7 a8 a9 a10 a11 a12 a13 a14 a15
  where "st = [a0, a1, a2, a3, a4, a5, a6, a7, a8, a9, a10, a11, a12, a13, a14, a15]"
  using assms by (auto simp: numeral_eq_Suc length_Suc_conv)

lemma aes_inv_shift_rows_shift_rows [simp]:
  "length st = 16 \<Longrightarrow> aes_inv_shift_rows (aes_shift_rows st) = st"
  by (erule list16E) (simp add: aes_shift_rows_def aes_inv_shift_rows_def Let_def)

text \<open>Multiplication is linear in its second argument.\<close>

lemma aes_gf_loop_xor:
  "aes_gf_loop n a (b XOR c) (r XOR s) = aes_gf_loop n a b r XOR aes_gf_loop n a c s"
proof (induction n arbitrary: a b c r s)
  case (Suc n)
  have bit: "(x AND 1 \<noteq> 0) = odd x" for x :: u8 by (simp add: and_one_eq odd_iff_mod_2_eq_one)
  have res: "(if (b XOR c) AND 1 \<noteq> 0 then (r XOR s) XOR a else r XOR s) =
      (if b AND 1 \<noteq> 0 then r XOR a else r) XOR (if c AND 1 \<noteq> 0 then s XOR a else s)"
    unfolding bit by (cases "odd b"; cases "odd c") (simp_all add: even_xor_iff ac_simps)
  show ?case unfolding aes_gf_loop.simps res drop_bit_xor by (rule Suc.IH)
qed simp

lemma aes_gf_mult_xor: "aes_gf_mult a (b XOR c) = aes_gf_mult a b XOR aes_gf_mult a c"
  using aes_gf_loop_xor [of 8 a b c 0 0] by (simp add: aes_gf_mult_def)

text \<open>The product of the two circulant matrices is the identity, column entry by column entry.\<close>

definition aes_mix_entry :: "u8 \<Rightarrow> u8 \<Rightarrow> u8 \<Rightarrow> u8 \<Rightarrow> u8 \<Rightarrow> u8" where
  "aes_mix_entry p q r t x =
     aes_gf_mult p (aes_gf_mult 2 x) XOR aes_gf_mult q x XOR aes_gf_mult r x XOR aes_gf_mult t (aes_gf_mult 3 x)"

lemma take_bit_Suc_xor: "take_bit (Suc n) x = (if bit x n then push_bit n 1 else 0) XOR take_bit n (x :: u8)"
  by (rule bit_eqI) (auto simp: bit_simps less_Suc_eq)

lemma u8_linear_zero:
  fixes f :: "u8 \<Rightarrow> u8"
  assumes add: "\<And>x y. f (x XOR y) = f x XOR f y" and basis: "\<forall>i<8. f (push_bit i 1) = 0"
  shows "f x = 0"
proof -
  have z: "f 0 = 0" using add [of 0 0] by simp
  have "n \<le> 8 \<Longrightarrow> f (take_bit n x) = 0" for n
  proof (induction n)
    case (Suc n)
    then show ?case using z basis unfolding take_bit_Suc_xor add by auto
  qed (simp add: z)
  from this [of 8] show ?thesis by (simp add: take_bit_word_eq_self)
qed

lemma aes_mix_entry_xor: "aes_mix_entry p q r t (x XOR y) = aes_mix_entry p q r t x XOR aes_mix_entry p q r t y"
  by (simp only: aes_mix_entry_def aes_gf_mult_xor ac_simps)

lemma all_less_8: "(\<forall>i<8. P i) \<longleftrightarrow> P 0 \<and> P 1 \<and> P 2 \<and> P 3 \<and> P 4 \<and> P 5 \<and> P 6 \<and> P (7 :: nat)"
  by (simp add: numeral_eq_Suc All_less_Suc conj_ac)

lemma aes_mix_entry_0: "aes_mix_entry 0x0e 0x0b 0x0d 0x09 x = x"
proof -
  have "aes_mix_entry 0x0e 0x0b 0x0d 0x09 x XOR x = 0"
    by (rule u8_linear_zero [where f = "\<lambda>x. aes_mix_entry 0x0e 0x0b 0x0d 0x09 x XOR x"])
      (simp_all only: aes_mix_entry_xor ac_simps all_less_8, code_simp)
  then show ?thesis by (metis word_xor_cancel xor.left_neutral)
qed

lemma aes_mix_entry_1: "aes_mix_entry 0x0b 0x0d 0x09 0x0e x = 0"
  by (rule u8_linear_zero [OF aes_mix_entry_xor]) (simp only: all_less_8, code_simp)

lemma aes_mix_entry_2: "aes_mix_entry 0x0d 0x09 0x0e 0x0b x = 0"
  by (rule u8_linear_zero [OF aes_mix_entry_xor]) (simp only: all_less_8, code_simp)

lemma aes_mix_entry_3: "aes_mix_entry 0x09 0x0e 0x0b 0x0d x = 0"
  by (rule u8_linear_zero [OF aes_mix_entry_xor]) (simp only: all_less_8, code_simp)

lemma aes_mix_row:
  "aes_gf_mult 0x0e (aes_gf_mult 0x02 a XOR aes_gf_mult 0x03 b XOR c XOR d) XOR
   aes_gf_mult 0x0b (a XOR aes_gf_mult 0x02 b XOR aes_gf_mult 0x03 c XOR d) XOR
   aes_gf_mult 0x0d (a XOR b XOR aes_gf_mult 0x02 c XOR aes_gf_mult 0x03 d) XOR
   aes_gf_mult 0x09 (aes_gf_mult 0x03 a XOR b XOR c XOR aes_gf_mult 0x02 d) = a"
  (is "?L = _")
proof -
  have "?L = aes_mix_entry 0x0e 0x0b 0x0d 0x09 a XOR aes_mix_entry 0x0b 0x0d 0x09 0x0e b XOR
             aes_mix_entry 0x0d 0x09 0x0e 0x0b c XOR aes_mix_entry 0x09 0x0e 0x0b 0x0d d"
    by (simp only: aes_mix_entry_def aes_gf_mult_xor ac_simps)
  then show ?thesis by (simp add: aes_mix_entry_0 aes_mix_entry_1 aes_mix_entry_2 aes_mix_entry_3)
qed

lemma aes_inv_mix_column_mix_column: "aes_inv_mix_column (aes_mix_column [a, b, c, d]) = [a, b, c, d]"
  using aes_mix_row [of a b c d] aes_mix_row [of b c d a] aes_mix_row [of c d a b] aes_mix_row [of d a b c]
  by (simp add: ac_simps)

lemma length_aes_mix_column [simp]: "length (aes_mix_column c) = length c"
  by (cases c rule: aes_mix_column.cases) simp_all

lemma length_aes_mix_columns [simp]: "length st = 16 \<Longrightarrow> length (aes_mix_columns st) = 16"
  by (simp add: aes_mix_columns_def upt_rec)

lemma aes_inv_mix_columns_mix_columns [simp]:
  "length st = 16 \<Longrightarrow> aes_inv_mix_columns (aes_mix_columns st) = st"
  by (erule list16E)
    (simp add: aes_mix_columns_def aes_inv_mix_columns_def upt_rec aes_inv_mix_column_mix_column
          del: aes_mix_column.simps aes_inv_mix_column.simps)

lemma length_aes_sub_bytes [simp]: "length (aes_sub_bytes st) = length st"
  by (simp add: aes_sub_bytes_def)

lemma length_aes_shift_rows [simp]: "length (aes_shift_rows st) = length st"
  by (simp add: aes_shift_rows_def Let_def)

section \<open>Decryption inverts encryption\<close>

text \<open>The round key of round \<open>r\<close> as sixteen bytes, and the cipher on blocks alone.\<close>

definition aes_rk :: "u32 list \<Rightarrow> nat \<Rightarrow> u8 list" where
  "aes_rk ks r = take 16 (concat (map be32_bytes (take 4 (drop (4 * r) ks))) @ replicate 16 0)"

fun aes_E_rounds :: "u32 list \<Rightarrow> nat \<Rightarrow> u8 list \<Rightarrow> u8 list" where
  "aes_E_rounds ks 0 st = st"
| "aes_E_rounds ks (Suc r) st =
     xor_bytes (aes_mix_columns (aes_shift_rows (aes_sub_bytes (aes_E_rounds ks r st)))) (aes_rk ks (Suc r))"

definition aes_E :: "crypto_aes_ctx \<Rightarrow> u8 list \<Rightarrow> u8 list" where
  "aes_E c b = (let R = unat (rounds c); ks = key_schedule c in
     xor_bytes (aes_shift_rows (aes_sub_bytes (aes_E_rounds ks (R - 1) (xor_bytes b (aes_rk ks 0)))))
       (aes_rk ks R))"

fun aes_D_rounds :: "u32 list \<Rightarrow> nat \<Rightarrow> u8 list \<Rightarrow> u8 list" where
  "aes_D_rounds ks 0 st = st"
| "aes_D_rounds ks (Suc r) st =
     aes_D_rounds ks r (aes_inv_mix_columns
       (xor_bytes (aes_inv_sub_bytes (aes_inv_shift_rows st)) (aes_rk ks (Suc r))))"

definition aes_D :: "crypto_aes_ctx \<Rightarrow> u8 list \<Rightarrow> u8 list" where
  "aes_D c b = (let R = unat (rounds c); ks = key_schedule c in
     xor_bytes (aes_inv_sub_bytes (aes_inv_shift_rows
       (aes_D_rounds ks (R - 1) (xor_bytes b (aes_rk ks R))))) (aes_rk ks 0))"

lemma length_aes_rk [simp]: "length (aes_rk ks r) = 16"
  by (simp add: aes_rk_def)

lemma length_aes_E_rounds [simp]: "length st = 16 \<Longrightarrow> length (aes_E_rounds ks r st) = 16"
  by (induction r) simp_all

lemma aes_D_rounds_E_rounds:
  "length st = 16 \<Longrightarrow>
   aes_D_rounds ks r (aes_shift_rows (aes_sub_bytes (aes_E_rounds ks r st))) =
     aes_shift_rows (aes_sub_bytes st)"
  by (induction r) (simp_all add: xor_bytes_cancel)

lemma aes_D_E: "length b = 16 \<Longrightarrow> aes_D c (aes_E c b) = b"
  by (simp add: aes_D_def aes_E_def Let_def xor_bytes_cancel aes_D_rounds_E_rounds)

lemma length_aes_E: "length b = 16 \<Longrightarrow> length (aes_E c b) = 16"
  by (simp add: aes_E_def Let_def)

text \<open>The code, run on a context with a complete schedule, computes this cipher.\<close>

definition aes_ctx_ok :: "crypto_aes_ctx \<Rightarrow> bool" where
  "aes_ctx_ok c \<longleftrightarrow> length (key_schedule c) = 60 \<and> 1 \<le> unat (rounds c) \<and> unat (rounds c) \<le> 14"

lemma aes_add_round_key_eq:
  assumes "length ks = 60" "r \<le> 14" "length st = 16"
  shows "aes_add_round_key st ks (of_nat r * 4) = Some (xor_bytes st (aes_rk ks r))"
proof -
  have "unat (of_nat r * 4 :: u32) = 4 * r" using assms(2) by (simp add: unat_word_ariths unat_of_nat)
  moreover have "length (concat (map be32_bytes (take 4 (drop (4 * r) ks)))) = 16"
    using assms by (simp add: length_concat comp_def sum_list_triv)
  ultimately show ?thesis using assms by (simp add: aes_add_round_key_def aes_rk_def)
qed

lemma aes_enc_rounds_append:
  "aes_enc_rounds ks (xs @ ys) st = Option.bind (aes_enc_rounds ks xs st) (aes_enc_rounds ks ys)"
  by (induction xs arbitrary: st) (auto split: option.splits)

lemma aes_enc_rounds_eq:
  assumes "length ks = 60" "length st = 16"
  shows "n \<le> 14 \<Longrightarrow> aes_enc_rounds ks [1..<Suc n] st = Some (aes_E_rounds ks n st)"
proof (induction n)
  case (Suc n)
  have "[1..<Suc (Suc n)] = [1..<Suc n] @ [Suc n]" by simp
  then show ?case
    using Suc aes_add_round_key_eq [OF assms(1), of "Suc n"] assms
    by (simp add: aes_enc_rounds_append del: upt_Suc of_nat_Suc)
qed simp

lemma length_aes_inv [simp]:
  "length (aes_inv_sub_bytes st) = length st" "length (aes_inv_shift_rows st) = length st"
  by (simp_all add: aes_inv_sub_bytes_def aes_inv_shift_rows_def Let_def)

lemma length_aes_inv_mix_columns [simp]: "length st = 16 \<Longrightarrow> length (aes_inv_mix_columns st) = 16"
  by (erule list16E) (simp add: aes_inv_mix_columns_def upt_rec)

lemma length_aes_D_rounds [simp]: "length st = 16 \<Longrightarrow> length (aes_D_rounds ks r st) = 16"
  by (induction r arbitrary: st) simp_all

lemma length_aes_D: "length b = 16 \<Longrightarrow> length (aes_D c b) = 16"
  by (simp add: aes_D_def Let_def)

lemma aes_dec_rounds_eq:
  assumes "length ks = 60"
  shows "r \<le> 14 \<Longrightarrow> length st = 16 \<Longrightarrow> aes_dec_rounds ks r st = Some (aes_D_rounds ks r st)"
proof (induction r arbitrary: st)
  case (Suc r)
  then show ?case using aes_add_round_key_eq [OF assms] by (simp del: of_nat_Suc)
qed simp

lemma crypto_aes_encrypt_block_eq:
  assumes "aes_ctx_ok c" "po + 16 \<le> length pt"
  shows "crypto_aes_encrypt_block c pt po ct co = memcpy ct co (aes_E c (take 16 (drop po pt))) 0 16"
proof -
  let ?ks = "key_schedule c" and ?b = "take 16 (drop po pt)"
  have l: "length ?ks = 60" "length ?b = 16" and R: "unat (rounds c) = Suc (unat (rounds c) - 1)" "unat (rounds c) \<le> 14"
    using assms by (auto simp: aes_ctx_ok_def)
  have m: "memcpy (replicate 16 0) 0 pt po 16 = Some ?b" using assms(2) by (simp add: memcpy_def)
  have f: "aes_add_round_key st ?ks (rounds c * 4) = Some (xor_bytes st (aes_rk ?ks (unat (rounds c))))"
    if "length st = 16" for st using aes_add_round_key_eq [OF l(1) R(2) that] by simp
  have i: "aes_add_round_key ?b ?ks 0 = Some (xor_bytes ?b (aes_rk ?ks 0))"
    using aes_add_round_key_eq [OF l(1) _ l(2), of 0] by simp
  have r: "aes_enc_rounds ?ks [1..<unat (rounds c)] st = Some (aes_E_rounds ?ks (unat (rounds c) - 1) st)"
    if "length st = 16" for st using aes_enc_rounds_eq [OF l(1) that, of "unat (rounds c) - 1"] R by simp
  show ?thesis using l by (simp add: crypto_aes_encrypt_block_def aes_encrypt_block_ex_def m i r f aes_E_def Let_def del: One_nat_def)
qed

lemma crypto_aes_decrypt_block_eq:
  assumes "aes_ctx_ok c" "co + 16 \<le> length ct"
  shows "crypto_aes_decrypt_block c ct co pt po = memcpy pt po (aes_D c (take 16 (drop co ct))) 0 16"
proof -
  let ?ks = "key_schedule c" and ?b = "take 16 (drop co ct)"
  have l: "length ?ks = 60" "length ?b = 16" and R: "1 \<le> unat (rounds c)" "unat (rounds c) \<le> 14"
    using assms by (auto simp: aes_ctx_ok_def)
  have m: "memcpy (replicate 16 0) 0 ct co 16 = Some ?b" using assms(2) by (simp add: memcpy_def)
  have f: "aes_add_round_key st ?ks (rounds c * 4) = Some (xor_bytes st (aes_rk ?ks (unat (rounds c))))"
    if "length st = 16" for st using aes_add_round_key_eq [OF l(1) R(2) that] by simp
  have i: "aes_add_round_key st ?ks 0 = Some (xor_bytes st (aes_rk ?ks 0))"
    if "length st = 16" for st using aes_add_round_key_eq [OF l(1) _ that, of 0] by simp
  have R1: "unat (rounds c - 1) = unat (rounds c) - 1" using R by (simp add: unat_sub_small)
  have r: "aes_dec_rounds ?ks (unat (rounds c - 1)) st = Some (aes_D_rounds ?ks (unat (rounds c) - 1) st)"
    if "length st = 16" for st using aes_dec_rounds_eq [OF l(1) _ that] R R1 by simp
  show ?thesis using l by (simp add: crypto_aes_decrypt_block_def aes_decrypt_block_ex_def m i r f aes_D_def Let_def)
qed

section \<open>The interface of a block cipher and its CBC mode\<close>

fun cbc_enc :: "(u8 list \<Rightarrow> u8 list) \<Rightarrow> u8 list \<Rightarrow> u8 list list \<Rightarrow> u8 list list" where
  "cbc_enc E prev [] = []"
| "cbc_enc E prev (b # bs) = E (xor_bytes b prev) # cbc_enc E (E (xor_bytes b prev)) bs"

fun cbc_dec :: "(u8 list \<Rightarrow> u8 list) \<Rightarrow> u8 list \<Rightarrow> u8 list list \<Rightarrow> u8 list list" where
  "cbc_dec D prev [] = []"
| "cbc_dec D prev (c # cs) = xor_bytes (D c) prev # cbc_dec D c cs"

locale block_cipher =
  fixes E D :: "u8 list \<Rightarrow> u8 list"
  assumes length_E: "length b = 16 \<Longrightarrow> length (E b) = 16"
    and length_D: "length b = 16 \<Longrightarrow> length (D b) = 16"
    and D_E: "length b = 16 \<Longrightarrow> D (E b) = b"
begin

lemma cbc_enc_lengths:
  "length v = 16 \<Longrightarrow> (\<And>b. b \<in> set bs \<Longrightarrow> length b = 16) \<Longrightarrow> c \<in> set (cbc_enc E v bs) \<Longrightarrow> length c = 16"
proof (induction bs arbitrary: v)
  case (Cons b bs)
  then have "length (E (xor_bytes b v)) = 16" by (simp add: length_E)
  with Cons.IH [OF this] Cons.prems show ?case by auto
qed simp

lemma cbc_dec_lengths:
  "length v = 16 \<Longrightarrow> (\<And>b. b \<in> set cs \<Longrightarrow> length b = 16) \<Longrightarrow> p \<in> set (cbc_dec D v cs) \<Longrightarrow> length p = 16"
  by (induction cs arbitrary: v) (auto simp: length_D)

lemma cbc_roundtrip:
  "length v = 16 \<Longrightarrow> (\<And>b. b \<in> set bs \<Longrightarrow> length b = 16) \<Longrightarrow> cbc_dec D v (cbc_enc E v bs) = bs"
  by (induction bs arbitrary: v) (simp_all add: D_E length_E xor_bytes_cancel)

lemma E_inj: "length a = 16 \<Longrightarrow> length b = 16 \<Longrightarrow> E a = E b \<Longrightarrow> a = b"
  using D_E by metis

end

interpretation aes: block_cipher "aes_E ctx" "aes_D ctx" for ctx
  by unfold_locales (simp_all add: length_aes_E length_aes_D aes_D_E)

lemma length_cbc [simp]: "length (cbc_enc E v bs) = length bs" "length (cbc_dec D v bs) = length bs"
  by (induction bs arbitrary: v) simp_all

lemma cbc_enc_nth:
  "k < length bs \<Longrightarrow> cbc_enc E v bs ! k = E (xor_bytes (bs ! k) (last (v # take k (cbc_enc E v bs))))"
proof (induction bs arbitrary: v k)
  case (Cons b bs)
  then show ?case
    by (cases k) (simp, use Cons.IH [of _ "E (xor_bytes b v)"] in \<open>simp del: last.simps add: last_ConsR\<close>)
qed simp

lemma cbc_dec_nth:
  "k < length cs \<Longrightarrow> cbc_dec D v cs ! k = xor_bytes (D (cs ! k)) (last (v # take k cs))"
proof (induction cs arbitrary: v k)
  case (Cons c cs)
  then show ?case by (cases k) (simp, use Cons.IH [of _ c] in \<open>simp del: last.simps add: last_ConsR\<close>)
qed simp

text \<open>Running the loop: a sequence of states that the body steps through.\<close>

lemma for16_seq:
  fixes len :: u32
  assumes len: "unat len \<le> 2 ^ 32 - 16"
    and step: "\<And>k. 16 * k < unat len \<Longrightarrow> body (of_nat (16 * k)) (s k) = Some (s (Suc k))"
  shows "for16 body 0 len (s 0) = Some (s ((unat len + 15) div 16))"
proof -
  let ?N = "(unat len + 15) div 16"
  have "k \<le> ?N \<Longrightarrow> for16 body (of_nat (16 * k)) len (s k) = Some (s ?N)" for k
  proof (induction "?N - k" arbitrary: k)
    case 0
    then have "unat len \<le> 16 * k" "16 * k < 2 ^ 32" using len by auto
    then have "\<not> of_nat (16 * k) < len" by (simp add: word_less_nat_alt unat_of_nat del: of_nat_mult)
    with 0 show ?case by (simp add: for16.simps)
  next
    case (Suc n)
    then have lt: "16 * k < unat len" by linarith
    then have "of_nat (16 * k) < len" by (simp add: word_less_nat_alt unat_of_nat del: of_nat_mult)
    moreover have "for16 body (of_nat (16 * Suc k)) len (s (Suc k)) = Some (s ?N)"
      using Suc by (intro Suc.hyps(1)) simp_all
    moreover have "of_nat (16 * Suc k) = (of_nat (16 * k) + 16 :: u32)" by simp
    ultimately show ?case using step [OF lt] by (subst for16.simps) (simp del: of_nat_mult mult_Suc_right)
  qed
  from this [of 0] show ?thesis by simp
qed

lemma unat_of_nat_16:
  assumes "16 * k < unat (len :: u32)"
  shows "unat (of_nat (16 * k) :: u32) = 16 * k"
proof -
  have "unat len < 2 ^ 32" by simp
  with assms have "16 * k < 2 ^ 32" by (rule less_trans)
  then show ?thesis by (simp add: unat_of_nat del: of_nat_mult)
qed

definition chunk16 :: "u8 list \<Rightarrow> nat \<Rightarrow> u8 list" where
  "chunk16 xs k = take 16 (drop (16 * k) xs)"

lemma length_chunk16 [simp]: "16 * k + 16 \<le> length xs \<Longrightarrow> length (chunk16 xs k) = 16"
  by (simp add: chunk16_def)

lemma concat_chunk16: "16 * n \<le> length xs \<Longrightarrow> concat (map (chunk16 xs) [0..<n]) = take (16 * n) xs"
  by (induction n) (simp_all add: chunk16_def take_add [symmetric] add.commute)

lemma chunk16_concat:
  assumes "\<And>b. b \<in> set bs \<Longrightarrow> length b = 16" "k < length bs"
  shows "chunk16 (concat bs @ ys) k = bs ! k"
  using assms
proof (induction bs arbitrary: k)
  case (Cons b bs)
  then show ?case by (cases k) (simp_all add: chunk16_def)
qed simp

lemma length_concat16: "(\<And>b. b \<in> set bs \<Longrightarrow> length b = 16) \<Longrightarrow> length (concat bs) = 16 * length bs"
  by (induction bs) simp_all

text \<open>Writing block \<open>k\<close> of \<open>cs\<close> behind the blocks written so far.\<close>

lemma memcpy_next_block:
  assumes "\<And>b. b \<in> set cs \<Longrightarrow> length b = 16" "k < length cs" "16 * k + 16 \<le> length out" "b = cs ! k"
  shows "memcpy (concat (take k cs) @ drop (16 * k) out) (16 * k) b 0 16 =
     Some (concat (take (Suc k) cs) @ drop (16 * Suc k) out)"
proof -
  have "length (concat (take k cs)) = 16 * k" using assms length_concat16 [of "take k cs"]
    by (auto dest: in_set_takeD)
  moreover have "length (cs ! k) = 16" using assms by simp
  ultimately show ?thesis using assms by (simp add: memcpy_def take_Suc_conv_app_nth ac_simps)
qed

lemma length_last_chain:
  assumes "length v = 16" "\<And>b. b \<in> set cs \<Longrightarrow> length b = 16"
  shows "length (last (v # take k cs)) = 16"
proof -
  have "last (v # take k cs) \<in> set (v # take k cs)" by (rule last_in_set) simp
  then show ?thesis using assms by (auto dest: in_set_takeD simp del: last.simps)
qed

lemma last_take_Suc: "k < length cs \<Longrightarrow> last (v # take (Suc k) cs) = cs ! k"
  by (simp add: take_Suc_conv_app_nth)

lemma chunk16_append_take:
  assumes "\<And>b. b \<in> set cs \<Longrightarrow> length b = 16" "k < length cs"
  shows "take 16 (drop (16 * k) (concat (take (Suc k) cs) @ ys)) = (cs ! k :: u8 list)"
  using chunk16_concat [of "take (Suc k) cs" k ys] assms by (auto simp: chunk16_def dest: in_set_takeD)

lemma cbc_encrypt_step_eq:
  assumes ok: "aes_ctx_ok c" and bs: "bs = map (chunk16 pt) [0..<n]" and cs: "cs = cbc_enc (aes_E c) v bs"
    and v: "length v = 16" and pt: "16 * n \<le> length pt" and ct: "16 * n \<le> length ct"
    and k: "k < n" and i: "unat i = 16 * k"
  shows "cbc_encrypt_step c pt i (last (v # take k cs), concat (take k cs) @ drop (16 * k) ct) =
     Some (last (v # take (Suc k) cs), concat (take (Suc k) cs) @ drop (16 * Suc k) ct)"
proof -
  let ?prev = "last (v # take k cs)"
  let ?b = "xor_bytes (chunk16 pt k) ?prev" and ?out = "concat (take (Suc k) cs) @ drop (16 * Suc k) ct"
  have "\<And>b. b \<in> set bs \<Longrightarrow> length b = 16" using pt bs by auto
  then have l: "\<And>b. b \<in> set cs \<Longrightarrow> length b = 16" unfolding cs by (rule aes.cbc_enc_lengths [OF v])
  have n: "length cs = n" using bs cs by simp
  have lp: "length ?prev = 16" by (rule length_last_chain) (use v l in auto)
  moreover have "length (chunk16 pt k) = 16" using k pt by simp
  ultimately have lb: "length ?b = 16" "length ?prev = 16" "length (chunk16 pt k) = 16" by simp_all
  have nth: "aes_E c ?b = cs ! k" using cbc_enc_nth [of k bs] k bs cs by simp
  have "crypto_aes_encrypt_block c ?b 0 (concat (take k cs) @ drop (16 * k) ct) (16 * k) = Some ?out"
    using crypto_aes_encrypt_block_eq [OF ok, of 0 ?b] lb nth memcpy_next_block [of cs k ct "cs ! k", OF l] k ct n
    by (simp del: last.simps)
  moreover have "memcpy ?prev 0 ?out (16 * k) 16 = Some (last (v # take (Suc k) cs))"
  proof -
    have lo: "length (concat (take (Suc k) cs)) = 16 * Suc k"
      by (subst length_concat16) (use l k n in \<open>auto dest: in_set_takeD\<close>)
    have "memcpy ?prev 0 ?out (16 * k) 16 = Some (take 16 (drop (16 * k) ?out))"
      using lp lo ct k by (simp add: memcpy_def del: last.simps drop_append take_append)
    also have "take 16 (drop (16 * k) ?out) = cs ! k" by (rule chunk16_append_take) (use l k n in simp_all)
    finally show ?thesis using last_take_Suc [of k cs v] k n by simp
  qed
  ultimately show ?thesis using i k pt
    by (simp add: cbc_encrypt_step_def chunk16_def [symmetric] Let_def del: last.simps)
qed

lemma crypto_aes_cbc_encrypt_eq:
  assumes ok: "aes_ctx_ok c" and iv: "16 \<le> length iv" and n: "unat len = 16 * n"
    and pt: "16 * n \<le> length pt" and ct: "16 * n \<le> length ct"
  shows "crypto_aes_cbc_encrypt (Some c) (Some iv) (Some pt) len (Some ct) =
    Some (CRYPTO_SUCCESS,
      Some (concat (cbc_enc (aes_E c) (take 16 iv) (map (chunk16 pt) [0..<n])) @ drop (16 * n) ct))"
proof -
  let ?v = "take 16 iv" and ?bs = "map (chunk16 pt) [0..<n]"
  define cs where "cs = cbc_enc (aes_E c) ?v ?bs"
  let ?s = "\<lambda>k. (last (?v # take k cs), concat (take k cs) @ drop (16 * k) ct)"
  have v: "length ?v = 16" using iv by simp
  have len: "unat len \<le> 2 ^ 32 - 16" using n unsigned_less [of len, where ?'a = nat] by simp
  have "for16 (cbc_encrypt_step c pt) 0 len (?s 0) = Some (?s ((unat len + 15) div 16))"
    by (rule for16_seq [OF len])
      (use n in \<open>intro cbc_encrypt_step_eq [OF ok refl cs_def v pt ct] unat_of_nat_16 [of _ len]; simp\<close>)
  moreover have "(unat len + 15) div 16 = n" using n by simp
  moreover have "len mod 16 = 0" using n by (intro unat_eqI) (simp add: unat_mod_distrib)
  ultimately show ?thesis using iv v by (simp add: crypto_aes_cbc_encrypt_def memcpy_def cs_def)
qed

lemma cbc_decrypt_step_eq:
  assumes ok: "aes_ctx_ok c" and cs: "cs = map (chunk16 ct) [0..<n]" and ps: "ps = cbc_dec (aes_D c) v cs"
    and v: "length v = 16" and ct: "16 * n \<le> length ct" and pt: "16 * n \<le> length pt"
    and k: "k < n" and i: "unat i = 16 * k"
  shows "cbc_decrypt_step c ct i (last (v # take k cs), concat (take k ps) @ drop (16 * k) pt) =
     Some (last (v # take (Suc k) cs), concat (take (Suc k) ps) @ drop (16 * Suc k) pt)"
proof -
  let ?prev = "last (v # take k cs)"
  have lc: "\<And>b. b \<in> set cs \<Longrightarrow> length b = 16" using ct cs by auto
  then have l: "\<And>b. b \<in> set ps \<Longrightarrow> length b = 16" unfolding ps by (rule aes.cbc_dec_lengths [OF v])
  have n: "length ps = n" "length cs = n" and ck: "cs ! k = chunk16 ct k" using cs ps k by simp_all
  have lp: "length ?prev = 16" by (rule length_last_chain) (use v lc in auto)
  have nth: "xor_bytes (aes_D c (chunk16 ct k)) ?prev = ps ! k"
    using cbc_dec_nth [of k cs "aes_D c" v] k n ck ps by simp
  have "crypto_aes_decrypt_block c ct (16 * k) (replicate 16 0) 0 = Some (aes_D c (chunk16 ct k))"
    using crypto_aes_decrypt_block_eq [OF ok, of "16 * k" ct] k ct length_aes_D [of "chunk16 ct k" c]
    by (simp add: chunk16_def [symmetric] memcpy_whole)
  moreover have "memcpy ?prev 0 ct (16 * k) 16 = Some (last (v # take (Suc k) cs))"
    using lp k ct n ck last_take_Suc [of k cs v]
    by (simp add: memcpy_def chunk16_def del: last.simps)
  ultimately show ?thesis using i k pt nth memcpy_next_block [of ps k pt "ps ! k", OF l] n
    by (simp add: cbc_decrypt_step_def del: last.simps)
qed

lemma crypto_aes_cbc_decrypt_eq:
  assumes ok: "aes_ctx_ok c" and iv: "16 \<le> length iv" and n: "unat len = 16 * n"
    and ct: "16 * n \<le> length ct" and pt: "16 * n \<le> length pt"
  shows "crypto_aes_cbc_decrypt (Some c) (Some iv) (Some ct) len (Some pt) =
    Some (CRYPTO_SUCCESS,
      Some (concat (cbc_dec (aes_D c) (take 16 iv) (map (chunk16 ct) [0..<n])) @ drop (16 * n) pt))"
proof -
  let ?v = "take 16 iv"
  define cs where "cs = map (chunk16 ct) [0..<n]"
  define ps where "ps = cbc_dec (aes_D c) ?v cs"
  let ?s = "\<lambda>k. (last (?v # take k cs), concat (take k ps) @ drop (16 * k) pt)"
  have v: "length ?v = 16" using iv by simp
  have len: "unat len \<le> 2 ^ 32 - 16" using n unsigned_less [of len, where ?'a = nat] by simp
  have "for16 (cbc_decrypt_step c ct) 0 len (?s 0) = Some (?s ((unat len + 15) div 16))"
    by (rule for16_seq [OF len])
      (use n in \<open>intro cbc_decrypt_step_eq [OF ok cs_def ps_def v ct pt] unat_of_nat_16 [of _ len]; simp\<close>)
  moreover have "(unat len + 15) div 16 = n" using n by simp
  moreover have "len mod 16 = 0" using n by (intro unat_eqI) (simp add: unat_mod_distrib)
  moreover have "length cs = n" by (simp add: cs_def)
  ultimately show ?thesis using iv v by (simp add: crypto_aes_cbc_decrypt_def memcpy_def ps_def cs_def)
qed

section \<open>The key schedule\<close>

lemma aes_copy_key_eq:
  assumes "n \<le> length rk" "4 * n \<le> length key"
  shows "aes_copy_key key [m..<n] rk = Some (take m rk @
    map (\<lambda>i. be32 (key ! (4 * i)) (key ! (4 * i + 1)) (key ! (4 * i + 2)) (key ! (4 * i + 3))) [m..<n] @
    drop (max m n) rk)"
  using assms
proof (induction "n - m" arbitrary: m rk)
  case 0
  then show ?case by (simp add: max_def)
next
  case (Suc d)
  let ?w = "\<lambda>i. be32 (key ! (4 * i)) (key ! (4 * i + 1)) (key ! (4 * i + 2)) (key ! (4 * i + 3))"
  have mn: "m < n" using Suc.hyps(2) by simp
  have p: "peek key (m * 4 + j) = Some (key ! (4 * m + j))" if "j < 4" for j
    using that mn Suc.prems by (simp add: peek_def mult.commute)
  have "aes_copy_key key [Suc m..<n] (rk[m := ?w m]) = Some (take (Suc m) (rk[m := ?w m]) @
      map ?w [Suc m..<n] @ drop (max (Suc m) n) (rk[m := ?w m]))"
    using Suc by (intro Suc.hyps(1)) simp_all
  moreover have "take (Suc m) (rk[m := ?w m]) = take m rk @ [?w m]"
    using mn Suc.prems by (simp add: take_Suc_conv_app_nth)
  ultimately show ?case
    using mn Suc.prems p [of 0] p [of 1] p [of 2] p [of 3]
    by (simp add: upt_conv_Cons poke_def max_def)
qed

text \<open>The recurrence of FIPS-197 for word \<open>i\<close>, with \<open>nk\<close> key words.\<close>

definition aes_next_word :: "nat \<Rightarrow> u32 list \<Rightarrow> nat \<Rightarrow> u32" where
  "aes_next_word nk w i = w ! (i - nk) XOR
     (if i mod nk = 0
      then aes_sub_word (aes_rot_word (w ! (i - 1))) XOR push_bit 24 (ucast (aes_rcon ! (i div nk)))
      else if 6 < nk \<and> i mod nk = 4 then aes_sub_word (w ! (i - 1)) else w ! (i - 1))"

definition aes_schedule_ok :: "u8 list \<Rightarrow> nat \<Rightarrow> nat \<Rightarrow> u32 list \<Rightarrow> bool" where
  "aes_schedule_ok key nk words w \<longleftrightarrow>
     (\<forall>i<nk. w ! i = be32 (key ! (4 * i)) (key ! (4 * i + 1)) (key ! (4 * i + 2)) (key ! (4 * i + 3))) \<and>
     (\<forall>i. nk \<le> i \<and> i < words \<longrightarrow> w ! i = aes_next_word nk w i)"

lemma aes_expand_key_eq:
  assumes nk: "0 < nk" and b: "b \<le> length rk" "b \<le> 11 * nk" and a: "nk \<le> a"
  shows "\<exists>w. aes_expand_key nk [a..<b] rk = Some w \<and> length w = length rk \<and>
    (\<forall>j<a. w ! j = rk ! j) \<and> (\<forall>j. a \<le> j \<and> j < b \<longrightarrow> w ! j = aes_next_word nk w j)"
  using b a
proof (induction "b - a" arbitrary: a rk)
  case (Suc d)
  let ?w = "aes_next_word nk rk a"
  have ab: "a < b" using Suc.hyps(2) by simp
  have "a div nk < 11" using ab Suc.prems(2) nk by (simp add: less_mult_imp_div_less)
  then have step: "aes_expand_key nk [a..<b] rk = aes_expand_key nk [Suc a..<b] (rk[a := ?w])"
    using ab Suc.prems nk
    by (auto simp: upt_conv_Cons peek_def poke_def aes_temp_word_def aes_next_word_def aes_rcon_def)
  have d: "d = b - Suc a" using Suc.hyps(2) by linarith
  obtain w where w: "aes_expand_key nk [Suc a..<b] (rk[a := ?w]) = Some w" "length w = length rk"
    "\<And>j. j < Suc a \<Longrightarrow> w ! j = rk[a := ?w] ! j"
    "\<And>j. Suc a \<le> j \<Longrightarrow> j < b \<Longrightarrow> w ! j = aes_next_word nk w j"
    using Suc.hyps(1) [of "Suc a" "rk[a := ?w]", OF d] Suc.prems by auto
  have eq: "aes_next_word nk w a = ?w"
    using w(3) [of "a - 1"] w(3) [of "a - nk"] Suc.prems(3) nk by (simp add: aes_next_word_def)
  have "w ! j = aes_next_word nk w j" if "a \<le> j" "j < b" for j
    using that w(3) [of j] w(4) [of j] eq ab Suc.prems by (cases "j = a") auto
  then show ?case using step w by (intro exI [of _ w]) auto
qed auto

lemma aes_key_expansion_eq:
  assumes kb: "key_bits \<in> {128, 192, 256}" and key: "unat key_bits \<le> 8 * length key" and rk: "length rk = 60"
  shows "\<exists>w. aes_key_expansion key key_bits rk = Some (aes_rounds key_bits, w) \<and> length w = 60 \<and>
     aes_schedule_ok key (unat key_bits div 32) (4 * (unat (aes_rounds key_bits) + 1)) w"
proof -
  let ?nk = "unat key_bits div 32" and ?t = "4 * (unat (aes_rounds key_bits) + 1)"
  let ?w = "\<lambda>i. be32 (key ! (4 * i)) (key ! (4 * i + 1)) (key ! (4 * i + 2)) (key ! (4 * i + 3))"
  have sz: "0 < ?nk" "?nk \<le> 60" "?t \<le> 60" "?t \<le> 11 * ?nk" "unat (key_bits div 32) = ?nk"
      "unat (4 * (aes_rounds key_bits + 1)) = ?t"
    using kb by (auto simp: aes_rounds_def unat_div_distrib)
  have cp: "aes_copy_key key [0..<?nk] rk = Some (map ?w [0..<?nk] @ drop ?nk rk)" (is "_ = Some ?rk")
    using aes_copy_key_eq [of ?nk rk key 0] sz key rk by simp
  obtain w where w: "aes_expand_key ?nk [?nk..<?t] ?rk = Some w" "length w = length ?rk"
      "\<And>j. j < ?nk \<Longrightarrow> w ! j = ?rk ! j" "\<And>j. ?nk \<le> j \<Longrightarrow> j < ?t \<Longrightarrow> w ! j = aes_next_word ?nk w j"
    using aes_expand_key_eq [of ?nk ?t ?rk ?nk] sz rk by auto
  have "aes_schedule_ok key ?nk ?t w" using w(3,4) sz rk by (auto simp: aes_schedule_ok_def nth_append)
  then show ?thesis using cp w sz rk by (simp add: aes_key_expansion_def Let_def)
qed

lemma crypto_aes_init_eq:
  assumes kb: "key_bits \<in> {128, 192, 256}" and key: "unat key_bits \<le> 8 * length key"
    and c: "length (key_schedule c) = 60"
  shows "\<exists>c'. crypto_aes_init (Some c) (Some key) key_bits = Some (CRYPTO_SUCCESS, Some c') \<and>
     aes_ctx_ok c' \<and> rounds c' = aes_rounds key_bits \<and>
     aes_schedule_ok key (unat key_bits div 32) (4 * (unat (rounds c') + 1)) (key_schedule c')"
proof -
  obtain w where w: "aes_key_expansion key key_bits (key_schedule c) = Some (aes_rounds key_bits, w)" "length w = 60"
     "aes_schedule_ok key (unat key_bits div 32) (4 * (unat (aes_rounds key_bits) + 1)) w"
    using aes_key_expansion_eq [OF kb key c] by blast
  have "1 \<le> unat (aes_rounds key_bits)" "unat (aes_rounds key_bits) \<le> 14" by (simp_all add: aes_rounds_def)
  then show ?thesis using w kb by (auto simp: crypto_aes_init_def aes_ctx_ok_def)
qed

section \<open>Properties\<close>

text \<open>for each of the three key sizes \<open>crypto_aes_init\<close> succeeds on every key buffer of that
  size, stays within the 60-word schedule, sets the number of rounds to 10, 12 or 14 and leaves a
  schedule that satisfies the FIPS-197 recurrence; every other key size and every NULL argument
  is refused and changes nothing.\<close>

lemma aes_init_schedule:
  assumes "length (key_schedule c) = 60" and "unat key_bits \<le> 8 * length key"
  shows "if key_bits \<in> {128, 192, 256}
     then \<exists>c'. crypto_aes_init (Some c) (Some key) key_bits = Some (CRYPTO_SUCCESS, Some c') \<and>
        rounds c' = (if key_bits = 128 then 10 else if key_bits = 192 then 12 else 14) \<and>
        length (key_schedule c') = 60 \<and>
        aes_schedule_ok key (unat key_bits div 32) (4 * (unat (rounds c') + 1)) (key_schedule c')
     else crypto_aes_init (Some c) (Some key) key_bits = Some (CRYPTO_ERROR_INVALID_PARAM, Some c)"
  using crypto_aes_init_eq [OF _ assms(2,1)]
  by (cases "key_bits \<in> {128, 192, 256}") (fastforce simp: aes_rounds_def aes_ctx_ok_def, simp add: crypto_aes_init_def)

text \<open>C9: decryption inverts encryption: on any initialised context \<open>crypto_aes_encrypt_block\<close>
  writes one block and \<open>crypto_aes_decrypt_block\<close> recovers the plaintext block from it, at any
  offsets within the buffers, everything around the two blocks unchanged.\<close>

theorem aes_block_roundtrip:
  assumes "aes_ctx_ok c" and "po + 16 \<le> length pt" and "co + 16 \<le> length ct" and "qo + 16 \<le> length out"
  shows "\<exists>ct'. crypto_aes_encrypt_block c pt po ct co = Some ct' \<and>
     take co ct' = take co ct \<and> drop (co + 16) ct' = drop (co + 16) ct \<and>
     crypto_aes_decrypt_block c ct' co out qo =
       Some (take qo out @ take 16 (drop po pt) @ drop (qo + 16) out)"
proof -
  let ?b = "take 16 (drop po pt)"
  let ?ct = "take co ct @ aes_E c ?b @ drop (co + 16) ct"
  have l: "length (aes_E c ?b) = 16" using assms(2) by (simp add: length_aes_E)
  have b: "take 16 (drop co ?ct) = aes_E c ?b" using assms(3) l by simp
  have "crypto_aes_decrypt_block c ?ct co out qo = Some (take qo out @ ?b @ drop (qo + 16) out)"
    unfolding crypto_aes_decrypt_block_eq [OF assms(1), of co ?ct] b using assms l
    by (subst crypto_aes_decrypt_block_eq) (auto simp: b aes_D_E memcpy_def)
  moreover have "crypto_aes_encrypt_block c pt po ct co = Some ?ct"
    using crypto_aes_encrypt_block_eq [OF assms(1,2)] assms(3) l by (simp add: memcpy_def)
  ultimately show ?thesis using assms(3) l by (intro exI [of _ ?ct]) simp
qed

theorem aes_block_roundtrip_witness:
  "\<exists>ct'. crypto_aes_encrypt_block \<lparr>key_schedule = replicate 60 3, rounds = 10\<rparr> (replicate 16 1) 0 (replicate 20 0) 4 = Some ct' \<and>
     crypto_aes_decrypt_block \<lparr>key_schedule = replicate 60 3, rounds = 10\<rparr> ct' 4 (replicate 16 0) 0 = Some (replicate 16 1)"
  using aes_block_roundtrip [of "\<lparr>key_schedule = replicate 60 3, rounds = 10\<rparr>" 0 "replicate 16 1" 4 "replicate 20 0" 0 "replicate 16 0"]
  by (auto simp: aes_ctx_ok_def)

text \<open>C32: CBC decryption recovers what CBC encryption was given: for every length that is a multiple
  of the block size, both calls return \<open>CRYPTO_SUCCESS\<close>, stay within their buffers, and change
  only the first \<open>len\<close> bytes of the output buffer.\<close>

theorem aes_cbc_roundtrip:
  assumes "aes_ctx_ok c" and "16 \<le> length iv" and "len mod 16 = 0"
    and "unat len \<le> length pt" and "unat len \<le> length ct" and "unat len \<le> length out"
  shows "\<exists>ct'. crypto_aes_cbc_encrypt (Some c) (Some iv) (Some pt) len (Some ct) =
       Some (CRYPTO_SUCCESS, Some ct') \<and>
     length ct' = length ct \<and> drop (unat len) ct' = drop (unat len) ct \<and>
     crypto_aes_cbc_decrypt (Some c) (Some iv) (Some ct') len (Some out) =
       Some (CRYPTO_SUCCESS, Some (take (unat len) pt @ drop (unat len) out))"
proof -
  have "unat len mod 16 = 0" using arg_cong [OF assms(3), of unat] by (simp add: unat_mod_distrib)
  then obtain n where n: "unat len = 16 * n" by auto
  define bs where "bs = map (chunk16 pt) [0..<n]"
  define cs where "cs = cbc_enc (aes_E c) (take 16 iv) bs"
  let ?ct = "concat cs @ drop (16 * n) ct"
  have v: "length (take 16 iv) = 16" using assms(2) by simp
  have bs: "\<And>b. b \<in> set bs \<Longrightarrow> length b = 16" using assms(4) n by (auto simp: bs_def)
  have cs: "\<And>b. b \<in> set cs \<Longrightarrow> length b = 16" unfolding cs_def using bs by (rule aes.cbc_enc_lengths [OF v])
  have lc: "length (concat cs) = 16 * n" using length_concat16 [OF cs] by (simp add: cs_def bs_def)
  have "map (chunk16 ?ct) [0..<n] = cs"
    by (rule nth_equalityI) (use chunk16_concat [OF cs] in \<open>auto simp: cs_def bs_def\<close>)
  then have dec: "cbc_dec (aes_D c) (take 16 iv) (map (chunk16 ?ct) [0..<n]) = bs"
    unfolding cs_def using aes.cbc_roundtrip [OF v bs] by simp
  have "concat bs = take (16 * n) pt" using concat_chunk16 assms(4) n by (simp add: bs_def)
  then show ?thesis
    using crypto_aes_cbc_encrypt_eq [OF assms(1,2) n, of pt ct]
      crypto_aes_cbc_decrypt_eq [OF assms(1,2) n, of ?ct out] assms n lc dec
    by (intro exI [of _ ?ct]) (simp add: cs_def bs_def)
qed

theorem aes_cbc_roundtrip_witness:
  "\<exists>ct'. crypto_aes_cbc_encrypt (Some \<lparr>key_schedule = replicate 60 3, rounds = 12\<rparr>) (Some (replicate 16 9))
       (Some (replicate 40 5)) 32 (Some (replicate 32 0)) = Some (CRYPTO_SUCCESS, Some ct') \<and>
     crypto_aes_cbc_decrypt (Some \<lparr>key_schedule = replicate 60 3, rounds = 12\<rparr>) (Some (replicate 16 9))
       (Some ct') 32 (Some (replicate 32 0)) = Some (CRYPTO_SUCCESS, Some (replicate 32 5))"
  using aes_cbc_roundtrip [of "\<lparr>key_schedule = replicate 60 3, rounds = 12\<rparr>" "replicate 16 9" 32
      "replicate 40 5" "replicate 32 0" "replicate 32 0"]
  by (auto simp: aes_ctx_ok_def)
end
