(* ===== verification/Crypto_Util.thy ===== *)
theory Crypto_Util
  imports Sha256
begin

text \<open>
  The small services of \<^verbatim>\<open>security/crypto.c\<close> and \<^verbatim>\<open>security/entropy.c\<close>: constant-time comparison,
  zeroisation, hardware detection, the entropy collector and the xorshift generator it seeds. What
  the hardware answers (cpuid, rdrand, rdseed, the time-stamp counter, addresses on the stack) is a
  parameter of the definitions.
\<close>

section \<open>Constant-time comparison and zeroisation\<close>

fun memcmp_loop :: "u8 list \<Rightarrow> u8 list \<Rightarrow> nat list \<Rightarrow> u8 \<Rightarrow> u8 cmem" where
  "memcmp_loop pa pb [] result = Some result"
| "memcmp_loop pa pb (i # is) result = do {
     x \<leftarrow> peek pa i;
     y \<leftarrow> peek pb i;
     memcmp_loop pa pb is (result OR (x XOR y))
   }"

definition crypto_memcmp_constant_time :: "u8 list \<Rightarrow> u8 list \<Rightarrow> nat \<Rightarrow> u8 cmem" where
  "crypto_memcmp_constant_time a b len = memcmp_loop a b [0..<len] 0"

definition crypto_memzero_secure :: "u8 list \<Rightarrow> nat \<Rightarrow> u8 list cmem" where
  "crypto_memzero_secure p len = memcpy p 0 (replicate len 0) 0 len"

lemma memcmp_loop_eq:
  assumes "\<And>i. i \<in> set is \<Longrightarrow> i < length a \<and> i < length b"
  shows "\<exists>r'. memcmp_loop a b is r = Some r' \<and> (r' = 0 \<longleftrightarrow> r = 0 \<and> (\<forall>i\<in>set is. a ! i = b ! i))"
  using assms
proof (induction "is" arbitrary: r)
  case (Cons i "is")
  then have "memcmp_loop a b (i # is) r = memcmp_loop a b is (r OR (a ! i XOR b ! i))"
    by (simp add: peek_def)
  moreover have "(r OR (a ! i XOR b ! i) = 0) = (r = 0 \<and> a ! i = b ! i)"
    by (auto simp: or_eq_0_iff xor_self_eq) (metis word_xor_cancel xor.left_neutral)
  ultimately show ?case using Cons.IH [of "r OR (a ! i XOR b ! i)"] Cons.prems
    by (auto simp del: memcmp_loop.simps)
qed simp

lemma take_eq_iff_nth: "n \<le> length a \<Longrightarrow> n \<le> length b \<Longrightarrow> take n a = take n b \<longleftrightarrow> (\<forall>i<n. a ! i = b ! i)"
  by (auto simp: list_eq_iff_nth_eq)

lemma crypto_memcmp_constant_time_eq:
  assumes "n \<le> length a" "n \<le> length b"
  shows "\<exists>r. crypto_memcmp_constant_time a b n = Some r \<and> (r = 0 \<longleftrightarrow> take n a = take n b)"
  using memcmp_loop_eq [of "[0..<n]" a b 0] assms
  by (auto simp: crypto_memcmp_constant_time_def take_eq_iff_nth)


section \<open>Hardware detection\<close>

definition CRYPTO_HW_NONE :: u32 where "CRYPTO_HW_NONE = 0"
definition CRYPTO_HW_INTEL_AESNI :: u32 where "CRYPTO_HW_INTEL_AESNI = 1"
definition CRYPTO_HW_INTEL_SHA :: u32 where "CRYPTO_HW_INTEL_SHA = 8"

text \<open>\<open>ecx1\<close> and \<open>ebx7\<close> are the registers cpuid returns for leaf 1 and leaf 7.\<close>

definition crypto_detect_hardware_support :: "u32 \<Rightarrow> u32 \<Rightarrow> u32" where
  "crypto_detect_hardware_support ecx1 ebx7 =
     (let s = CRYPTO_HW_NONE;
          s = (if ecx1 AND push_bit 25 1 \<noteq> 0 then s OR CRYPTO_HW_INTEL_AESNI else s);
          s = (if ebx7 AND push_bit 29 1 \<noteq> 0 then s OR CRYPTO_HW_INTEL_SHA else s)
      in s)"

text \<open>The new value of \<^verbatim>\<open>g_hw_support\<close>.\<close>

definition crypto_init_hardware_acceleration :: "u32 \<Rightarrow> u32 \<Rightarrow> u32 \<Rightarrow> crypto_status \<times> u32" where
  "crypto_init_hardware_acceleration ecx1 ebx7 hw_mask =
     (CRYPTO_SUCCESS, crypto_detect_hardware_support ecx1 ebx7 AND hw_mask)"

definition crypto_cleanup_hardware :: u32 where
  "crypto_cleanup_hardware = CRYPTO_HW_NONE"

section \<open>The entropy collector\<close>

record entropy_env =
  hw_rdrand :: "u32 option"
  hw_rdseed :: "u32 option"
  word_at_80000000 :: u32
  addr_t :: u64
  hw_tsc :: u32
  addr_pool :: u64

definition uefi_random :: "entropy_env \<Rightarrow> u32" where
  "uefi_random env = (if word_at_80000000 env \<noteq> 0 then word_at_80000000 env else 0)"

definition timing_jitter :: "entropy_env \<Rightarrow> u32" where
  "timing_jitter env =
     foldl (\<lambda>t i. t + ucast (of_nat i * addr_t env)) 0 [0..<1000] XOR ucast (addr_t env)"

definition entropy_pool :: "entropy_env \<Rightarrow> u8 list" where
  "entropy_pool env =
     (let v = (case hw_rdrand env of Some v \<Rightarrow> v
               | None \<Rightarrow> (case hw_rdseed env of Some v \<Rightarrow> v | None \<Rightarrow> 0))
      in le32_bytes v @ le32_bytes (uefi_random env) @ le32_bytes (timing_jitter env) @
         le32_bytes (hw_tsc env) @
         concat (map (\<lambda>i. le32_bytes (ucast (addr_pool env + of_nat i))) [16, 20, 24, 28]))"

definition entropy_get :: "entropy_env \<Rightarrow> u32 cmem" where
  "entropy_get env = do {
     h \<leftarrow> sha256_hash (Some (entropy_pool env)) 32 (Some (replicate 32 0));
     case the h of (a # b # c # d # _) \<Rightarrow> Some (be32 d c b a) | _ \<Rightarrow> None
   }"

section \<open>The xorshift generator\<close>

record crypto_rng =
  g_rng_state :: "u32 \<times> u32 \<times> u32 \<times> u32"
  g_rng_initialized :: bool

text \<open>The four calls of \<open>entropy_get\<close> see four environments.\<close>

definition crypto_random_init ::
  "entropy_env \<Rightarrow> entropy_env \<Rightarrow> entropy_env \<Rightarrow> entropy_env \<Rightarrow> crypto_rng \<Rightarrow> (crypto_status \<times> crypto_rng) cmem" where
  "crypto_random_init e0 e1 e2 e3 g = do {
     a \<leftarrow> entropy_get e0;
     b \<leftarrow> entropy_get e1;
     c \<leftarrow> entropy_get e2;
     d \<leftarrow> entropy_get e3;
     Some (CRYPTO_SUCCESS, g\<lparr>g_rng_state := (a, b XOR 0xDEADBEEF, c XOR 0xCAFEBABE, d XOR 0xFEEDFACE),
                            g_rng_initialized := True\<rparr>)
   }"

fun rng_step :: "u32 \<times> u32 \<times> u32 \<times> u32 \<Rightarrow> u32 \<times> u32 \<times> u32 \<times> u32" where
  "rng_step (s0, s1, s2, s3) =
     (let t = s3; s = s0;
          t = t XOR push_bit 11 t;
          t = t XOR drop_bit 8 t
      in (t XOR s XOR drop_bit 19 s, s, s1, s2))"

text \<open>The value is only written through a non-NULL pointer (\<open>dst = True\<close>).\<close>

definition crypto_random_uint32 :: "bool \<Rightarrow> crypto_rng \<Rightarrow> crypto_status \<times> u32 ptr \<times> crypto_rng" where
  "crypto_random_uint32 dst g =
     (if \<not> g_rng_initialized g \<or> \<not> dst then (CRYPTO_ERROR_INVALID_PARAM, None, g)
      else let st = rng_step (g_rng_state g) in (CRYPTO_SUCCESS, Some (fst st), g\<lparr>g_rng_state := st\<rparr>))"

partial_function (option) random_bytes_loop ::
  "u32 \<Rightarrow> u32 \<Rightarrow> crypto_rng \<Rightarrow> u8 list \<Rightarrow> (crypto_status \<times> crypto_rng \<times> u8 list) cmem" where
  "random_bytes_loop i len g buf =
     (if i < len
      then (case crypto_random_uint32 True g of
              (CRYPTO_SUCCESS, rand_val, g') \<Rightarrow>
                Option.bind (memcpy buf (unat i) (le32_bytes (the rand_val)) 0
                               (unat (if len - i < 4 then len - i else 4)))
                  (\<lambda>buf'. random_bytes_loop (i + 4) len g' buf')
            | (result, _, g') \<Rightarrow> Some (result, g', buf))
      else Some (CRYPTO_SUCCESS, g, buf))"

definition crypto_random_bytes ::
  "u8 list ptr \<Rightarrow> u32 \<Rightarrow> crypto_rng \<Rightarrow> (crypto_status \<times> crypto_rng \<times> u8 list ptr) cmem" where
  "crypto_random_bytes buf len g =
     (case buf of
        None \<Rightarrow> Some (CRYPTO_ERROR_INVALID_PARAM, g, None)
      | Some b \<Rightarrow>
          if len = 0 then Some (CRYPTO_ERROR_INVALID_PARAM, g, buf)
          else do { (r, g', b') \<leftarrow> random_bytes_loop 0 len g b; Some (r, g', Some b') })"

definition crypto_random_cleanup :: "crypto_rng \<Rightarrow> crypto_rng" where
  "crypto_random_cleanup g = g\<lparr>g_rng_state := (0, 0, 0, 0), g_rng_initialized := False\<rparr>"

definition crypto_cleanup_all_contexts :: "crypto_rng \<Rightarrow> crypto_rng \<times> u32" where
  "crypto_cleanup_all_contexts g = (crypto_random_cleanup g, crypto_cleanup_hardware)"

section \<open>Lemmas\<close>

lemma length_entropy_pool [simp]: "length (entropy_pool env) = 32"
  by (simp add: entropy_pool_def Let_def)

lemma xorshift_left_inj:
  fixes x y :: "'a::len word"
  assumes n: "0 < n" and eq: "x XOR push_bit n x = y XOR push_bit n y"
  shows "x = y"
proof (rule bit_word_eqI)
  fix k assume "k < LENGTH('a)"
  then show "bit x k = bit y k"
  proof (induction k rule: less_induct)
    case (less k)
    have "bit (x XOR push_bit n x) k = bit (y XOR push_bit n y) k" by (simp only: eq)
    moreover have "n \<le> k \<Longrightarrow> bit x (k - n) = bit y (k - n)" using less n by simp
    ultimately show ?case using less.prems by (auto simp: bit_simps)
  qed
qed

lemma xorshift_right_inj:
  fixes x y :: "'a::len word"
  assumes n: "0 < n" and eq: "x XOR drop_bit n x = y XOR drop_bit n y"
  shows "x = y"
proof (rule bit_word_eqI)
  fix k assume "k < LENGTH('a)"
  then show "bit x k = bit y k"
  proof (induction "LENGTH('a) - k" arbitrary: k rule: less_induct)
    case less
    have "bit (x XOR drop_bit n x) k = bit (y XOR drop_bit n y) k" by (simp only: eq)
    moreover have "bit x (n + k) = bit y (n + k)"
    proof (cases "n + k < LENGTH('a)")
      case True
      then show ?thesis using less n by (intro less.hyps) simp_all
    next
      case False
      then show ?thesis using bit_imp_le_length by blast
    qed
    ultimately show ?case by (auto simp: bit_simps add.commute)
  qed
qed

lemma word_xor_right_inj: "(x XOR z = y XOR z) = (x = (y :: 'a::len word))"
  by (metis word_xor_cancel)

lemma rng_step_inj: "rng_step a = rng_step b \<Longrightarrow> a = b"
proof -
  assume eq: "rng_step a = rng_step b"
  obtain a0 a1 a2 a3 b0 b1 b2 b3 where ab: "a = (a0, a1, a2, a3)" "b = (b0, b1, b2, b3)"
    by (cases a; cases b) blast
  have s: "a0 = b0" "a1 = b1" "a2 = b2" using eq by (simp_all add: ab Let_def)
  with eq have "(a3 XOR push_bit 11 a3) XOR drop_bit 8 (a3 XOR push_bit 11 a3) =
      (b3 XOR push_bit 11 b3) XOR drop_bit 8 (b3 XOR push_bit 11 b3)"
    by (simp add: ab Let_def word_xor_right_inj xor.assoc [symmetric])
  then have "a3 XOR push_bit 11 a3 = b3 XOR push_bit 11 b3" by (rule xorshift_right_inj [rotated]) simp
  then have "a3 = b3" by (rule xorshift_left_inj [rotated]) simp
  with s ab show ?thesis by simp
qed

lemma rng_step_zero: "rng_step s = (0, 0, 0, 0) \<longleftrightarrow> s = (0, 0, 0, 0)"
  using rng_step_inj [of s "(0, 0, 0, 0)"] by (auto simp: Let_def)

text \<open>The bytes the generator delivers, block by block.\<close>

fun rng_bytes :: "nat \<Rightarrow> u32 \<times> u32 \<times> u32 \<times> u32 \<Rightarrow> u8 list" where
  "rng_bytes 0 st = []"
| "rng_bytes (Suc n) st = le32_bytes (fst (rng_step st)) @ rng_bytes n (rng_step st)"

lemma length_rng_bytes [simp]: "length (rng_bytes n st) = 4 * n"
  by (induction n arbitrary: st) simp_all

lemma random_bytes_loop_eq:
  assumes init: "g_rng_initialized g" and len: "unat len \<le> 2 ^ 32 - 4" "unat len \<le> length buf"
    and i: "unat i = 4 * k" "4 * k \<le> unat len + 3"
  shows "random_bytes_loop i len g buf =
    (let n = (unat len + 3) div 4 - k in
      Some (CRYPTO_SUCCESS, g\<lparr>g_rng_state := (rng_step ^^ n) (g_rng_state g)\<rparr>,
            take (4 * k) buf @ take (unat len - 4 * k) (rng_bytes n (g_rng_state g)) @ drop (max (4 * k) (unat len)) buf))"
  using assms
proof (induction "(unat len + 3) div 4 - k" arbitrary: i k g buf)
  case 0
  then have "unat len \<le> 4 * k" by auto
  with 0 show ?case by (subst random_bytes_loop.simps) (simp add: word_less_nat_alt Let_def max_def)
next
  case (Suc n)
  let ?g = "g\<lparr>g_rng_state := rng_step (g_rng_state g)\<rparr>" and ?l = "min 4 (unat len - 4 * k)"
  let ?r = "le32_bytes (fst (rng_step (g_rng_state g)))"
  let ?buf = "take (4 * k) buf @ take ?l ?r @ drop (4 * k + ?l) buf"
  have lt: "4 * k < unat len" using Suc.hyps(2) by linarith
  then have il: "i < len" using Suc.prems by (simp add: word_less_nat_alt)
  then have sub: "unat (len - i) = unat len - 4 * k" using Suc.prems(4) by (simp add: unat_sub_small word_less_nat_alt)
  have cl: "unat (if len - i < 4 then len - i else 4) = ?l" using sub by (auto simp: word_less_nat_alt)
  have i4: "unat (i + 4) = 4 * Suc k" using Suc.prems lt by (simp add: unat_add_small)
  have bnd: "4 * k + ?l \<le> length buf" using Suc.prems(3) lt by linarith
  have n: "(unat len + 3) div 4 - Suc k = n" using Suc.hyps(2) by simp
  have "random_bytes_loop i len g buf = random_bytes_loop (i + 4) len ?g ?buf"
    using il Suc.prems bnd unfolding random_bytes_loop.simps [of i] cl
    by (simp add: crypto_random_uint32_def Let_def memcpy_def)
  also have "\<dots> = Some (CRYPTO_SUCCESS, ?g\<lparr>g_rng_state := (rng_step ^^ n) (g_rng_state ?g)\<rparr>,
       take (4 * Suc k) ?buf @ take (unat len - 4 * Suc k) (rng_bytes n (g_rng_state ?g)) @ drop (max (4 * Suc k) (unat len)) ?buf)"
    using Suc.hyps(1) [of "Suc k" ?g ?buf "i + 4"] Suc.prems i4 lt bnd unfolding n Let_def by simp
  also have "take (4 * Suc k) ?buf @ take (unat len - 4 * Suc k) (rng_bytes n (g_rng_state ?g)) @ drop (max (4 * Suc k) (unat len)) ?buf =
      take (4 * k) buf @ take (unat len - 4 * k) (rng_bytes (Suc n) (g_rng_state g)) @ drop (max (4 * k) (unat len)) buf"
  proof (cases "4 \<le> unat len - 4 * k")
    case True
    then have "?l = 4" "max (4 * Suc k) (unat len) = unat len" "max (4 * k) (unat len) = unat len"
      using lt by (auto simp: max_def min_def)
    then show ?thesis using True Suc.prems(3) by (simp add: ac_simps)
  next
    case False
    then have "?l = unat len - 4 * k" "max (4 * Suc k) (unat len) = 4 * Suc k" "max (4 * k) (unat len) = unat len" "n = 0"
      using n lt by (auto simp: max_def min_def)
    moreover have "4 + 4 * k - unat len + unat len = 4 + 4 * k" using False by linarith
    ultimately show ?thesis
      using False Suc.prems(3) lt append_take_drop_id [of "4 + 4 * k - unat len" "drop (unat len) buf"] by simp
  qed
  finally show ?case unfolding Suc.hyps(2) [symmetric] Let_def by (simp add: funpow_swap1)
qed

section \<open>Properties\<close>

text \<open>\<open>crypto_memcmp_constant_time\<close> reads exactly the first \<open>n\<close> bytes of both buffers, whatever
  they hold, and returns zero if and only if they are equal.\<close>

lemma memcmp_constant_time_correct:
  assumes "n \<le> length a" and "n \<le> length b"
  shows "\<exists>r. crypto_memcmp_constant_time a b n = Some r \<and> (r = 0 \<longleftrightarrow> take n a = take n b)"
  by (rule crypto_memcmp_constant_time_eq [OF assms])

text \<open>the xorshift generator never degenerates: its step is injective on the 128-bit states and
  keeps the all-zero state apart, so an initialised generator in a non-zero state delivers a value on
  every call and stays in a non-zero state, after any number of calls.\<close>

lemma rng_never_degenerates:
  assumes "g_rng_initialized g" and "g_rng_state g \<noteq> (0, 0, 0, 0)"
  shows "inj rng_step \<and>
    (let g' = ((\<lambda>g. snd (snd (crypto_random_uint32 True g))) ^^ n) g in
      g_rng_initialized g' \<and> g_rng_state g' \<noteq> (0, 0, 0, 0) \<and>
      (\<exists>v. crypto_random_uint32 True g' =
         (CRYPTO_SUCCESS, Some v, g'\<lparr>g_rng_state := rng_step (g_rng_state g')\<rparr>)))"
proof -
  let ?next = "\<lambda>g. snd (snd (crypto_random_uint32 True g))"
  have "g_rng_initialized ((?next ^^ n) g) \<and> g_rng_state ((?next ^^ n) g) \<noteq> (0, 0, 0, 0)"
    using assms by (induction n) (auto simp: crypto_random_uint32_def Let_def rng_step_zero)
  then show ?thesis by (auto simp: Let_def crypto_random_uint32_def intro: injI rng_step_inj)
qed

text \<open>\<open>crypto_random_bytes\<close> on an initialised generator terminates, fills exactly the first
  \<open>len\<close> bytes of the buffer with the little-endian outputs of successive steps (the last one cut
  to size) and advances the state by one step per started word; on a generator that was never seeded
  or was cleaned up it reports \<open>CRYPTO_ERROR_INVALID_PARAM\<close> and writes nothing. Above
  \<open>2 ^ 32 - 4\<close> the loop counter wraps around.\<close>

lemma random_bytes_fills:
  assumes "0 < unat len" and "unat len \<le> 2 ^ 32 - 4" and "unat len \<le> length buf"
  shows "crypto_random_bytes (Some buf) len g =
    (if g_rng_initialized g
     then let n = (unat len + 3) div 4 in
       Some (CRYPTO_SUCCESS, g\<lparr>g_rng_state := (rng_step ^^ n) (g_rng_state g)\<rparr>,
         Some (take (unat len) (rng_bytes n (g_rng_state g)) @ drop (unat len) buf))
     else Some (CRYPTO_ERROR_INVALID_PARAM, g, Some buf))"
proof (cases "g_rng_initialized g")
  case True
  then show ?thesis
    using random_bytes_loop_eq [OF True assms(2,3), of 0 0] assms(1)
    by (auto simp: crypto_random_bytes_def Let_def)
next
  case False
  then show ?thesis
    using assms(1) by (auto simp: crypto_random_bytes_def random_bytes_loop.simps word_less_nat_alt crypto_random_uint32_def)
qed

end
