(* ===== verification/Aes_Gcm.thy ===== *)
theory Aes_Gcm
  imports Aes Crypto_Util
begin

text \<open>
  The GCM mode of \<^verbatim>\<open>security/aes.c\<close>: the field multiplication, GHASH, the counter, and the two
  routines with their NULL checks. The counter-mode part is stated over the interface
  \<open>block_cipher\<close>; the tag is the one the code computes.
\<close>

section \<open>Field multiplication and GHASH\<close>

text \<open>The inner loop shifts \<open>v\<close> right by one bit, from the last byte to the first.\<close>

definition gcm_shift :: "u8 list \<Rightarrow> u8 list" where
  "gcm_shift v =
     (let lsb = v ! 15 AND 1;
          v1 = drop_bit 1 (v ! 0) #
               map (\<lambda>k. drop_bit 1 (v ! k) OR push_bit 7 (v ! (k - 1) AND 1)) [1..<16]
      in if lsb \<noteq> 0 then v1[0 := v1 ! 0 XOR 0xe1] else v1)"

definition gcm_mult_bit :: "u8 list \<Rightarrow> u8 list \<times> u8 list \<Rightarrow> nat \<Rightarrow> u8 list \<times> u8 list" where
  "gcm_mult_bit a = (\<lambda>(z, v) n.
     (if a ! (n div 8) AND push_bit (7 - n mod 8) 1 \<noteq> 0 then xor_bytes z v else z, gcm_shift v))"

definition aes_gcm_gf_mult :: "u8 list \<Rightarrow> u8 list \<Rightarrow> u8 list" where
  "aes_gcm_gf_mult a b = fst (foldl (gcm_mult_bit a) (replicate 16 0, b) [0..<128])"

definition ghash_step :: "u8 list \<Rightarrow> u8 list \<Rightarrow> u32 \<Rightarrow> u32 \<Rightarrow> u8 list \<Rightarrow> u8 list cmem" where
  "ghash_step h data len i y = do {
     let block_len = (if len - i < 16 then len - i else 16);
     block \<leftarrow> memcpy (replicate 16 0) 0 data (unat i) (unat block_len);
     Some (aes_gcm_gf_mult (xor_bytes y block) h)
   }"

definition aes_gcm_ghash :: "u8 list \<Rightarrow> u8 list \<Rightarrow> u32 \<Rightarrow> u8 list cmem" where
  "aes_gcm_ghash h data len = for16 (ghash_step h data len) 0 len (replicate 16 0)"

definition aes_gcm_inc32 :: "u8 list \<Rightarrow> u8 list" where
  "aes_gcm_inc32 block =
     take 12 block @ be32_bytes (be32 (block ! 12) (block ! 13) (block ! 14) (block ! 15) + 1)"

section \<open>Counter mode\<close>

text \<open>One pass of the loop that both routines share: \<open>out\<close> receives \<open>inp\<close> exclusive-or the key
  stream.\<close>

definition gcm_ctr_step ::
  "crypto_aes_ctx \<Rightarrow> u8 list ptr \<Rightarrow> u32 \<Rightarrow> u32 \<Rightarrow> u8 list \<times> u8 list \<Rightarrow> (u8 list \<times> u8 list) cmem" where
  "gcm_ctr_step ctx inp len i = (\<lambda>(counter, out). do {
     keystream \<leftarrow> crypto_aes_encrypt_block ctx counter 0 (replicate 16 0) 0;
     let block_len = unat (if len - i < 16 then len - i else 16);
     src \<leftarrow> inp;
     p \<leftarrow> memcpy (replicate 16 0) 0 src (unat i) block_len;
     out' \<leftarrow> memcpy out (unat i) (xor_bytes p keystream) 0 block_len;
     Some (aes_gcm_inc32 counter, out')
   })"

section \<open>Encryption and decryption\<close>

definition gcm_j0 :: "u8 list \<Rightarrow> u8 list \<Rightarrow> u32 \<Rightarrow> u8 list cmem" where
  "gcm_j0 h iv iv_len =
     (if iv_len = 12 then do {
        j0 \<leftarrow> memcpy (replicate 16 0) 0 iv 0 12;
        Some (j0[15 := 1])
      } else do {
        j0 \<leftarrow> aes_gcm_ghash h iv iv_len;
        let len_block = replicate 8 0 @ be64_bytes (ucast (iv_len * 8) :: u64);
        Some (aes_gcm_gf_mult (xor_bytes (aes_gcm_gf_mult j0 h) len_block) h)
      })"

definition gcm_tag ::
  "crypto_aes_ctx \<Rightarrow> u8 list \<Rightarrow> u8 list \<Rightarrow> u8 list ptr \<Rightarrow> u32 \<Rightarrow> u8 list \<Rightarrow> u32 \<Rightarrow> u8 list cmem" where
  "gcm_tag ctx h j0 aad aad_len ciphertext len = do {
     s0 \<leftarrow> (case aad of Some a \<Rightarrow> if 0 < aad_len then aes_gcm_ghash h a aad_len else Some (replicate 16 0)
                       | None \<Rightarrow> Some (replicate 16 0));
     s1 \<leftarrow> (if 0 < len then do {
              g \<leftarrow> aes_gcm_ghash h ciphertext len;
              Some (aes_gcm_gf_mult (xor_bytes s0 g) h)
            } else Some s0);
     let len_block = be64_bytes (ucast (aad_len * 8) :: u64) @ be64_bytes (ucast (len * 8) :: u64);
     let s2 = aes_gcm_gf_mult (xor_bytes s1 len_block) h;
     j0_encrypted \<leftarrow> crypto_aes_encrypt_block ctx j0 0 (replicate 16 0) 0;
     Some (xor_bytes s2 j0_encrypted)
   }"

definition crypto_aes_gcm_encrypt ::
  "crypto_aes_ctx ptr \<Rightarrow> u8 list ptr \<Rightarrow> u32 \<Rightarrow> u8 list ptr \<Rightarrow> u32 \<Rightarrow> u8 list ptr \<Rightarrow> u32 \<Rightarrow>
   u8 list ptr \<Rightarrow> u8 list ptr \<Rightarrow> (crypto_status \<times> u8 list ptr \<times> u8 list ptr) cmem" where
  "crypto_aes_gcm_encrypt ctx iv iv_len aad aad_len plaintext len ciphertext tag =
     (case (ctx, iv, ciphertext, tag) of
        (Some c, Some v, Some ct, Some tg) \<Rightarrow> do {
          h \<leftarrow> crypto_aes_encrypt_block c (replicate 16 0) 0 (replicate 16 0) 0;
          j0 \<leftarrow> gcm_j0 h v iv_len;
          (_, ct') \<leftarrow> for16 (gcm_ctr_step c plaintext len) 0 len (aes_gcm_inc32 j0, ct);
          t \<leftarrow> gcm_tag c h j0 aad aad_len ct' len;
          tg' \<leftarrow> memcpy tg 0 t 0 16;
          Some (CRYPTO_SUCCESS, Some ct', Some tg')
        }
      | _ \<Rightarrow> Some (CRYPTO_ERROR_INVALID_PARAM, ciphertext, tag))"

text \<open>
  Decryption computes the candidate plaintext, encrypts it again into the ciphertext buffer, and
  compares the tags. It never derives the counter block from an initialisation vector whose length
  is not 12. The results are the status, the ciphertext buffer and the plaintext buffer.
\<close>

definition gcm_decrypt_j0 :: "u8 list \<Rightarrow> u32 \<Rightarrow> u8 list cmem" where
  "gcm_decrypt_j0 iv iv_len =
     (if iv_len = 12 then do {
        j0 \<leftarrow> memcpy (replicate 16 0) 0 iv 0 12;
        Some (j0[15 := 1])
      } else Some (replicate 16 0))"

definition crypto_aes_gcm_decrypt ::
  "crypto_aes_ctx ptr \<Rightarrow> u8 list ptr \<Rightarrow> u32 \<Rightarrow> u8 list ptr \<Rightarrow> u32 \<Rightarrow> u8 list ptr \<Rightarrow> u32 \<Rightarrow>
   u8 list ptr \<Rightarrow> u8 list ptr \<Rightarrow> (crypto_status \<times> u8 list ptr \<times> u8 list ptr) cmem" where
  "crypto_aes_gcm_decrypt ctx iv iv_len aad aad_len ciphertext len tag plaintext =
     (case (ctx, iv, ciphertext, tag, plaintext) of
        (Some c, Some v, Some ct, Some tg, Some pt) \<Rightarrow> do {
          h \<leftarrow> crypto_aes_encrypt_block c (replicate 16 0) 0 (replicate 16 0) 0;
          j0 \<leftarrow> gcm_decrypt_j0 v iv_len;
          (_, temp_plaintext) \<leftarrow> for16 (gcm_ctr_step c (Some ct) len) 0 len
              (aes_gcm_inc32 j0, replicate (unat len) 0);
          (_, ct', computed_tag) \<leftarrow> crypto_aes_gcm_encrypt ctx iv iv_len aad aad_len (Some temp_plaintext) len
              (Some ct) (Some (replicate 16 0));
          cmp \<leftarrow> crypto_memcmp_constant_time tg (the computed_tag) 16;
          if cmp \<noteq> 0 then Some (CRYPTO_ERROR_VERIFICATION_FAILED, ct', plaintext)
          else do {
            pt' \<leftarrow> memcpy pt 0 temp_plaintext 0 (unat len);
            Some (CRYPTO_SUCCESS, ct', Some pt')
          }
        }
      | _ \<Rightarrow> Some (CRYPTO_ERROR_INVALID_PARAM, ciphertext, plaintext))"

section \<open>Lemmas\<close>

lemma take_xor_bytes: "take n (xor_bytes a b) = xor_bytes (take n a) (take n b)"
  by (simp add: xor_bytes_def take_map take_zip)

lemma drop_xor_bytes: "drop n (xor_bytes a b) = xor_bytes (drop n a) (drop n b)"
  by (simp add: xor_bytes_def drop_map drop_zip)

lemma length_aes_gcm_inc32 [simp]: "length c = 16 \<Longrightarrow> length (aes_gcm_inc32 c) = 16"
  by (simp add: aes_gcm_inc32_def)

lemma length_inc32_iter [simp]: "length c = 16 \<Longrightarrow> length ((aes_gcm_inc32 ^^ k) c) = 16"
  by (induction k) simp_all

lemma length_gcm_shift [simp]: "length (gcm_shift v) = 16"
  by (simp add: gcm_shift_def Let_def)

text \<open>The key stream: the cipher applied to successive counter values.\<close>

definition ctr_stream :: "(u8 list \<Rightarrow> u8 list) \<Rightarrow> u8 list \<Rightarrow> nat \<Rightarrow> u8 list" where
  "ctr_stream E c n = concat (map (\<lambda>k. E ((aes_gcm_inc32 ^^ k) c)) [0..<n])"

context block_cipher
begin

lemma length_ctr_stream: "length c = 16 \<Longrightarrow> length (ctr_stream E c n) = 16 * n"
  by (induction n) (simp_all add: ctr_stream_def length_E)

lemma ctr_stream_chunk:
  "length c = 16 \<Longrightarrow> k < n \<Longrightarrow> take 16 (drop (16 * k) (ctr_stream E c n)) = E ((aes_gcm_inc32 ^^ k) c)"
  using chunk16_concat [of "map (\<lambda>k. E ((aes_gcm_inc32 ^^ k) c)) [0..<n]" k "[]"]
  by (fastforce simp: ctr_stream_def chunk16_def length_E)

text \<open>Counter mode applied twice is the identity.\<close>

lemma ctr_twice:
  "length c = 16 \<Longrightarrow> length m \<le> 16 * n \<Longrightarrow>
   xor_bytes (xor_bytes m (ctr_stream E c n)) (ctr_stream E c n) = m"
  by (rule xor_bytes_cancel) (simp add: length_ctr_stream)

end

definition gcm_ctr :: "crypto_aes_ctx \<Rightarrow> u8 list \<Rightarrow> u8 list \<Rightarrow> u8 list" where
  "gcm_ctr c counter m = xor_bytes m (ctr_stream (aes_E c) counter ((length m + 15) div 16))"

lemma length_gcm_ctr [simp]: "length counter = 16 \<Longrightarrow> length (gcm_ctr c counter m) = length m"
  using aes.length_ctr_stream [of counter c "(length m + 15) div 16"] by (simp add: gcm_ctr_def)

lemma gcm_ctr_twice: "length counter = 16 \<Longrightarrow> gcm_ctr c counter (gcm_ctr c counter m) = m"
  using aes.ctr_twice [of counter m "(length m + 15) div 16" c] length_gcm_ctr [of counter c m]
  by (simp add: gcm_ctr_def)

lemma gcm_ctr_step_eq:
  assumes ok: "aes_ctx_ok c" and ctr: "length counter = 16" and L: "unat len \<le> length inp" "unat len \<le> length out"
    and k: "16 * k < unat len" and i: "unat i = 16 * k" and X: "X = gcm_ctr c counter (take (unat len) inp)"
  shows "gcm_ctr_step c (Some inp) len i
      ((aes_gcm_inc32 ^^ k) counter, take (16 * k) X @ drop (16 * k) out) =
    Some ((aes_gcm_inc32 ^^ Suc k) counter,
      take (min (16 * Suc k) (unat len)) X @ drop (min (16 * Suc k) (unat len)) out)"
proof -
  let ?ks = "aes_E c ((aes_gcm_inc32 ^^ k) counter)" and ?l = "min 16 (unat len - 16 * k)"
  let ?p = "take ?l (drop (16 * k) inp)"
  have lX: "length X = unat len" using X ctr L by simp
  have "i \<le> len" using i k by (simp add: word_le_nat_alt)
  then have bl: "unat (if len - i < 16 then len - i else 16) = ?l"
    using i by (auto simp: word_less_nat_alt unat_sub_small word_le_nat_alt)
  have ks: "crypto_aes_encrypt_block c ((aes_gcm_inc32 ^^ k) counter) 0 (replicate 16 0) 0 = Some ?ks"
    using crypto_aes_encrypt_block_eq [OF ok, of 0 "(aes_gcm_inc32 ^^ k) counter"] ctr
    by (simp add: memcpy_whole length_aes_E)
  have p: "memcpy (replicate 16 0) 0 inp (16 * k) ?l = Some (?p @ replicate (16 - ?l) 0)"
    using k L by (auto simp: memcpy_def)
  have "take ?l (drop (16 * k) X) = xor_bytes ?p (take ?l (take 16 (drop (16 * k)
      (ctr_stream (aes_E c) counter ((unat len + 15) div 16)))))"
    using L k unfolding X gcm_ctr_def
    by (simp add: take_xor_bytes drop_xor_bytes drop_take take_take)
  also have "\<dots> = xor_bytes ?p (take ?l ?ks)" using aes.ctr_stream_chunk [OF ctr, of k] k by simp
  finally have w: "take ?l (drop (16 * k) X) = take ?l (xor_bytes (?p @ replicate (16 - ?l) 0) ?ks)"
    using k L by (simp add: take_xor_bytes)
  have "memcpy (take (16 * k) X @ drop (16 * k) out) (16 * k) (xor_bytes (?p @ replicate (16 - ?l) 0) ?ks) 0 ?l =
     Some (take (16 * k + ?l) X @ drop (16 * k + ?l) out)"
    using k L lX ctr length_aes_E [of "(aes_gcm_inc32 ^^ k) counter" c]
    by (simp add: memcpy_def w [symmetric] take_add add.commute)
  moreover have "16 * k + ?l = min (16 * Suc k) (unat len)" using k by (auto simp: min_def)
  ultimately show ?thesis by (simp add: gcm_ctr_step_def ks i bl p Let_def)
qed

lemma gcm_ctr_loop_eq:
  assumes ok: "aes_ctx_ok c" and ctr: "length counter = 16"
    and L: "unat len \<le> length inp" "unat len \<le> length out" "unat len \<le> 2 ^ 32 - 16"
  shows "\<exists>counter'. for16 (gcm_ctr_step c (Some inp) len) 0 len (counter, out) =
    Some (counter', gcm_ctr c counter (take (unat len) inp) @ drop (unat len) out)"
proof -
  define X where "X = gcm_ctr c counter (take (unat len) inp)"
  let ?m = "\<lambda>k. min (16 * k) (unat len)"
  let ?s = "\<lambda>k. ((aes_gcm_inc32 ^^ k) counter, take (?m k) X @ drop (?m k) out)"
  have "gcm_ctr_step c (Some inp) len (of_nat (16 * k)) (?s k) = Some (?s (Suc k))" if k: "16 * k < unat len" for k
    using gcm_ctr_step_eq [OF ok ctr L(1,2) k unat_of_nat_16 [OF k] X_def] k by (simp add: min_def)
  from for16_seq [OF L(3), of "gcm_ctr_step c (Some inp) len" ?s, OF this]
  have "for16 (gcm_ctr_step c (Some inp) len) 0 len (?s 0) = Some (?s ((unat len + 15) div 16))" by simp
  moreover have "?m ((unat len + 15) div 16) = unat len" by (intro min_absorb2) linarith
  moreover have "length X = unat len" using ctr L by (simp add: X_def)
  ultimately show ?thesis by (simp add: X_def)
qed

lemma length_gcm_mult_bits:
  assumes "length z = 16" "length v = 16"
  shows "length (fst (foldl (gcm_mult_bit a) (z, v) ns)) = 16"
  using assms by (induction ns arbitrary: z v) (simp_all add: gcm_mult_bit_def)

lemma length_aes_gcm_gf_mult [simp]: "length h = 16 \<Longrightarrow> length (aes_gcm_gf_mult a h) = 16"
  by (simp add: aes_gcm_gf_mult_def length_gcm_mult_bits)

text \<open>GHASH as a fold over the zero-padded blocks.\<close>

definition ghash_block :: "u8 list \<Rightarrow> nat \<Rightarrow> u8 list" where
  "ghash_block m k = (let b = take 16 (drop (16 * k) m) in b @ replicate (16 - length b) 0)"

definition ghash_spec :: "u8 list \<Rightarrow> u8 list \<Rightarrow> u8 list" where
  "ghash_spec h m = foldl (\<lambda>y b. aes_gcm_gf_mult (xor_bytes y b) h) (replicate 16 0)
     (map (ghash_block m) [0..<(length m + 15) div 16])"

lemma aes_gcm_ghash_eq:
  assumes L: "unat len \<le> length d" "unat len \<le> 2 ^ 32 - 16"
  shows "aes_gcm_ghash h d len = Some (ghash_spec h (take (unat len) d))"
proof -
  let ?m = "take (unat len) d"
  let ?s = "\<lambda>k. foldl (\<lambda>y b. aes_gcm_gf_mult (xor_bytes y b) h) (replicate 16 0) (map (ghash_block ?m) [0..<k])"
  have "ghash_step h d len (of_nat (16 * k)) (?s k) = Some (?s (Suc k))" if k: "16 * k < unat len" for k
  proof -
    let ?i = "of_nat (16 * k) :: u32"
    have i: "unat ?i = 16 * k" by (rule unat_of_nat_16 [OF k])
    have "?i \<le> len" using i k by (simp add: word_le_nat_alt)
    then have bl: "unat (if len - ?i < 16 then len - ?i else 16) = min 16 (unat len - 16 * k)"
      using i by (auto simp: word_less_nat_alt unat_sub_small word_le_nat_alt)
    have "memcpy (replicate 16 0) 0 d (16 * k) (min 16 (unat len - 16 * k)) = Some (ghash_block ?m k)"
      using k L by (auto simp: memcpy_def ghash_block_def Let_def drop_take min_def)
    then show ?thesis using i bl by (simp add: ghash_step_def Let_def del: of_nat_mult)
  qed
  from for16_seq [OF L(2), of "ghash_step h d len" ?s, OF this] show ?thesis
    using L by (simp add: aes_gcm_ghash_def ghash_spec_def)
qed

lemma length_ghash_fold:
  "length h = 16 \<Longrightarrow> length y = 16 \<Longrightarrow> length (foldl (\<lambda>y b. aes_gcm_gf_mult (xor_bytes y b) h) y bs) = 16"
  by (induction bs arbitrary: y) simp_all

lemma length_ghash_spec [simp]: "length h = 16 \<Longrightarrow> length (ghash_spec h m) = 16"
  by (simp add: ghash_spec_def length_ghash_fold)

text \<open>The tag the code computes; \<open>j0\<close> is the pre-counter block.\<close>

definition gcm_tag_val :: "crypto_aes_ctx \<Rightarrow> u8 list \<Rightarrow> u8 list \<Rightarrow> u32 \<Rightarrow> u8 list \<Rightarrow> u32 \<Rightarrow> u8 list" where
  "gcm_tag_val c j0 A aad_len C len =
     (let h = aes_E c (replicate 16 0);
          s0 = (if A = [] then replicate 16 0 else ghash_spec h A);
          s1 = (if C = [] then s0 else aes_gcm_gf_mult (xor_bytes s0 (ghash_spec h C)) h);
          lb = be64_bytes (ucast (aad_len * 8) :: u64) @ be64_bytes (ucast (len * 8) :: u64)
      in xor_bytes (aes_gcm_gf_mult (xor_bytes s1 lb) h) (aes_E c j0))"

definition aad_bytes :: "u8 list ptr \<Rightarrow> u32 \<Rightarrow> u8 list" where
  "aad_bytes aad n = (case aad of None \<Rightarrow> [] | Some a \<Rightarrow> take (unat n) a)"

definition aad_fits :: "u8 list ptr \<Rightarrow> u32 \<Rightarrow> bool" where
  "aad_fits aad n = (case aad of None \<Rightarrow> True | Some a \<Rightarrow> unat n \<le> length a \<and> unat n \<le> 2 ^ 32 - 16)"

lemma length_gcm_tag_val [simp]: "length j0 = 16 \<Longrightarrow> length (gcm_tag_val c j0 A al C len) = 16"
  by (simp add: gcm_tag_val_def Let_def length_aes_E)

lemma aes_block_fresh:
  "aes_ctx_ok c \<Longrightarrow> length b = 16 \<Longrightarrow> crypto_aes_encrypt_block c b 0 (replicate 16 0) 0 = Some (aes_E c b)"
  using crypto_aes_encrypt_block_eq [of c 0 b "replicate 16 0" 0] by (simp add: memcpy_whole length_aes_E)

lemma gcm_tag_eq:
  assumes ok: "aes_ctx_ok c" and j0: "length j0 = 16" and aad: "aad_fits aad al"
    and L: "unat len \<le> length ct" "unat len \<le> 2 ^ 32 - 16"
  shows "gcm_tag c (aes_E c (replicate 16 0)) j0 aad al ct len =
    Some (gcm_tag_val c j0 (aad_bytes aad al) al (take (unat len) ct) len)"
proof -
  let ?h = "aes_E c (replicate 16 0)"
  have A: "(case aad of Some a \<Rightarrow> if 0 < al then aes_gcm_ghash ?h a al else Some (replicate 16 0)
          | None \<Rightarrow> Some (replicate 16 0)) =
      Some (if aad_bytes aad al = [] then replicate 16 0 else ghash_spec ?h (aad_bytes aad al))"
    using aad by (cases aad) (auto simp: aad_bytes_def aad_fits_def aes_gcm_ghash_eq word_less_nat_alt unat_eq_0)
  have C: "(0 < len) = (take (unat len) ct \<noteq> [])" using L by (auto simp: word_less_nat_alt unat_eq_0 unat_gt_0)
  show ?thesis unfolding gcm_tag_def A C
    using L by (simp add: gcm_tag_val_def aes_gcm_ghash_eq aes_block_fresh [OF ok j0] Let_def)
qed

text \<open>The pre-counter block of encryption, for every length of the initialisation vector.\<close>

definition gcm_j0_val :: "crypto_aes_ctx \<Rightarrow> u8 list \<Rightarrow> u32 \<Rightarrow> u8 list" where
  "gcm_j0_val c iv iv_len =
     (let h = aes_E c (replicate 16 0) in
      if iv_len = 12 then take 12 iv @ [0, 0, 0, 1]
      else aes_gcm_gf_mult (xor_bytes (aes_gcm_gf_mult (ghash_spec h (take (unat iv_len) iv)) h)
             (replicate 8 0 @ be64_bytes (ucast (iv_len * 8) :: u64))) h)"

lemma gcm_j0_12: "12 \<le> length iv \<Longrightarrow>
    Option.bind (memcpy (replicate 16 0) 0 iv 0 12) (\<lambda>j. Some (j[15 := 1])) = Some (take 12 iv @ [0, 0, 0, 1 :: u8])"
  by (simp add: memcpy_def list_update_append numeral_eq_Suc)

lemma gcm_j0_eq:
  assumes "unat iv_len \<le> length iv" "unat iv_len \<le> 2 ^ 32 - 16"
  shows "gcm_j0 (aes_E c (replicate 16 0)) iv iv_len = Some (gcm_j0_val c iv iv_len)"
  using assms gcm_j0_12 [of iv] by (auto simp: gcm_j0_def gcm_j0_val_def Let_def aes_gcm_ghash_eq)

lemma length_gcm_j0_val [simp]: "unat iv_len \<le> length iv \<Longrightarrow> length (gcm_j0_val c iv iv_len) = 16"
  by (auto simp: gcm_j0_val_def Let_def length_aes_E)

abbreviation gcm_fits :: "u32 \<Rightarrow> u8 list \<Rightarrow> bool" where
  "gcm_fits n xs \<equiv> unat n \<le> length xs \<and> unat n \<le> 2 ^ 32 - 16"

lemma crypto_aes_gcm_encrypt_eq:
  assumes ok: "aes_ctx_ok c" and iv: "gcm_fits iv_len iv" and aad: "aad_fits aad al"
    and L: "gcm_fits len pt" "unat len \<le> length ct" and tag: "16 \<le> length tag"
  shows "crypto_aes_gcm_encrypt (Some c) (Some iv) iv_len aad al (Some pt) len (Some ct) (Some tag) =
   (let j0 = gcm_j0_val c iv iv_len; C = gcm_ctr c (aes_gcm_inc32 j0) (take (unat len) pt)
    in Some (CRYPTO_SUCCESS, Some (C @ drop (unat len) ct),
             Some (gcm_tag_val c j0 (aad_bytes aad al) al C len @ drop 16 tag)))"
proof -
  let ?j0 = "gcm_j0_val c iv iv_len" and ?h = "aes_E c (replicate 16 0)"
  let ?C = "gcm_ctr c (aes_gcm_inc32 ?j0) (take (unat len) pt)"
  have j: "length ?j0 = 16" using iv by simp
  have h: "crypto_aes_encrypt_block c (replicate 16 0) 0 (replicate 16 0) 0 = Some ?h" by (rule aes_block_fresh [OF ok]) simp
  obtain counter' where loop: "for16 (gcm_ctr_step c (Some pt) len) 0 len (aes_gcm_inc32 ?j0, ct) =
      Some (counter', ?C @ drop (unat len) ct)"
    using gcm_ctr_loop_eq [OF ok, of "aes_gcm_inc32 ?j0" len pt ct] j L by auto
  have lC: "length ?C = unat len" using j L by simp
  have "gcm_tag c ?h ?j0 aad al (?C @ drop (unat len) ct) len =
      Some (gcm_tag_val c ?j0 (aad_bytes aad al) al ?C len)"
    using gcm_tag_eq [OF ok j aad, of len "?C @ drop (unat len) ct"] L lC by simp
  then show ?thesis
    using iv j tag by (simp add: crypto_aes_gcm_encrypt_def h gcm_j0_eq loop Let_def memcpy_def)
qed

lemma gcm_decrypt_j0_eq:
  "(iv_len = 12 \<Longrightarrow> 12 \<le> length iv) \<Longrightarrow>
   gcm_decrypt_j0 iv iv_len = Some (if iv_len = 12 then take 12 iv @ [0, 0, 0, 1] else replicate 16 0)"
  using gcm_j0_12 [of iv] by (auto simp: gcm_decrypt_j0_def)

definition gcm_candidate :: "crypto_aes_ctx \<Rightarrow> u8 list \<Rightarrow> u32 \<Rightarrow> u8 list \<Rightarrow> u8 list" where
  "gcm_candidate c iv iv_len m =
     gcm_ctr c (aes_gcm_inc32 (if iv_len = 12 then take 12 iv @ [0, 0, 0, 1] else replicate 16 0)) m"

lemma length_gcm_candidate [simp]: "(iv_len = 12 \<Longrightarrow> 12 \<le> length iv) \<Longrightarrow> length (gcm_candidate c iv iv_len m) = length m"
  by (simp add: gcm_candidate_def)

lemma crypto_aes_gcm_decrypt_eq:
  assumes ok: "aes_ctx_ok c" and iv: "gcm_fits iv_len iv" and aad: "aad_fits aad al"
    and L: "gcm_fits len ct" "unat len \<le> length pt" and tag: "16 \<le> length tag"
  shows "crypto_aes_gcm_decrypt (Some c) (Some iv) iv_len aad al (Some ct) len (Some tag) (Some pt) =
   (let P = gcm_candidate c iv iv_len (take (unat len) ct);
        j0 = gcm_j0_val c iv iv_len; C = gcm_ctr c (aes_gcm_inc32 j0) P;
        T = gcm_tag_val c j0 (aad_bytes aad al) al C len; ct' = C @ drop (unat len) ct
    in Some (if take 16 tag = T then (CRYPTO_SUCCESS, Some ct', Some (P @ drop (unat len) pt))
             else (CRYPTO_ERROR_VERIFICATION_FAILED, Some ct', Some pt)))"
proof -
  let ?jd = "if iv_len = 12 then take 12 iv @ [0, 0, 0, 1] else replicate 16 0"
  let ?P = "gcm_candidate c iv iv_len (take (unat len) ct)" and ?j0 = "gcm_j0_val c iv iv_len"
  let ?C = "gcm_ctr c (aes_gcm_inc32 ?j0) ?P"
  let ?T = "gcm_tag_val c ?j0 (aad_bytes aad al) al ?C len"
  have i12: "iv_len = 12 \<Longrightarrow> 12 \<le> length iv" using iv by auto
  have jd: "length ?jd = 16" using i12 by auto
  have h: "crypto_aes_encrypt_block c (replicate 16 0) 0 (replicate 16 0) 0 = Some (aes_E c (replicate 16 0))"
    by (rule aes_block_fresh [OF ok]) simp
  obtain counter' where loop: "for16 (gcm_ctr_step c (Some ct) len) 0 len (aes_gcm_inc32 ?jd, replicate (unat len) 0) =
      Some (counter', ?P)"
    using gcm_ctr_loop_eq [OF ok, of "aes_gcm_inc32 ?jd" len ct "replicate (unat len) 0"] jd L
    unfolding gcm_candidate_def by auto
  have P: "length ?P = unat len" using length_gcm_candidate [OF i12] L by simp
  have enc: "crypto_aes_gcm_encrypt (Some c) (Some iv) iv_len aad al (Some ?P) len (Some ct) (Some (replicate 16 0)) =
      Some (CRYPTO_SUCCESS, Some (?C @ drop (unat len) ct), Some ?T)"
    using crypto_aes_gcm_encrypt_eq [OF ok iv aad, of len ?P ct "replicate 16 0"] P L by (simp add: Let_def)
  have T: "length ?T = 16" using iv by simp
  obtain r where r: "crypto_memcmp_constant_time tag ?T 16 = Some r" "r = 0 \<longleftrightarrow> take 16 tag = ?T"
    using crypto_memcmp_constant_time_eq [of 16 tag ?T] tag T by auto
  show ?thesis
    unfolding crypto_aes_gcm_decrypt_def
    using h gcm_decrypt_j0_eq [OF i12] loop enc r P L by (simp add: Let_def memcpy_def)
qed

section \<open>Properties\<close>

text \<open>C14: with a 12-byte initialisation vector GCM decryption recovers what GCM encryption was given:
  the ciphertext and tag that \<open>crypto_aes_gcm_encrypt\<close> wrote are accepted, the plaintext comes
  back, and the ciphertext buffer, which decryption overwrites, ends with the same contents.\<close>

theorem gcm_roundtrip:
  assumes "aes_ctx_ok c" and "12 \<le> length iv" and "aad_fits aad al"
    and "gcm_fits len pt" and "unat len \<le> length ct" and "unat len \<le> length out" and "16 \<le> length tag"
  shows "\<exists>ct' tag'. crypto_aes_gcm_encrypt (Some c) (Some iv) 12 aad al (Some pt) len (Some ct) (Some tag) =
       Some (CRYPTO_SUCCESS, Some ct', Some tag') \<and>
     drop (unat len) ct' = drop (unat len) ct \<and>
     crypto_aes_gcm_decrypt (Some c) (Some iv) 12 aad al (Some ct') len (Some tag') (Some out) =
       Some (CRYPTO_SUCCESS, Some ct', Some (take (unat len) pt @ drop (unat len) out))"
proof -
  let ?j0 = "gcm_j0_val c iv 12"
  let ?C = "gcm_ctr c (aes_gcm_inc32 ?j0) (take (unat len) pt)"
  let ?T = "gcm_tag_val c ?j0 (aad_bytes aad al) al ?C len"
  have iv: "gcm_fits 12 iv" using assms(2) by simp
  have j: "length ?j0 = 16" "?j0 = take 12 iv @ [0, 0, 0, 1]"
    using assms(2) by (simp_all add: gcm_j0_val_def Let_def)
  have C: "length ?C = unat len" using j(1) assms(4) by simp
  have "gcm_candidate c iv 12 m = gcm_ctr c (aes_gcm_inc32 ?j0) m" for m by (simp add: gcm_candidate_def j(2))
  then have cand: "gcm_candidate c iv 12 ?C = take (unat len) pt" by (simp add: gcm_ctr_twice j(1))
  have T: "length ?T = 16" using j(1) by simp
  define ct' where "ct' = ?C @ drop (unat len) ct"
  define tag' where "tag' = ?T @ drop 16 tag"
  have enc: "crypto_aes_gcm_encrypt (Some c) (Some iv) 12 aad al (Some pt) len (Some ct) (Some tag) =
      Some (CRYPTO_SUCCESS, Some ct', Some tag')"
    unfolding crypto_aes_gcm_encrypt_eq [OF assms(1) iv assms(3,4,5,7)] Let_def ct'_def tag'_def ..
  have t: "take (unat len) ct' = ?C" "drop (unat len) ct' = drop (unat len) ct" "take 16 tag' = ?T"
    "gcm_fits len ct'" "16 \<le> length tag'"
    using C T assms(4,5) by (simp_all add: ct'_def tag'_def)
  have "crypto_aes_gcm_decrypt (Some c) (Some iv) 12 aad al (Some ct') len (Some tag') (Some out) =
       Some (CRYPTO_SUCCESS, Some ct', Some (take (unat len) pt @ drop (unat len) out))"
    unfolding crypto_aes_gcm_decrypt_eq [OF assms(1) iv assms(3) t(4) assms(6) t(5)] Let_def t cand ct'_def [symmetric]
    by simp
  with enc t show ?thesis by blast
qed

theorem gcm_roundtrip_witness:
  "\<exists>ct' tag'. crypto_aes_gcm_encrypt (Some \<lparr>key_schedule = replicate 60 7, rounds = 14\<rparr>) (Some (replicate 12 1)) 12
       None 0 (Some (replicate 21 5)) 21 (Some (replicate 21 0)) (Some (replicate 16 0)) =
       Some (CRYPTO_SUCCESS, Some ct', Some tag') \<and>
     crypto_aes_gcm_decrypt (Some \<lparr>key_schedule = replicate 60 7, rounds = 14\<rparr>) (Some (replicate 12 1)) 12
       None 0 (Some ct') 21 (Some tag') (Some (replicate 21 0)) =
       Some (CRYPTO_SUCCESS, Some ct', Some (replicate 21 5))"
  using gcm_roundtrip [of "\<lparr>key_schedule = replicate 60 7, rounds = 14\<rparr>" "replicate 12 1" None 0 21
      "replicate 21 5" "replicate 21 0" "replicate 21 0" "replicate 16 0"]
  by (auto simp: aes_ctx_ok_def aad_fits_def)

text \<open>C15: \<open>crypto_aes_gcm_decrypt\<close> releases plaintext exactly when the given tag equals the tag that
  \<open>crypto_aes_gcm_encrypt\<close> computes for the candidate plaintext; otherwise it reports
  \<open>CRYPTO_ERROR_VERIFICATION_FAILED\<close> and leaves the plaintext buffer untouched. The candidate is the
  ciphertext exclusive-or the key stream that starts behind the 12-byte initialisation vector, and
  for every other length of the vector behind the all-zero block, whatever the vector is.\<close>

theorem gcm_decrypt_authenticates:
  assumes "aes_ctx_ok c" and "gcm_fits iv_len iv" and "aad_fits aad al"
    and "gcm_fits len ct" and "unat len \<le> length pt" and "16 \<le> length tag"
  defines "P \<equiv> gcm_candidate c iv iv_len (take (unat len) ct)"
  shows "\<exists>ct' T. crypto_aes_gcm_encrypt (Some c) (Some iv) iv_len aad al (Some P) len (Some ct) (Some (replicate 16 0)) =
      Some (CRYPTO_SUCCESS, Some ct', Some T) \<and>
    crypto_aes_gcm_decrypt (Some c) (Some iv) iv_len aad al (Some ct) len (Some tag) (Some pt) =
      Some (if take 16 tag = T then (CRYPTO_SUCCESS, Some ct', Some (P @ drop (unat len) pt))
            else (CRYPTO_ERROR_VERIFICATION_FAILED, Some ct', Some pt))"
proof -
  have "iv_len = 12 \<Longrightarrow> 12 \<le> length iv" using assms(2) by auto
  then have "length P = unat len" using assms(4) by (simp add: P_def)
  then show ?thesis
    using crypto_aes_gcm_encrypt_eq [OF assms(1,2,3), of len P ct "replicate 16 0"]
      crypto_aes_gcm_decrypt_eq [OF assms(1-6)] assms(4) by (simp add: Let_def P_def [symmetric])
qed

theorem gcm_decrypt_authenticates_witness:
  "let c = \<lparr>key_schedule = replicate 60 7, rounds = 14\<rparr>; P = gcm_candidate c (replicate 16 1) 16 (take (unat (21 :: u32)) (replicate 21 0))
   in \<exists>ct' T. crypto_aes_gcm_decrypt (Some c) (Some (replicate 16 1)) 16
       None 0 (Some (replicate 21 0)) 21 (Some (replicate 16 3)) (Some (replicate 21 0)) =
      Some (if take 16 (replicate 16 (3 :: u8)) = T
        then (CRYPTO_SUCCESS, Some ct', Some (P @ drop (unat (21 :: u32)) (replicate 21 0)))
        else (CRYPTO_ERROR_VERIFICATION_FAILED, Some ct', Some (replicate 21 0)))"
proof -
  let ?c = "\<lparr>key_schedule = replicate 60 7, rounds = 14\<rparr> :: crypto_aes_ctx"
  have ok: "aes_ctx_ok ?c" by (simp add: aes_ctx_ok_def)
  have iv: "gcm_fits 16 (replicate 16 1)" and ct: "gcm_fits 21 (replicate 21 0)" and aad: "aad_fits None 0"
    by (simp_all add: aad_fits_def)
  have pt: "unat (21 :: u32) \<le> length (replicate 21 (0 :: u8))" and tag: "16 \<le> length (replicate 16 (3 :: u8))"
    by simp_all
  show ?thesis unfolding Let_def using gcm_decrypt_authenticates [OF ok iv aad ct pt tag] by blast
qed
end
