(* ===== verification/Hmac_Kdf.thy ===== *)
theory Hmac_Kdf
  imports Sha256
begin

text \<open>
  Keyed hashing and key derivation: \<open>crypto_hmac_sha256\<close> and \<open>crypto_pbkdf2_sha256\<close> of
  \<^verbatim>\<open>security/crypto.c\<close> and the older \<open>hmac_sha256\<close> of \<^verbatim>\<open>security/hmac.c\<close>. Both
  are clients of the hash: the locale \<open>hash_function\<close> is what they rely on, and they are
  compared with the HMAC of RFC 2104 and the PBKDF2 of RFC 8018 over the digest the code computes.
\<close>

section \<open>The code\<close>

text \<open>A \<^verbatim>\<open>memcpy\<close> whose source may be a null pointer: only a copy of no bytes is defined then.\<close>

definition memcpy_ptr :: "'a list \<Rightarrow> nat \<Rightarrow> 'a list ptr \<Rightarrow> nat \<Rightarrow> 'a list cmem" where
  [mem_simps]: "memcpy_ptr dst off src n =
     (case src of None \<Rightarrow> if n = 0 then Some dst else None | Some s \<Rightarrow> memcpy dst off s 0 n)"

text \<open>Two updates and a final on a fresh local context; their status codes are ignored.\<close>

definition sha256_two_parts ::
  "u8 list ptr \<Rightarrow> u32 \<Rightarrow> u8 list ptr \<Rightarrow> u32 \<Rightarrow> u8 list ptr \<Rightarrow> u8 list ptr cmem" where
  "sha256_two_parts d1 n1 d2 n2 out = do {
     (_, c1) \<leftarrow> crypto_sha256_update (snd (crypto_sha256_init (Some sha256_init_ctx))) d1 n1;
     (_, c2) \<leftarrow> crypto_sha256_update c1 d2 n2;
     (_, _, out') \<leftarrow> crypto_sha256_final c2 out;
     Some out'
   }"

definition crypto_hmac_sha256 ::
  "u8 list ptr \<Rightarrow> u32 \<Rightarrow> u8 list ptr \<Rightarrow> u32 \<Rightarrow> u8 list ptr \<Rightarrow> u8 list ptr cmem" where
  "crypto_hmac_sha256 key key_len data data_len mac = do {
     k_pad \<leftarrow> (if 64 < key_len then sha256_hash key key_len (Some (replicate 64 0))
               else map_option Some (memcpy_ptr (replicate 64 0) 0 key (unat key_len)));
     let k_ipad = map (\<lambda>b. b XOR 0x36) (the k_pad);
     inner_hash \<leftarrow> sha256_two_parts (Some k_ipad) 64 data data_len (Some (replicate 32 0));
     let k_opad = map (\<lambda>b. b XOR (0x36 XOR 0x5c)) k_ipad;
     sha256_two_parts (Some k_opad) 64 inner_hash 32 mac
   }"

text \<open>
  \<open>hmac_sha256\<close> of \<^verbatim>\<open>security/hmac.c\<close> assembles both messages in one stack buffer of
  64+1024 bytes; the lengths are signed and are passed on as \<open>uint32_t\<close>.
\<close>

definition hmac_sha256 :: "u8 list \<Rightarrow> int \<Rightarrow> u8 list \<Rightarrow> int \<Rightarrow> u8 list \<Rightarrow> u8 list cmem" where
  "hmac_sha256 key keylen data datalen out = do {
     (key', keylen') \<leftarrow>
       (if 64 < keylen
        then do { tk \<leftarrow> sha256_hash (Some key) (of_int keylen) (Some (replicate 32 0)); Some (the tk, 32) }
        else Some (key, keylen));
     let k = take (nat keylen') key';
     _ \<leftarrow> (if nat keylen' \<le> length key' then Some () else None);
     let k_ipad = xor_bytes (replicate 64 0x36) (k @ replicate (64 - length k) 0);
     let k_opad = xor_bytes (replicate 64 0x5c) (k @ replicate (64 - length k) 0);
     buf1 \<leftarrow> memcpy (replicate 1088 0) 0 k_ipad 0 64;
     _ \<leftarrow> (if 0 \<le> datalen then Some () else None);
     buf2 \<leftarrow> memcpy buf1 64 data 0 (nat datalen);
     inner \<leftarrow> sha256_hash (Some buf2) (of_int (64 + datalen)) (Some (replicate 32 0));
     buf3 \<leftarrow> memcpy buf2 0 k_opad 0 64;
     buf4 \<leftarrow> memcpy buf3 64 (the inner) 0 32;
     res \<leftarrow> sha256_hash (Some buf4) (64 + 32) (Some out);
     Some (the res)
   }"

text \<open>
  The inner loop of PBKDF2 compares a 32-bit counter with \<open>iterations\<close>, so it has no result when
  \<open>iterations\<close> is the largest 32-bit value.
\<close>

partial_function (option) pbkdf2_iterate ::
  "u8 list ptr \<Rightarrow> u32 \<Rightarrow> u32 \<Rightarrow> u32 \<Rightarrow> u8 list \<Rightarrow> u8 list \<Rightarrow> u8 list cmem" where
  "pbkdf2_iterate password password_len iterations i u f =
     (if i \<le> iterations
      then Option.bind (crypto_hmac_sha256 password password_len (Some u) 32 (Some u))
             (\<lambda>u'. pbkdf2_iterate password password_len iterations (i + 1) (the u')
                     (xor_bytes f (the u')))
      else Some f)"

definition pbkdf2_block ::
  "u8 list \<Rightarrow> u32 \<Rightarrow> u8 list \<Rightarrow> u32 \<Rightarrow> u32 \<Rightarrow> u32 \<Rightarrow> u8 list cmem" where
  "pbkdf2_block password password_len salt salt_len iterations block = do {
     sb \<leftarrow> memcpy (replicate (unat (salt_len + 4)) 0) 0 salt 0 (unat salt_len);
     salt_block \<leftarrow> memcpy sb (unat salt_len) (be32_bytes block) 0 4;
     u \<leftarrow> crypto_hmac_sha256 (Some password) password_len (Some salt_block) (salt_len + 4)
            (Some (replicate 32 0));
     pbkdf2_iterate (Some password) password_len iterations 2 (the u) (the u)
   }"

text \<open>
  The outer loop visits the blocks \<open>1, \<dots>, blocks_needed\<close>; \<open>blocks_needed\<close> is at most \<open>2^27\<close>, so
  its counter does not wrap. \<open>key_len\<close> counts down the bytes still to be produced.
\<close>

definition pbkdf2_copy_len :: "u32 \<Rightarrow> u32 \<Rightarrow> u32 \<Rightarrow> u32" where
  "pbkdf2_copy_len blocks_needed block key_len =
     (if block = blocks_needed \<and> key_len mod 32 \<noteq> 0 then key_len mod 32
      else if key_len < 32 then key_len else 32)"

fun pbkdf2_blocks ::
  "(u32 \<Rightarrow> u8 list cmem) \<Rightarrow> u32 \<Rightarrow> u32 list \<Rightarrow> u32 \<Rightarrow> u8 list \<Rightarrow> u8 list cmem" where
  "pbkdf2_blocks body blocks_needed [] key_len derived_key = Some derived_key"
| "pbkdf2_blocks body blocks_needed (block # bs) key_len derived_key = do {
     f \<leftarrow> body block;
     let copy_len = pbkdf2_copy_len blocks_needed block key_len;
     dk \<leftarrow> memcpy derived_key (unat ((block - 1) * 32)) f 0 (unat copy_len);
     pbkdf2_blocks body blocks_needed bs (key_len - copy_len) dk
   }"

definition crypto_pbkdf2_sha256 ::
  "u8 list ptr \<Rightarrow> u32 \<Rightarrow> u8 list ptr \<Rightarrow> u32 \<Rightarrow> u32 \<Rightarrow> u8 list ptr \<Rightarrow> u32 \<Rightarrow>
   (crypto_status \<times> u8 list ptr) cmem" where
  "crypto_pbkdf2_sha256 password password_len salt salt_len iterations derived_key key_len =
     (case (password, salt, derived_key) of
        (Some pw, Some sl, Some dk) \<Rightarrow>
          if iterations = 0 \<or> key_len = 0 then Some (CRYPTO_ERROR_INVALID_PARAM, derived_key)
          else do {
            let blocks_needed = (key_len + 31) div 32;
            dk' \<leftarrow> pbkdf2_blocks (pbkdf2_block pw password_len sl salt_len iterations) blocks_needed
                    (map of_nat [1..<Suc (unat blocks_needed)]) key_len dk;
            Some (CRYPTO_SUCCESS, Some dk')
          }
      | _ \<Rightarrow> Some (CRYPTO_ERROR_INVALID_PARAM, derived_key))"

section \<open>The specifications\<close>

definition hmac_key :: "(u8 list \<Rightarrow> u8 list) \<Rightarrow> u8 list \<Rightarrow> u8 list" where
  "hmac_key H k = (let k' = (if 64 < length k then H k else k) in k' @ replicate (64 - length k') 0)"

definition hmac_spec :: "(u8 list \<Rightarrow> u8 list) \<Rightarrow> u8 list \<Rightarrow> u8 list \<Rightarrow> u8 list" where
  "hmac_spec H k m =
     H (map (\<lambda>b. b XOR 0x5c) (hmac_key H k) @ H (map (\<lambda>b. b XOR 0x36) (hmac_key H k) @ m))"

fun pbkdf2_T :: "(u8 list \<Rightarrow> u8 list) \<Rightarrow> nat \<Rightarrow> u8 list \<Rightarrow> u8 list \<Rightarrow> u8 list" where
  "pbkdf2_T prf 0 u f = f"
| "pbkdf2_T prf (Suc n) u f = pbkdf2_T prf n (prf u) (xor_bytes f (prf u))"

definition pbkdf2_F :: "(u8 list \<Rightarrow> u8 list) \<Rightarrow> u8 list \<Rightarrow> nat \<Rightarrow> nat \<Rightarrow> u8 list" where
  "pbkdf2_F prf salt c i =
     (let u1 = prf (salt @ be32_bytes (of_nat i)) in pbkdf2_T prf (c - 1) u1 u1)"

definition pbkdf2_spec :: "(u8 list \<Rightarrow> u8 list) \<Rightarrow> u8 list \<Rightarrow> nat \<Rightarrow> nat \<Rightarrow> u8 list" where
  "pbkdf2_spec prf salt c klen =
     take klen (concat (map (pbkdf2_F prf salt c) [1..<Suc ((klen + 31) div 32)]))"

section \<open>What the clients need from a hash\<close>

locale hash_function =
  fixes H :: "u8 list \<Rightarrow> u8 list"
  assumes hash_length: "length (H m) = 32"
begin

lemma hmac_key_length: "length (hmac_key H k) = 64"
  by (simp add: hmac_key_def Let_def hash_length)

lemma hmac_length: "length (hmac_spec H k m) = 32"
  by (simp add: hmac_spec_def hash_length)

lemma pbkdf2_T_length: "length f = 32 \<Longrightarrow> length (pbkdf2_T (hmac_spec H k) n u f) = 32"
  by (induction n arbitrary: u f) (simp_all add: hmac_length)

lemma pbkdf2_F_length: "length (pbkdf2_F (hmac_spec H k) salt c i) = 32"
  by (simp add: pbkdf2_F_def Let_def pbkdf2_T_length hmac_length)

lemma pbkdf2_spec_length: "length (pbkdf2_spec (hmac_spec H k) salt c klen) = klen"
proof -
  have "length (concat (map (pbkdf2_F (hmac_spec H k) salt c) [1..<Suc n])) = 32 * n" for n
    by (induction n) (simp_all add: pbkdf2_F_length)
  then show ?thesis by (simp add: pbkdf2_spec_def)
qed

end

interpretation sha: hash_function sha256_code
  by unfold_locales simp

section \<open>HMAC\<close>

abbreviation fits32 :: "u32 \<Rightarrow> 'a list \<Rightarrow> bool" where
  "fits32 n xs \<equiv> unat n \<le> length xs \<and> unat n \<le> 2 ^ 32 - 64"

lemma sha256_two_parts_eq:
  assumes "fits32 n1 d1" and "fits32 n2 d2" and "32 \<le> length out"
  shows "sha256_two_parts (Some d1) n1 (Some d2) n2 (Some out) =
     Some (Some (sha256_code (take (unat n1) d1 @ take (unat n2) d2) @ drop 32 out))"
proof -
  from sha256_update_core_rep [OF sha256_rep_init, of n1 d1] assms(1) obtain c1 where
    c1: "sha256_update_core (\<lambda>_. d1) sha256_init_ctx n1 = Some c1"
    and r1: "sha256_rep c1 (take (unat n1) d1)" by auto
  from sha256_update_core_rep [OF r1, of n2 d2] assms(2) obtain c2 where
    c2: "sha256_update_core (\<lambda>_. d2) c1 n2 = Some c2"
    and r2: "sha256_rep c2 (take (unat n1) d1 @ take (unat n2) d2)" by auto
  from sha256_final_eq [OF r2 assms(3)] c1 c2 show ?thesis
    by (auto simp: sha256_two_parts_def crypto_sha256_update_def crypto_sha256_init_def)
qed

lemma hmac_pad_eq:
  assumes "fits32 n k"
  shows "(if 64 < n then sha256_hash (Some k) n (Some (replicate 64 0))
          else map_option Some (memcpy_ptr (replicate 64 0) 0 (Some k) (unat n))) =
     Some (Some (hmac_key sha256_code (take (unat n) k)))"
proof (cases "64 < n")
  case True
  then have "64 < unat n" by (simp add: word_less_nat_alt)
  with True assms show ?thesis
    by (simp add: sha256_hash_eq hmac_key_def Let_def min_def)
next
  case False
  then have "unat n \<le> 64" by (simp add: word_less_nat_alt)
  with False assms show ?thesis
    by (simp add: memcpy_ptr_def memcpy_def hmac_key_def Let_def min_def)
qed

lemma crypto_hmac_sha256_eq:
  assumes "fits32 kl k" and "fits32 dl d" and "32 \<le> length out"
  shows "crypto_hmac_sha256 (Some k) kl (Some d) dl (Some out) =
     Some (Some (hmac_spec sha256_code (take (unat kl) k) (take (unat dl) d) @ drop 32 out))"
proof -
  let ?k = "hmac_key sha256_code (take (unat kl) k)"
  let ?i = "map (\<lambda>b. b XOR 0x36) ?k" and ?m = "take (unat dl) d"
  have lk: "length ?k = 64" by (rule sha.hmac_key_length)
  have i: "sha256_two_parts (Some ?i) 64 (Some d) dl (Some (replicate 32 0)) =
      Some (Some (sha256_code (?i @ ?m)))"
    using assms(2) lk by (subst sha256_two_parts_eq) simp_all
  have pad: "map (\<lambda>b. b XOR (0x36 XOR 0x5c)) ?i = map (\<lambda>b. b XOR 0x5c) ?k"
    by (simp add: xor.assoc)
  have o: "sha256_two_parts (Some (map (\<lambda>b. b XOR 0x5c) ?k)) 64 (Some (sha256_code (?i @ ?m))) 32 (Some out) =
      Some (Some (hmac_spec sha256_code (take (unat kl) k) ?m @ drop 32 out))"
    using assms(3) lk by (subst sha256_two_parts_eq) (simp_all add: hmac_spec_def)
  show ?thesis unfolding crypto_hmac_sha256_def
    by (simp only: hmac_pad_eq [OF assms(1)] Option.bind.simps Let_def option.sel i pad o)
qed

text \<open>The older routine agrees with it on messages its stack buffer can hold.\<close>

lemma hmac_sha256_eq:
  assumes kl: "0 \<le> keylen" "nat keylen \<le> length key" "keylen \<le> 2 ^ 31 - 1"
    and dl: "0 \<le> datalen" "nat datalen \<le> length data" "datalen \<le> 1024" and out: "32 \<le> length out"
  shows "hmac_sha256 key keylen data datalen out =
     Some (hmac_spec sha256_code (take (nat keylen) key) (take (nat datalen) data) @ drop 32 out)"
proof -
  let ?k = "hmac_key sha256_code (take (nat keylen) key)"
  let ?k1 = "if 64 < keylen then (sha256_code (take (nat keylen) key), 32) else (key, keylen)"
  let ?kk = "take (nat (snd ?k1)) (fst ?k1)" and ?m = "take (nat datalen) data"
  have w: "unat (of_int keylen :: u32) = nat keylen"
    using kl by (intro unat_of_int_small) simp_all
  have "unat (of_int (64 + datalen) :: u32) = nat (64 + datalen)"
    using dl by (intro unat_of_int_small) simp_all
  then have dw: "unat (of_int (64 + datalen) :: u32) = 64 + nat datalen"
    using dl by (simp only:)
  have st: "(if 64 < keylen
        then do { tk \<leftarrow> sha256_hash (Some key) (of_int keylen) (Some (replicate 32 0)); Some (the tk, 32) }
        else Some (key, keylen)) = Some ?k1"
    using kl w by (simp add: sha256_hash_eq)
  have kk: "nat (snd ?k1) \<le> length (fst ?k1)" "?kk @ replicate (64 - length ?kk) 0 = ?k"
    using kl by (auto simp: hmac_key_def Let_def min_def)
  have lk: "length ?k = 64" by (rule sha.hmac_key_length)
  have pads: "xor_bytes (replicate 64 c) ?k = map (\<lambda>b. b XOR c) ?k" for c
    using lk by (simp add: xor_bytes_def zip_replicate1 xor.commute)
  let ?i = "map (\<lambda>b. b XOR 0x36) ?k" and ?o = "map (\<lambda>b. b XOR 0x5c) ?k"
  define tl1 where "tl1 = replicate (1024 - nat datalen) (0::u8)"
  have b1: "memcpy (replicate 1088 0) 0 ?i 0 64 = Some (?i @ replicate 1024 0)"
    using lk by (simp add: memcpy_def)
  have b2: "memcpy (?i @ replicate 1024 0) 64 data 0 (nat datalen) = Some (?i @ ?m @ tl1)"
    using lk dl by (simp add: memcpy_def tl1_def)
  have h1: "sha256_hash (Some (?i @ ?m @ tl1)) (of_int (64 + datalen)) (Some (replicate 32 0)) =
      Some (Some (sha256_code (?i @ ?m)))"
    using lk dl dw by (subst sha256_hash_eq) simp_all
  define tl2 where "tl2 = drop 32 (?m @ tl1)"
  have b3: "memcpy (?i @ ?m @ tl1) 0 ?o 0 64 = Some (?o @ ?m @ tl1)"
    using lk by (simp add: memcpy_def)
  have b4: "memcpy (?o @ ?m @ tl1) 64 (sha256_code (?i @ ?m)) 0 32 = Some (?o @ sha256_code (?i @ ?m) @ tl2)"
    using lk dl by (simp add: memcpy_def tl1_def tl2_def)
  have h2: "sha256_hash (Some (?o @ sha256_code (?i @ ?m) @ tl2)) (64 + 32) (Some out) =
      Some (Some (hmac_spec sha256_code (take (nat keylen) key) ?m @ drop 32 out))"
    using lk out by (subst sha256_hash_eq) (simp_all add: hmac_spec_def)
  show ?thesis unfolding hmac_sha256_def st
    using kk(1) dl(1) by (simp only: Option.bind.simps Let_def split_beta kk(2) pads b1 b2 h1 b3 b4
        option.sel h2 if_True)
qed

section \<open>PBKDF2\<close>

lemma pbkdf2_iterate_eq:
  assumes pw: "fits32 pl pw" and it: "iterations < 2 ^ 32 - 1"
    and i: "unat i \<le> unat iterations + 1" and lu: "length u = 32"
  shows "pbkdf2_iterate (Some pw) pl iterations i u f =
     Some (pbkdf2_T (hmac_spec sha256_code (take (unat pl) pw)) (unat iterations + 1 - unat i) u f)"
  using i lu
proof (induction "unat iterations + 1 - unat i" arbitrary: i u f)
  case 0
  then have "\<not> i \<le> iterations" by (simp add: word_le_nat_alt)
  then show ?case using "0.hyps" by (subst pbkdf2_iterate.simps) simp
next
  case (Suc n)
  let ?u = "hmac_spec sha256_code (take (unat pl) pw) u"
  from it have "unat iterations < 2 ^ 32 - 1" by (simp add: word_less_nat_alt)
  with Suc.hyps(2) have i1: "unat (i + 1) = unat i + 1" by (simp add: unat_add_small)
  have le: "i \<le> iterations" using Suc.hyps(2) by (simp add: word_le_nat_alt)
  have h: "crypto_hmac_sha256 (Some pw) pl (Some u) 32 (Some u) = Some (Some ?u)"
    using pw Suc.prems(2) by (subst crypto_hmac_sha256_eq) simp_all
  have "pbkdf2_iterate (Some pw) pl iterations (i + 1) ?u (xor_bytes f ?u) =
      Some (pbkdf2_T (hmac_spec sha256_code (take (unat pl) pw)) (unat iterations + 1 - unat (i + 1))
        ?u (xor_bytes f ?u))"
    using Suc.hyps(2) Suc.prems i1 by (intro Suc.hyps(1)) (simp_all add: sha.hmac_length)
  moreover have "unat iterations + 1 - unat i = Suc (unat iterations + 1 - unat (i + 1))"
    using Suc.hyps(2) i1 by simp
  ultimately show ?case using le h by (subst pbkdf2_iterate.simps) simp
qed

lemma pbkdf2_block_eq:
  assumes pw: "fits32 pl pw" and sl: "unat sln \<le> length salt" "unat sln \<le> 2 ^ 32 - 68"
    and it: "0 < iterations" "iterations < 2 ^ 32 - 1"
  shows "pbkdf2_block pw pl salt sln iterations b =
     Some (pbkdf2_F (hmac_spec sha256_code (take (unat pl) pw)) (take (unat sln) salt)
       (unat iterations) (unat b))"
proof -
  let ?hm = "hmac_spec sha256_code (take (unat pl) pw)"
  let ?sb = "take (unat sln) salt @ be32_bytes b"
  have l4: "unat (sln + 4) = unat sln + 4" using sl by (simp add: unat_add_small)
  have m1: "memcpy (replicate (unat (sln + 4)) 0) 0 salt 0 (unat sln) =
      Some (take (unat sln) salt @ replicate 4 0)"
    using sl by (simp add: memcpy_def l4)
  have m2: "memcpy (take (unat sln) salt @ replicate 4 0) (unat sln) (be32_bytes b) 0 4 = Some ?sb"
    using sl by (simp add: memcpy_def)
  have h: "crypto_hmac_sha256 (Some pw) pl (Some ?sb) (sln + 4) (Some (replicate 32 0)) =
      Some (Some (?hm ?sb))"
    using pw sl l4 by (subst crypto_hmac_sha256_eq) simp_all
  have i1: "unat iterations + 1 - unat (2 :: u32) = unat iterations - 1" by simp
  have "0 < unat iterations" using it(1) by (simp add: word_less_nat_alt)
  then have i: "pbkdf2_iterate (Some pw) pl iterations 2 (?hm ?sb) (?hm ?sb) =
      Some (pbkdf2_T ?hm (unat iterations - 1) (?hm ?sb) (?hm ?sb))"
    using pbkdf2_iterate_eq [OF pw it(2), of 2 "?hm ?sb" "?hm ?sb"]
    by (simp add: sha.hmac_length)
  show ?thesis unfolding pbkdf2_block_def
    by (simp only: m1 m2 h i Option.bind.simps option.sel pbkdf2_F_def Let_def
        of_nat_unat ucast_id)
qed

text \<open>
  The outer loop fills the key block by block. \<open>pbkdf2_inv K dk F j kl dk'\<close>: after \<open>j\<close> full blocks
  the buffer \<open>dk'\<close> starts with the first \<open>32 j\<close> bytes of the specification, the rest is that of the
  original buffer \<open>dk\<close>, and \<open>kl\<close> bytes are still to come.
\<close>

definition pbkdf2_inv :: "nat \<Rightarrow> u8 list \<Rightarrow> (nat \<Rightarrow> u8 list) \<Rightarrow> nat \<Rightarrow> u32 \<Rightarrow> u8 list \<Rightarrow> bool" where
  "pbkdf2_inv K dk F j kl dk' \<longleftrightarrow>
     unat kl = K - 32 * j \<and> 32 * j \<le> K \<and> dk' = concat (map F [1..<Suc j]) @ drop (32 * j) dk"

lemma concat_blocks32: "(\<And>i. length (F i) = 32) \<Longrightarrow> length (concat (map F [1..<Suc n])) = 32 * n"
  by (induction n) simp_all

lemma pbkdf2_copy_len_last:
  assumes "unat kl = k" and "0 < k" and "k \<le> 32"
  shows "unat (pbkdf2_copy_len bn bn kl) = k"
proof -
  have m: "unat (kl mod 32) = k mod 32" using assms(1) by (simp add: unat_mod)
  then have "kl mod 32 = 0 \<longleftrightarrow> k mod 32 = 0" by (metis unat_eq_zero)
  then show ?thesis using assms m
    by (cases "k = 32") (auto simp: pbkdf2_copy_len_def word_less_nat_alt)
qed

lemma pbkdf2_copy_len_inner:
  "b \<noteq> bn \<Longrightarrow> 32 \<le> unat kl \<Longrightarrow> pbkdf2_copy_len bn b kl = 32"
  by (auto simp: pbkdf2_copy_len_def word_less_nat_alt)

lemma unat_block_no: "Suc j < 2 ^ 32 \<Longrightarrow> unat (of_nat (Suc j) :: u32) = Suc j"
  by (simp add: unat_of_nat del: of_nat_Suc)

lemma unat_block_offset: "32 * j < 2 ^ 32 \<Longrightarrow> unat ((of_nat (Suc j) - 1) * 32 :: u32) = 32 * j"
  by (simp add: unat_word_ariths unat_of_nat)

lemma pbkdf2_blocks_eq:
  assumes body: "\<And>b. body b = Some (F (unat b))" and lF: "\<And>i. length (F i) = 32"
    and K: "K \<le> 2 ^ 32 - 32" "K \<le> length dk"
    and bn: "unat bn = (K + 31) div 32"
    and inv: "pbkdf2_inv K dk F j kl dk'" and jn: "j < unat bn"
  shows "pbkdf2_blocks body bn (map of_nat [Suc j..<Suc (unat bn)]) kl dk' =
     Some (take K (concat (map F [1..<Suc (unat bn)])) @ drop K dk)"
proof -
  have cl: "length (concat (map F [1..<Suc n])) = 32 * n" for n by (rule concat_blocks32) (rule lF)
  show ?thesis using inv jn
proof (induction "unat bn - Suc j" arbitrary: j kl dk')
  case 0
  let ?b = "of_nat (Suc j) :: u32"
  from 0 have j: "Suc j = unat bn" by simp
  have b: "?b = bn" using j unat_block_no [of j] bn K(1) by (intro unat_eqI) simp
  have k: "unat kl = K - 32 * j" "0 < K - 32 * j" "K - 32 * j \<le> 32"
    using "0.prems"(1) j bn by (auto simp: pbkdf2_inv_def)
  have cp: "unat (pbkdf2_copy_len bn bn kl) = K - 32 * j" by (rule pbkdf2_copy_len_last [OF k])
  have off: "unat ((bn - 1) * 32) = 32 * j" using unat_block_offset [of j] K(1) k(2) unfolding b by simp
  have "memcpy dk' (32 * j) (F (Suc j)) 0 (K - 32 * j) =
      Some (concat (map F [1..<Suc j]) @ take (K - 32 * j) (F (Suc j)) @ drop K dk)"
    using "0.prems"(1) K k lF cl [of j] by (simp add: memcpy_def pbkdf2_inv_def)
  moreover have "take K (concat (map F [1..<Suc (Suc j)])) =
      concat (map F [1..<Suc j]) @ take (K - 32 * j) (F (Suc j))"
    using cl [of j] k(2) by simp
  moreover have "[Suc j..<Suc (unat bn)] = [Suc j]" using j by simp
  ultimately show ?case using b off cp body [of bn] j by (simp add: Let_def del: upt_Suc of_nat_Suc)
next
  case (Suc n)
  let ?b = "of_nat (Suc j) :: u32" and ?dk = "concat (map F [1..<Suc (Suc j)]) @ drop (32 * Suc j) dk"
  from Suc.hyps(2) have jn: "Suc j < unat bn" by simp
  then have "Suc (Suc j) \<le> (K + 31) div 32" unfolding bn by simp
  then have jK: "32 * Suc j < K" by (simp add: less_eq_div_iff_mult_less_eq)
  have ub: "unat ?b = Suc j" using unat_block_no [of j] jK K(1) by simp
  have b: "?b \<noteq> bn" using ub jn by auto
  from Suc.prems(1) have k: "unat kl = K - 32 * j" by (simp add: pbkdf2_inv_def)
  have cp: "pbkdf2_copy_len bn ?b kl = 32" using b k jK by (intro pbkdf2_copy_len_inner) simp_all
  have off: "unat ((?b - 1) * 32) = 32 * j" using unat_block_offset [of j] K(1) jK by simp
  have mc: "memcpy dk' (32 * j) (F (Suc j)) 0 32 = Some ?dk"
    using Suc.prems(1) K jK lF cl [of j] by (simp add: memcpy_def pbkdf2_inv_def)
  have "unat (kl - 32) = K - 32 * Suc j" using k jK by (subst unat_sub_small) simp_all
  then have "pbkdf2_inv K dk F (Suc j) (kl - 32) ?dk" using jK by (simp add: pbkdf2_inv_def)
  then have "pbkdf2_blocks body bn (map of_nat [Suc (Suc j)..<Suc (unat bn)]) (kl - 32) ?dk =
        Some (take K (concat (map F [1..<Suc (unat bn)])) @ drop K dk)"
    using Suc.hyps(2) jn by (intro Suc.hyps(1)) simp_all
  moreover have "[Suc j..<Suc (unat bn)] = Suc j # [Suc (Suc j)..<Suc (unat bn)]"
    using jn by (simp add: upt_conv_Cons)
  ultimately show ?case
    using mc off cp ub body [of ?b] by (simp add: Let_def del: upt_Suc of_nat_Suc)
qed
qed

lemma pbkdf2_blocks_needed:
  assumes "unat (kl :: u32) \<le> 2 ^ 32 - 32"
  shows "unat ((kl + 31) div 32) = (unat kl + 31) div 32"
proof -
  have "unat (kl + 31) = unat kl + 31" using assms by (subst unat_add_small) simp_all
  then show ?thesis by (simp add: unat_div)
qed

section \<open>Properties\<close>

text \<open>C27: \<open>crypto_hmac_sha256\<close> is the HMAC construction of RFC 2104 over the digest function of
  \<open>sha256_hash\<close>: keys longer than a block are hashed first, shorter ones zero-padded, and exactly
  32 bytes of the output buffer are written.\<close>

theorem crypto_hmac_is_hmac:
  assumes "fits32 kl k" and "fits32 dl d" and "32 \<le> length out"
  shows "crypto_hmac_sha256 (Some k) kl (Some d) dl (Some out) =
     Some (Some (hmac_spec sha256_code (take (unat kl) k) (take (unat dl) d) @ drop 32 out))"
  by (rule crypto_hmac_sha256_eq [OF assms])

theorem crypto_hmac_is_hmac_witness:
  "crypto_hmac_sha256 (Some (replicate 70 7)) 70 (Some [1, 2, 3]) 2 (Some (replicate 33 9)) =
     Some (Some (hmac_spec sha256_code (replicate 70 7) [1, 2] @ [9]))"
  using crypto_hmac_is_hmac [of 70 "replicate 70 7" 2 "[1, 2, 3]" "replicate 33 9"] by simp

text \<open>the two HMAC routines of the repository agree: whenever the message fits into the
  1024-byte scratch area of \<open>hmac_sha256\<close>, it produces the bytes \<open>crypto_hmac_sha256\<close> produces;
  a longer message overruns that area.\<close>

lemma hmac_routines_agree:
  assumes "0 \<le> kl" "nat kl \<le> length k" "kl \<le> 2 ^ 31 - 1" and "0 \<le> dl" "nat dl \<le> length d"
    and "32 \<le> length out"
  shows "hmac_sha256 k kl d dl out =
     (if dl \<le> 1024
      then map_option the (crypto_hmac_sha256 (Some k) (of_int kl) (Some d) (of_int dl) (Some out))
      else None)"
proof (cases "dl \<le> 1024")
  case True
  have "unat (of_int kl :: u32) = nat kl" "unat (of_int dl :: u32) = nat dl"
    using assms True by (intro unat_of_int_small; simp)+
  then have "crypto_hmac_sha256 (Some k) (of_int kl) (Some d) (of_int dl) (Some out) =
      Some (Some (hmac_spec sha256_code (take (nat kl) k) (take (nat dl) d) @ drop 32 out))"
    using assms True by (subst crypto_hmac_sha256_eq) simp_all
  then show ?thesis using assms True by (simp add: hmac_sha256_eq)
next
  case False
  then have "memcpy b 64 d 0 (nat dl) = None" if "length b = 1088" for b :: "u8 list"
    using that by (simp add: memcpy_def)
  then have "memcpy (replicate 1088 0) 0 i 0 64 = Some b \<Longrightarrow> memcpy b 64 d 0 (nat dl) = None" for i b
    by (auto dest: memcpy_length)
  with False show ?thesis by (auto simp: hmac_sha256_def Let_def bind_eq_None_conv split: bind_split)
qed

text \<open>C29: \<open>crypto_pbkdf2_sha256\<close> terminates and derives the key of RFC 8018 with HMAC as the
  pseudorandom function: \<open>key_len\<close> bytes, also when \<open>key_len\<close> is no multiple of the digest size, the
  bytes behind them untouched. The size bounds are those under which the 32-bit length and counter
  arithmetic does not wrap.\<close>

theorem crypto_pbkdf2_is_pbkdf2:
  assumes "fits32 pl pw" and "unat sl \<le> length salt" "unat sl \<le> 2 ^ 32 - 68"
    and "0 < iterations" "iterations < 2 ^ 32 - 1"
    and "0 < key_len" "unat key_len \<le> 2 ^ 32 - 32" "unat key_len \<le> length dk"
  shows "crypto_pbkdf2_sha256 (Some pw) pl (Some salt) sl iterations (Some dk) key_len =
     Some (CRYPTO_SUCCESS, Some (pbkdf2_spec (hmac_spec sha256_code (take (unat pl) pw))
       (take (unat sl) salt) (unat iterations) (unat key_len) @ drop (unat key_len) dk))"
proof -
  let ?F = "pbkdf2_F (hmac_spec sha256_code (take (unat pl) pw)) (take (unat sl) salt) (unat iterations)"
  let ?bn = "(key_len + 31) div 32"
  have pos: "0 < unat key_len" using assms(6) by (simp add: word_less_nat_alt)
  have bn: "unat ?bn = (unat key_len + 31) div 32" by (rule pbkdf2_blocks_needed [OF assms(7)])
  have "pbkdf2_inv (unat key_len) dk ?F 0 key_len dk" by (simp add: pbkdf2_inv_def)
  moreover have "0 < unat ?bn" using pos by (simp add: bn)
  ultimately have "pbkdf2_blocks (pbkdf2_block pw pl salt sl iterations) ?bn
      (map of_nat [Suc 0..<Suc (unat ?bn)]) key_len dk =
      Some (take (unat key_len) (concat (map ?F [1..<Suc (unat ?bn)])) @ drop (unat key_len) dk)"
    using assms by (intro pbkdf2_blocks_eq pbkdf2_block_eq sha.pbkdf2_F_length bn) simp_all
  moreover have "iterations \<noteq> 0" "key_len \<noteq> 0" using assms(4,6) by auto
  ultimately show ?thesis
    by (simp add: crypto_pbkdf2_sha256_def Let_def pbkdf2_spec_def bn del: upt_Suc)
qed

theorem crypto_pbkdf2_is_pbkdf2_witness:
  "crypto_pbkdf2_sha256 (Some [112, 119]) 2 (Some [1, 2, 3, 4]) 4 3 (Some (replicate 41 0)) 40 =
     Some (CRYPTO_SUCCESS, Some (pbkdf2_spec (hmac_spec sha256_code [112, 119]) [1, 2, 3, 4] 3 40 @ [0]))"
  using crypto_pbkdf2_is_pbkdf2 [of 2 "[112, 119]" 4 "[1, 2, 3, 4]" 3 40 "replicate 41 0"] by simp

end
