(* ===== verification/Crypto_Tests.thy ===== *)
theory Crypto_Tests
  imports Aes_Gcm Hmac_Kdf
begin

text \<open>
  The self-tests and the signature check of \<^verbatim>\<open>security/crypto.c\<close>, and \<^verbatim>\<open>security/secure_boot.c\<close>.
\<close>

section \<open>Self-tests\<close>

definition sha256_test_input :: "u8 list" where
  "sha256_test_input = [0x61, 0x62, 0x63]"

definition sha256_expected_hash :: "u8 list" where
  "sha256_expected_hash =
    [0xba, 0x78, 0x16, 0xbf, 0x8f, 0x01, 0xcf, 0xea, 0x41, 0x41, 0x40, 0xde, 0x5d, 0xae, 0x22, 0x23,
     0xb0, 0x03, 0x61, 0xa3, 0x96, 0x17, 0x7a, 0x9c, 0xb4, 0x10, 0xff, 0x61, 0xf2, 0x00, 0x15, 0xad]"

definition crypto_self_test_sha256 :: "crypto_status cmem" where
  "crypto_self_test_sha256 = do {
     computed_hash \<leftarrow> sha256_hash (Some sha256_test_input) 3 (Some (replicate 32 0));
     r \<leftarrow> crypto_memcmp_constant_time (the computed_hash) sha256_expected_hash 32;
     Some (if r = 0 then CRYPTO_SUCCESS else CRYPTO_ERROR_VERIFICATION_FAILED)
   }"

definition aes_test_key :: "u8 list" where
  "aes_test_key =
    [0x2b, 0x7e, 0x15, 0x16, 0x28, 0xae, 0xd2, 0xa6, 0xab, 0xf7, 0x15, 0x88, 0x09, 0xcf, 0x4f, 0x3c]"

definition aes_test_plaintext :: "u8 list" where
  "aes_test_plaintext =
    [0x32, 0x43, 0xf6, 0xa8, 0x88, 0x5a, 0x30, 0x8d, 0x31, 0x31, 0x98, 0xa2, 0xe0, 0x37, 0x07, 0x34]"

definition aes_test_ciphertext :: "u8 list" where
  "aes_test_ciphertext =
    [0x39, 0x25, 0x84, 0x1d, 0x02, 0xdc, 0x09, 0xfb, 0xdc, 0x11, 0x85, 0x97, 0x19, 0x6a, 0x0b, 0x32]"

text \<open>\<open>ctx0\<close> is the indeterminate content of the local context.\<close>

definition crypto_self_test_aes :: "crypto_aes_ctx \<Rightarrow> crypto_status cmem" where
  "crypto_self_test_aes ctx0 = do {
     (r, ctx) \<leftarrow> crypto_aes_init (Some ctx0) (Some aes_test_key) 128;
     if r \<noteq> CRYPTO_SUCCESS then Some CRYPTO_ERROR_VERIFICATION_FAILED
     else do {
       computed_ciphertext \<leftarrow> crypto_aes_encrypt_block (the ctx) aes_test_plaintext 0 (replicate 16 0) 0;
       c \<leftarrow> crypto_memcmp_constant_time computed_ciphertext aes_test_ciphertext 16;
       Some (if c = 0 then CRYPTO_SUCCESS else CRYPTO_ERROR_VERIFICATION_FAILED)
     }
   }"

definition crypto_run_all_self_tests :: "crypto_aes_ctx \<Rightarrow> crypto_status cmem" where
  "crypto_run_all_self_tests ctx0 = do {
     a \<leftarrow> crypto_self_test_sha256;
     if a \<noteq> CRYPTO_SUCCESS then Some CRYPTO_ERROR_VERIFICATION_FAILED
     else do {
       b \<leftarrow> crypto_self_test_aes ctx0;
       Some (if b \<noteq> CRYPTO_SUCCESS then CRYPTO_ERROR_VERIFICATION_FAILED else CRYPTO_SUCCESS)
     }
   }"

section \<open>Signature verification\<close>

text \<open>One pass over the bytes: \<open>result[j] = (result[j] * base[j]) % mod[j]\<close>, undefined for a zero
  modulus byte.\<close>

fun mod_mult_bytes :: "u8 list \<Rightarrow> u8 list \<Rightarrow> u8 list \<Rightarrow> u8 list cmem" where
  "mod_mult_bytes [] bs ms = Some []"
| "mod_mult_bytes (r # rs) (b # bs) (m # ms) =
     (if m = 0 then None
      else (case mod_mult_bytes rs bs ms of
              None \<Rightarrow> None
            | Some rs' \<Rightarrow> Some (of_nat (unat r * unat b mod unat m) # rs')))"
| "mod_mult_bytes (r # rs) bs ms = None"

fun mod_exp_loop :: "u8 list \<Rightarrow> u8 list \<Rightarrow> u8 list \<Rightarrow> nat list \<Rightarrow> u8 list \<Rightarrow> u8 list cmem" where
  "mod_exp_loop base exp md [] result = Some result"
| "mod_exp_loop base exp md (i # is) result = do {
     e \<leftarrow> peek exp (i div 8);
     sq \<leftarrow> mod_mult_bytes result result md;
     result' \<leftarrow> (if drop_bit (7 - i mod 8) e AND 1 \<noteq> 0 then mod_mult_bytes sq base md else Some sq);
     mod_exp_loop base exp md is result'
   }"

text \<open>Only the first \<open>out_len\<close> bytes of the 512-byte scratch buffer are ever used.\<close>

definition mod_exp :: "u8 list \<Rightarrow> u8 list \<Rightarrow> nat \<Rightarrow> u8 list \<Rightarrow> nat \<Rightarrow> u8 list cmem" where
  "mod_exp base exp exp_len md out_len =
     (if 0 < out_len \<and> out_len \<le> 512
      then mod_exp_loop base exp md [0..<exp_len * 8] ((replicate out_len 0)[out_len - 1 := 1])
      else None)"

text \<open>The DER prefix, one element per row: two sequence headers, the object identifier, the null
  parameters, the header of the digest.\<close>

definition sha256_prefix :: "u8 list" where
  "sha256_prefix = concat
    [[0x30, 0x31], [0x30, 0x0d],
     [0x06, 0x09, 0x60, 0x86, 0x48, 0x01, 0x65, 0x03, 0x04, 0x02, 0x01],
     [0x05, 0x00], [0x04, 0x20]]"

text \<open>The index of the first byte from \<open>i\<close> on that is not \<open>0xFF\<close>, at most 256.\<close>

fun skip_ff :: "u8 list \<Rightarrow> nat \<Rightarrow> nat" where
  "skip_ff [] i = i"
| "skip_ff (b # bs) i = (if b = 0xFF then skip_ff bs (Suc i) else i)"

definition memcmp_at :: "u8 list \<Rightarrow> nat \<Rightarrow> u8 list \<Rightarrow> nat \<Rightarrow> bool cmem" where
  "memcmp_at a i b n =
     (if i + n \<le> length a \<and> n \<le> length b then Some (take n (drop i a) = take n b) else None)"

definition verify_signature :: "u8 list \<Rightarrow> u32 \<Rightarrow> u8 list \<Rightarrow> u8 list \<Rightarrow> int cmem" where
  "verify_signature data len signature public_key = do {
     hash \<leftarrow> sha256_hash (Some data) len (Some (replicate 32 0));
     decrypted \<leftarrow> mod_exp signature (drop 4 public_key) 256 (drop 260 public_key) 256;
     if decrypted ! 0 \<noteq> 0 \<or> decrypted ! 1 \<noteq> 1 then Some 0
     else do {
       let i = skip_ff (drop 2 decrypted) 2;
       d \<leftarrow> peek decrypted i;
       if d \<noteq> 0 then Some 0
       else do {
         p \<leftarrow> memcmp_at decrypted (i + 1) sha256_prefix 19;
         if \<not> p then Some 0
         else do {
           h \<leftarrow> memcmp_at decrypted (i + 20) (the hash) 32;
           Some (if h then 1 else 0)
         }
       }
     }
   }"

definition secure_boot_verify :: "u8 list \<Rightarrow> int \<Rightarrow> u8 list \<Rightarrow> u8 list \<Rightarrow> int cmem" where
  "secure_boot_verify krnl ksize sig pubkey = verify_signature krnl (of_int ksize) sig pubkey"

section \<open>Lemmas\<close>

text \<open>The one block of the test message, compressed once and twice.\<close>

definition sha256_test_block :: "u8 list" where
  "sha256_test_block = sha256_test_input @ sha256_padding sha256_test_input"

definition sha256_test_h1 :: "u32 list" where
  "sha256_test_h1 = [3128432319, 2399260650, 1094795486, 1571693091, 2953011619, 2518121116, 3021012833, 4060091821]"

lemma sha256_test_compress1: "sha256_compress sha256_h sha256_test_block = sha256_test_h1"
  by code_simp

lemma sha256_test_compress2: "hd (sha256_compress sha256_test_h1 sha256_test_block) = 501552725"
  by code_simp

lemma length_sha256_test_block: "length sha256_test_block = 64"
  by (simp add: sha256_test_block_def sha256_test_input_def sha256_padding_def)

lemma blocks_test: "blocks 64 sha256_test_input = []" "rest 64 sha256_test_input = sha256_test_input"
    "blocks 64 sha256_test_block = [sha256_test_block]"
  using length_sha256_test_block
  blocks_step [of 64 sha256_test_block "[]"]
  by (simp_all add: sha256_test_input_def)

lemma sha256_fips_test: "sha256_fips sha256_test_input = sha256_expected_hash"
proof -
  have "sha256_fips sha256_test_input = sha256_digest sha256_test_h1"
    by (simp add: sha256_fips_def sha256_test_block_def [symmetric] blocks_test sha256_test_compress1)
  also have "\<dots> = sha256_expected_hash" by code_simp
  finally show ?thesis .
qed

lemma sha256_code_test: "sha256_code sha256_test_input \<noteq> sha256_expected_hash"
proof -
  let ?h = "sha256_compress sha256_test_h1 sha256_test_block"
  have "sha256_code sha256_test_input = sha256_digest ?h"
    by (simp add: sha256_code_def sha256_test_block_def [symmetric] blocks_test sha256_compress_twice_def
          sha256_test_compress1)
  moreover have "hd (sha256_digest ?h) = byte_at 24 (501552725 :: u32)"
    using sha256_test_compress2 length_sha256_compress [of sha256_test_h1 sha256_test_block]
    by (cases ?h) (simp_all add: sha256_digest_def be32_bytes_def upt_conv_Cons)
  ultimately have "hd (sha256_code sha256_test_input) = byte_at 24 (501552725 :: u32)" by simp
  moreover have "byte_at 24 (501552725 :: u32) \<noteq> hd sha256_expected_hash" by code_simp
  ultimately show ?thesis by metis
qed

lemma aes_schedule_unique:
  assumes "0 < nk" "aes_schedule_ok key nk n w" "aes_schedule_ok key nk n w'"
  shows "i < n \<Longrightarrow> w ! i = w' ! i"
proof (induction i rule: less_induct)
  case (less i)
  show ?case
  proof (cases "i < nk")
    case False
    then have "w ! (i - 1) = w' ! (i - 1)" "w ! (i - nk) = w' ! (i - nk)" using less assms(1) by simp_all
    then have "aes_next_word nk w i = aes_next_word nk w' i" by (simp add: aes_next_word_def)
    then show ?thesis using assms(2,3) False less.prems by (simp add: aes_schedule_ok_def)
  qed (use assms(2,3) in \<open>simp add: aes_schedule_ok_def\<close>)
qed

lemma aes_rk_cong:
  assumes "length w = length w'" "\<And>i. i < 4 * Suc r \<Longrightarrow> w ! i = w' ! i"
  shows "aes_rk w r = aes_rk w' r"
proof -
  have "take 4 (drop (4 * r) w) = take 4 (drop (4 * r) w')"
    using assms by (intro nth_equalityI) auto
  then show ?thesis by (simp add: aes_rk_def)
qed

lemma aes_E_cong:
  assumes "rounds c = rounds c'" "length (key_schedule c) = length (key_schedule c')"
    "\<And>i. i < 4 * Suc (unat (rounds c)) \<Longrightarrow> key_schedule c ! i = key_schedule c' ! i"
  shows "aes_E c b = aes_E c' b"
proof -
  have rk: "r \<le> unat (rounds c) \<Longrightarrow> aes_rk (key_schedule c) r = aes_rk (key_schedule c') r" for r
    using assms(2,3) by (intro aes_rk_cong) simp_all
  have "r \<le> unat (rounds c) \<Longrightarrow> aes_E_rounds (key_schedule c) r st = aes_E_rounds (key_schedule c') r st" for r st
    by (induction r) (simp_all add: rk)
  then show ?thesis using assms(1) rk by (simp add: aes_E_def Let_def)
qed

text \<open>The schedule of the test key, over a zeroed array.\<close>

definition aes_test_schedule :: "u32 list" where
  "aes_test_schedule =
    [0x2b7e1516, 0x28aed2a6, 0xabf71588, 0x9cf4f3c,
     0xa0fafe17, 0x88542cb1, 0x23a33939, 0x2a6c7605,
     0xf2c295f2, 0x7a96b943, 0x5935807a, 0x7359f67f,
     0x3d80477d, 0x4716fe3e, 0x1e237e44, 0x6d7a883b,
     0xef44a541, 0xa8525b7f, 0xb671253b, 0xdb0bad00,
     0xd4d1c6f8, 0x7c839d87, 0xcaf2b8bc, 0x11f915bc,
     0x6d88a37a, 0x110b3efd, 0xdbf98641, 0xca0093fd,
     0x4e54f70e, 0x5f5fc9f3, 0x84a64fb2, 0x4ea6dc4f,
     0xead27321, 0xb58dbad2, 0x312bf560, 0x7f8d292f,
     0xac7766f3, 0x19fadc21, 0x28d12941, 0x575c006e,
     0xd014f9a8, 0xc9ee2589, 0xe13f0cc8, 0xb6630ca6] @ replicate 16 0"

lemma aes_test_words: "map (aes_next_word 4 aes_test_schedule) [4..<44] = take (44 - 4) (drop 4 aes_test_schedule)"
  by code_simp

lemma aes_test_schedule_len: "length aes_test_schedule = 60"
  by (simp add: aes_test_schedule_def)

lemma map_upt_eq_nth:
  assumes "map f [a..<b] = take (b - a) (drop a w)" "b \<le> length w" "a \<le> i" "i < b"
  shows "w ! i = f i"
proof -
  have "map f [a..<b] ! (i - a) = take (b - a) (drop a w) ! (i - a)" by (simp only: assms(1))
  then show ?thesis using assms(2-4) by simp
qed

lemma all_less_4: "(\<forall>i<4. P i) \<longleftrightarrow> P 0 \<and> P 1 \<and> P 2 \<and> P (3 :: nat)"
  by (simp add: numeral_eq_Suc All_less_Suc conj_ac)

lemma aes_test_schedule_ok: "aes_schedule_ok aes_test_key 4 44 aes_test_schedule"
proof -
  have "aes_test_schedule ! i = aes_next_word 4 aes_test_schedule i" if "4 \<le> i" "i < 44" for i
    by (rule map_upt_eq_nth [OF aes_test_words _ that]) (simp add: aes_test_schedule_len)
  moreover have "\<forall>i<4. aes_test_schedule ! i = be32 (aes_test_key ! (4 * i)) (aes_test_key ! (4 * i + 1))
      (aes_test_key ! (4 * i + 2)) (aes_test_key ! (4 * i + 3))"
    unfolding all_less_4 by code_simp
  ultimately show ?thesis by (simp add: aes_schedule_ok_def)
qed

lemma aes_test_rounds:
  "aes_E_rounds aes_test_schedule 9 (xor_bytes aes_test_plaintext (aes_rk aes_test_schedule 0)) =
     [235, 64, 242, 30, 89, 46, 56, 132, 139, 161, 19, 231, 27, 195, 66, 210]"
  by code_simp

lemma aes_test_last:
  "xor_bytes (aes_shift_rows (aes_sub_bytes [235, 64, 242, 30, 89, 46, 56, 132, 139, 161, 19, 231, 27, 195, 66, 210]))
     (aes_rk aes_test_schedule 10) = aes_test_ciphertext"
  by code_simp

lemma aes_test_block: "aes_E \<lparr>key_schedule = aes_test_schedule, rounds = 10\<rparr> aes_test_plaintext = aes_test_ciphertext"
  using aes_test_rounds aes_test_last by (simp add: aes_E_def Let_def del: aes_E_rounds.simps)

lemma crypto_self_test_aes_eq:
  assumes "length (key_schedule ctx) = 60"
  shows "crypto_self_test_aes ctx = Some CRYPTO_SUCCESS"
proof -
  have k: "128 \<in> {128, 192, 256 :: u32}" "unat (128 :: u32) \<le> 8 * length aes_test_key" by (simp_all add: aes_test_key_def)
  obtain c where c: "crypto_aes_init (Some ctx) (Some aes_test_key) 128 = Some (CRYPTO_SUCCESS, Some c)"
      "aes_ctx_ok c" "rounds c = 10" "aes_schedule_ok aes_test_key 4 44 (key_schedule c)"
    using crypto_aes_init_eq [OF k assms] by (auto simp: aes_rounds_def)
  have "aes_E c aes_test_plaintext = aes_E \<lparr>key_schedule = aes_test_schedule, rounds = 10\<rparr> aes_test_plaintext"
    using c aes_schedule_unique [OF _ c(4) aes_test_schedule_ok]
    by (intro aes_E_cong) (auto simp: aes_ctx_ok_def aes_test_schedule_def)
  moreover have p: "length aes_test_plaintext = 16" by (simp add: aes_test_plaintext_def)
  ultimately have "crypto_aes_encrypt_block c aes_test_plaintext 0 (replicate 16 0) 0 = Some aes_test_ciphertext"
    using aes_block_fresh [OF c(2) p] aes_test_block by simp
  moreover obtain r where "crypto_memcmp_constant_time aes_test_ciphertext aes_test_ciphertext 16 = Some r" "r = 0"
    using crypto_memcmp_constant_time_eq [of 16 aes_test_ciphertext aes_test_ciphertext] by (auto simp: aes_test_ciphertext_def)
  ultimately show ?thesis using c(1) by (simp add: crypto_self_test_aes_def)
qed

lemma mod_mult_bytes_eq:
  assumes "length rs \<le> length bs" "length rs \<le> length ms"
  shows "mod_mult_bytes rs bs ms =
    (if 0 \<in> set (take (length rs) ms) then None
     else Some (map (\<lambda>(r, b, m). of_nat (unat r * unat b mod unat m)) (zip rs (zip bs ms))))"
  using assms by (induction rs bs ms rule: mod_mult_bytes.induct) auto

lemma mod_mult_bytes_Some:
  assumes "length rs \<le> length bs" "length rs \<le> length ms" "0 \<notin> set (take (length rs) ms)"
  shows "\<exists>rs'. mod_mult_bytes rs bs ms = Some rs' \<and> length rs' = length rs \<and>
     (\<forall>j<length rs. rs ! j = 0 \<longrightarrow> rs' ! j = 0)"
  using assms by (auto simp: mod_mult_bytes_eq)

lemma mod_exp_loop_zero_byte:
  assumes "length r = n" "n \<le> length base" "n \<le> length md" "0 \<notin> set (take n md)"
    and "\<And>i. i \<in> set is \<Longrightarrow> i div 8 < length exp" and "j < n" "r ! j = 0"
  shows "\<exists>r'. mod_exp_loop base exp md is r = Some r' \<and> length r' = n \<and> r' ! j = 0"
  using assms
proof (induction "is" arbitrary: r)
  case (Cons i "is")
  obtain sq where sq: "mod_mult_bytes r r md = Some sq" "length sq = n" "sq ! j = 0"
    using mod_mult_bytes_Some [of r r md] Cons.prems by auto
  obtain mu where mu: "mod_mult_bytes sq base md = Some mu" "length mu = n" "mu ! j = 0"
    using mod_mult_bytes_Some [of sq base md] Cons.prems sq by auto
  have "i div 8 < length exp" using Cons.prems(5) [of i] by simp
  then show ?case
    using Cons.IH [of sq] Cons.IH [of mu] Cons.prems sq mu by (simp add: peek_def)
qed simp

lemma mod_exp_loop_zero_modulus:
  assumes "length r \<le> length base" "length r \<le> length md" "0 \<in> set (take (length r) md)" "is \<noteq> []"
  shows "mod_exp_loop base exp md is r = None"
  using assms by (cases "is") (auto simp: mod_mult_bytes_eq peek_def)

section \<open>Properties\<close>

text \<open>C36: the signature check accepts nothing. With buffers of the documented sizes
  \<open>verify_signature\<close> divides by zero when one of the 256 modulus bytes is zero and returns 0 in every
  other case, whatever the data, signature and key are: the byte-wise exponentiation never changes
  the zero in byte 1 of the result, which the padding check requires to be 1.\<close>

theorem verify_signature_rejects:
  assumes "unat len \<le> length d" and "unat len \<le> 2 ^ 32 - 64" and "256 \<le> length sig" and "516 \<le> length pk"
  shows "verify_signature d len sig pk = (if 0 \<in> set (take 256 (drop 260 pk)) then None else Some 0)"
proof -
  let ?md = "drop 260 pk" and ?r = "(replicate 256 0)[255 := 1] :: u8 list"
  have h: "sha256_hash (Some d) len (Some (replicate 32 0)) = Some (Some (sha256_code (take (unat len) d)))"
    using sha256_hash_eq [OF assms(1,2), of "replicate 32 0"] by simp
  show ?thesis
  proof (cases "0 \<in> set (take 256 ?md)")
    case True
    then have "mod_exp_loop sig (drop 4 pk) ?md [0..<2048] ?r = None"
      using assms by (intro mod_exp_loop_zero_modulus) simp_all
    then show ?thesis using True h by (simp add: verify_signature_def mod_exp_def)
  next
    case False
    have "\<And>i. i < 2048 \<Longrightarrow> i div 8 < length pk - 4" using assms(4) by linarith
    moreover have "256 \<le> length ?md" using assms(4) by simp
    ultimately obtain r' where "mod_exp_loop sig (drop 4 pk) ?md [0..<2048] ?r = Some r'" "length r' = 256" "r' ! 1 = 0"
      using mod_exp_loop_zero_byte [of ?r 256 sig ?md "[0..<2048]" "drop 4 pk" 1] False assms by auto
    then show ?thesis using False h by (simp add: verify_signature_def mod_exp_def)
  qed
qed

theorem verify_signature_rejects_witness:
  "verify_signature [1, 2, 3] 3 (replicate 256 0) (replicate 516 1) = Some 0"
  using verify_signature_rejects [of 3 "[1, 2, 3]" "replicate 256 0" "replicate 516 1"] by simp

text \<open>the start-up self-test of the cryptographic library always fails: the test vector is the
  digest in which the padded block is compressed once, the code compresses it twice.\<close>

lemma self_test_fails:
  "crypto_self_test_sha256 = Some CRYPTO_ERROR_VERIFICATION_FAILED \<and>
   crypto_run_all_self_tests ctx = Some CRYPTO_ERROR_VERIFICATION_FAILED \<and>
   sha256_fips sha256_test_input = sha256_expected_hash"
proof -
  have "sha256_hash (Some sha256_test_input) 3 (Some (replicate 32 0)) = Some (Some (sha256_code sha256_test_input))"
    using sha256_hash_eq [of 3 sha256_test_input "replicate 32 0"] by (simp add: sha256_test_input_def)
  moreover obtain r where "crypto_memcmp_constant_time (sha256_code sha256_test_input) sha256_expected_hash 32 = Some r" "r \<noteq> 0"
    using crypto_memcmp_constant_time_eq [of 32 "sha256_code sha256_test_input" sha256_expected_hash] sha256_code_test
    by (auto simp: sha256_expected_hash_def)
  ultimately have "crypto_self_test_sha256 = Some CRYPTO_ERROR_VERIFICATION_FAILED"
    by (simp add: crypto_self_test_sha256_def)
  note st = this
  show ?thesis unfolding crypto_run_all_self_tests_def st by (simp add: sha256_fips_test)
qed

text \<open>the AES self-test passes: from any contents of the local context the modelled key expansion
  and block cipher reproduce the FIPS-197 test vector.\<close>

lemma aes_self_test_passes:
  assumes "length (key_schedule ctx) = 60"
  shows "crypto_self_test_aes ctx = Some CRYPTO_SUCCESS"
  by (rule crypto_self_test_aes_eq [OF assms])

end
