(* ===== verification/Disk_Io.thy ===== *)
theory Disk_Io
  imports BH_Prelude
begin

text \<open>
  The storage interfaces that the file system drivers declare \<open>extern\<close>. \<open>disk\<close> is what \<open>read_sector\<close> stores
  for a sector number; \<open>disk_io\<close> is \<open>disk_read\<close>: for a sector and a number of sectors its return code and
  the bytes it stores; \<open>kmalloc\<close> is the allocator, for a size the fresh memory or NULL.
\<close>

type_synonym disk = "u32 \<Rightarrow> u8 list"

type_synonym disk_io = "u32 \<Rightarrow> u32 \<Rightarrow> int \<times> u8 list"
type_synonym kmalloc = "u32 \<Rightarrow> u8 list ptr"

definition disk_read :: "disk_io \<Rightarrow> u8 list \<Rightarrow> nat \<Rightarrow> u32 \<Rightarrow> u32 \<Rightarrow> (int \<times> u8 list) cmem" where
  "disk_read io buf off lba n =
     (case memcpy buf off (snd (io lba n)) 0 (length (snd (io lba n))) of
        None \<Rightarrow> None | Some b \<Rightarrow> Some (fst (io lba n), b))"

text \<open>\<open>read_sector\<close> fills a buffer of 512 bytes.\<close>

definition sector_disk :: "disk \<Rightarrow> bool" where
  "sector_disk disk \<longleftrightarrow> (\<forall>s. length (disk s) = 512)"

lemma sector_diskD: "sector_disk disk \<Longrightarrow> length (disk s) = 512"
  by (simp add: sector_disk_def)

text \<open>A disk seen through \<open>disk_read\<close>: consecutive sectors.\<close>

definition sectors :: "disk \<Rightarrow> u32 \<Rightarrow> nat \<Rightarrow> u8 list" where
  "sectors disk l n = concat (map (\<lambda>i. disk (l + of_nat i)) [0..<n])"

definition serves :: "disk_io \<Rightarrow> disk \<Rightarrow> bool" where
  "serves io disk \<longleftrightarrow> (\<forall>l n. io l n = (0, sectors disk l (unat n)))"

lemma length_sectors: "sector_disk disk \<Longrightarrow> length (sectors disk l n) = n * 512"
  by (simp add: sectors_def length_concat_const sector_diskD)

lemma sectors_append:
  assumes "sector_disk disk" and "k \<le> n"
  shows "sectors disk l n = sectors disk l k @ sectors disk (l + of_nat k) (n - k)"
proof -
  have "[0..<n] = [0..<k] @ map (\<lambda>i. i + k) [0..<n - k]"
    using assms(2) upt_add_eq_append [of 0 k "n - k"] by (simp add: map_add_upt)
  then show ?thesis by (simp add: sectors_def comp_def ac_simps)
qed

lemma drop_sectors:
  "sector_disk disk \<Longrightarrow> k \<le> n \<Longrightarrow> drop (k * 512) (sectors disk l n) = sectors disk (l + of_nat k) (n - k)"
  by (simp add: sectors_append [of disk k n l] length_sectors)

lemma take_sectors:
  "sector_disk disk \<Longrightarrow> k \<le> n \<Longrightarrow> take (k * 512) (sectors disk l n) = sectors disk l k"
  by (simp add: sectors_append [of disk k n l] length_sectors)

lemma disk_read_serves:
  assumes "serves io disk" and "sector_disk disk"
  shows "disk_read io buf off l n =
    (if off + unat n * 512 \<le> length buf
     then Some (0, take off buf @ sectors disk l (unat n) @ drop (off + unat n * 512) buf) else None)"
  using assms by (simp add: disk_read_def serves_def memcpy_def length_sectors)

end
