(* ===== verification/Fat32.thy ===== *)
theory Fat32
  imports Disk_Io
begin

text \<open>
  The FAT32 driver, \<^verbatim>\<open>fs/fat32.c\<close>. Loops along cluster chains need not end, so they are partial functions whose
  value \<^const>\<open>None\<close> also covers running forever; the other source of \<^const>\<open>None\<close> is an access outside
  a buffer or a division by zero.
\<close>

section \<open>On-disk structures\<close>

record fat32_bootsector =
  bytes_per_sector :: u16
  sectors_per_cluster :: u8
  reserved_sectors :: u16
  num_fats :: u8
  total_sectors_16 :: u16
  sectors_per_fat_16 :: u16
  total_sectors_32 :: u32
  sectors_per_fat_32 :: u32
  root_cluster :: u32
  fs_type :: "u8 list"
  boot_signature_55aa :: u16

text \<open>The packed structure laid over the bytes of a sector.\<close>

definition fat32_bs_of :: "u8 list \<Rightarrow> fat32_bootsector" where
  "fat32_bs_of s =
     \<lparr>bytes_per_sector = le16_at s 11, sectors_per_cluster = s ! 13, reserved_sectors = le16_at s 14,
      num_fats = s ! 16, total_sectors_16 = le16_at s 19, sectors_per_fat_16 = le16_at s 22,
      total_sectors_32 = le32_at s 32, sectors_per_fat_32 = le32_at s 36, root_cluster = le32_at s 44,
      fs_type = take 8 (drop 82 s), boot_signature_55aa = le16_at s 510\<rparr>"

record fat32_private =
  fat_lba :: u32
  fat_bs :: fat32_bootsector
  fat_begin_lba :: u32
  cluster_begin_lba :: u32
  root_dir_first_cluster :: u32
  bytes_per_cluster :: u32
  total_clusters :: u32

section \<open>Clusters\<close>

definition fat32_get_cluster :: "disk \<Rightarrow> fat32_private \<Rightarrow> u32 \<Rightarrow> u32 cmem" where
  "fat32_get_cluster disk priv cluster =
     (if 0x0FFFFFF8 \<le> cluster then Some 0x0FFFFFFF
      else let bps = ucast (bytes_per_sector (fat_bs priv)) :: u32; fat_offset = cluster * 4 in
        if bps = 0 then None
        else let sector = disk (fat_begin_lba priv + fat_offset div bps);
                 entry_offset = unat (fat_offset mod bps)
             in if entry_offset + 4 \<le> length sector
                then Some (le32_at sector entry_offset AND 0x0FFFFFFF) else None)"

fun read_sectors :: "disk \<Rightarrow> u32 \<Rightarrow> nat \<Rightarrow> nat list \<Rightarrow> u8 list \<Rightarrow> u8 list cmem" where
  "read_sectors disk first bps [] buffer = Some buffer"
| "read_sectors disk first bps (i # is) buffer =
     (case memcpy buffer (i * bps) (disk (first + of_nat i)) 0 512 of
        None \<Rightarrow> None
      | Some b \<Rightarrow> read_sectors disk first bps is b)"

definition fat32_read_cluster :: "disk \<Rightarrow> fat32_private \<Rightarrow> u32 \<Rightarrow> u8 list \<Rightarrow> (int \<times> u8 list) cmem" where
  "fat32_read_cluster disk priv cluster buffer =
     (if cluster < 2 \<or> total_clusters priv + 2 \<le> cluster then Some (-1, buffer)
      else let spc = sectors_per_cluster (fat_bs priv);
               first_sector = cluster_begin_lba priv + (cluster - 2) * ucast spc
           in do {
             b \<leftarrow> read_sectors disk first_sector (unat (bytes_per_sector (fat_bs priv))) [0..<unat spc] buffer;
             Some (0, b)
           })"

section \<open>Finding a file\<close>

definition upper_u8 :: "u8 \<Rightarrow> u8" where
  "upper_u8 b = (if 97 \<le> b \<and> b \<le> 122 then b - 97 + 65 else b)"

definition pad_name :: "nat \<Rightarrow> u8 list \<Rightarrow> u8 list" where
  "pad_name n s = take n s @ replicate (n - length s) 32"

text \<open>The 8.3 name of a path component.\<close>

definition fatname_of :: "u8 list \<Rightarrow> u8 list" where
  "fatname_of cmpnt =
     (let name = takeWhile (\<lambda>c. c \<noteq> 46) cmpnt
      in map upper_u8
           (if 46 \<in> set cmpnt then pad_name 8 name @ pad_name 3 (drop (length name + 1) cmpnt)
            else pad_name 8 cmpnt @ replicate 3 32))"

datatype dir_scan = Scan_End | Scan_Found u32 u32 | Scan_More

definition dirent_cluster :: "u8 list \<Rightarrow> nat \<Rightarrow> u32" where
  "dirent_cluster b i = push_bit 16 (ucast (le16_at b (i + 20))) OR ucast (le16_at b (i + 26))"

fun fat32_scan :: "u8 list \<Rightarrow> u8 list \<Rightarrow> nat list \<Rightarrow> dir_scan cmem" where
  "fat32_scan fatname b [] = Some Scan_More"
| "fat32_scan fatname b (i # is) =
     (if length b < i + 32 then None
      else if b ! i = 0 then Some Scan_End
      else if b ! i = 0xE5 \<or> b ! (i + 11) AND 0x0F = 0x0F then fat32_scan fatname b is
      else if take 11 (drop i b) = fatname then Some (Scan_Found (dirent_cluster b i) (le32_at b (i + 28)))
      else fat32_scan fatname b is)"

definition dirent_offsets :: "u32 \<Rightarrow> nat list" where
  "dirent_offsets bpc = map (\<lambda>k. 32 * k) [0..<(unat bpc + 31) div 32]"

partial_function (option) fat32_search ::
  "disk \<Rightarrow> fat32_private \<Rightarrow> u8 list \<Rightarrow> u32 \<Rightarrow> u8 list \<Rightarrow> (u32 \<times> u32) option cmem" where
  "fat32_search disk priv fatname cluster buf =
     (if cluster < 0x0FFFFFF8 then
        Option.bind (fat32_read_cluster disk priv cluster buf) (\<lambda>(r, buf').
          if r \<noteq> 0 then Some None
          else Option.bind (fat32_scan fatname buf' (dirent_offsets (bytes_per_cluster priv))) (\<lambda>s.
            case s of
              Scan_End \<Rightarrow> Some None
            | Scan_Found c n \<Rightarrow> Some (Some (c, n))
            | Scan_More \<Rightarrow> Option.bind (fat32_get_cluster disk priv cluster) (\<lambda>nxt.
                fat32_search disk priv fatname nxt buf')))
      else Some None)"

text \<open>\<open>init\<close> is what the allocator returns for the cluster buffer, if anything; the result is the return
  code with the two output parameters. Each component is searched from the root directory.\<close>

function fat32_find_file ::
  "disk \<Rightarrow> fat32_private \<Rightarrow> u8 list ptr \<Rightarrow> u8 list \<Rightarrow> u32 \<times> u32 \<Rightarrow> (int \<times> u32 \<times> u32) cmem" where
  "fat32_find_file disk priv init path out =
     (let p = dropWhile (\<lambda>c. c = 47) path in
      if p = [] then Some (0, root_dir_first_cluster priv, 0)
      else let cmpnt = takeWhile (\<lambda>c. c \<noteq> 47) p; nxt = dropWhile (\<lambda>c. c \<noteq> 47) p in
        if 256 \<le> length cmpnt then Some (-1, out)
        else (case init of
          None \<Rightarrow> Some (-1, out)
        | Some buf \<Rightarrow>
            (case fat32_search disk priv (fatname_of cmpnt) (root_dir_first_cluster priv) buf of
               None \<Rightarrow> None
             | Some None \<Rightarrow> Some (-1, out)
             | Some (Some found) \<Rightarrow>
                 if nxt = [] then Some (0, found)
                 else fat32_find_file disk priv init (tl nxt) found)))"
  by pat_completeness auto
termination
proof (relation "measure (\<lambda>(disk, priv, init, path, out). length path)", goal_cases)
  case (2 disk priv init path out p cmpnt nxt)
  have "length nxt \<le> length p" "length p \<le> length path" "nxt \<noteq> []"
    using 2 by (simp_all add: length_dropWhile_le)
  then show ?case by (cases nxt) simp_all
qed simp

declare fat32_find_file.simps [simp del]

section \<open>Reading\<close>

text \<open>Skipping to the starting cluster.\<close>

fun fat32_skip :: "disk \<Rightarrow> fat32_private \<Rightarrow> nat \<Rightarrow> u32 \<Rightarrow> u32 option cmem" where
  "fat32_skip disk priv 0 cluster = Some (Some cluster)"
| "fat32_skip disk priv (Suc k) cluster =
     (case fat32_get_cluster disk priv cluster of
        None \<Rightarrow> None
      | Some c \<Rightarrow> if 0x0FFFFFF8 \<le> c then Some None else fat32_skip disk priv k c)"

partial_function (option) fat32_read_loop ::
  "disk \<Rightarrow> fat32_private \<Rightarrow> u8 list ptr \<Rightarrow> u32 \<Rightarrow> u32 \<Rightarrow> u32 \<Rightarrow> u32 \<Rightarrow> u8 list \<Rightarrow> (int \<times> u8 list) cmem" where
  "fat32_read_loop disk priv init n cluster bytes_read offset_in_cluster buf =
     (if bytes_read < n \<and> cluster < 0x0FFFFFF8 then
        (case init of
           None \<Rightarrow> Some (-1, buf)
         | Some cb0 \<Rightarrow>
             Option.bind (fat32_read_cluster disk priv cluster cb0) (\<lambda>(r, cb).
               if r \<noteq> 0 then Some (-1, buf)
               else let c0 = bytes_per_cluster priv - offset_in_cluster;
                        to_copy = (if n < bytes_read + c0 then n - bytes_read else c0)
                    in Option.bind (memcpy buf (unat bytes_read) cb (unat offset_in_cluster) (unat to_copy)) (\<lambda>buf'.
                       Option.bind (fat32_get_cluster disk priv cluster) (\<lambda>nxt.
                         fat32_read_loop disk priv init n nxt (bytes_read + to_copy) 0 buf'))))
      else Some (sint bytes_read, buf))"

definition fat32_read ::
  "disk \<Rightarrow> u8 list ptr \<Rightarrow> fat32_private \<Rightarrow> u8 list \<Rightarrow> u8 list \<Rightarrow> u32 \<Rightarrow> u32 \<Rightarrow> (int \<times> u8 list) cmem" where
  "fat32_read disk init priv path buf n offset = do {
     (r, cluster, file_size) \<leftarrow> fat32_find_file disk priv init path (0, 0);
     if r \<noteq> 0 then Some (-1, buf)
     else if file_size \<le> offset then Some (0, buf)
     else if bytes_per_cluster priv = 0 then None
     else do {
       let n' = (if file_size < offset + n then file_size - offset else n);
       start \<leftarrow> fat32_skip disk priv (unat (offset div bytes_per_cluster priv)) cluster;
       case start of
         None \<Rightarrow> Some (-1, buf)
       | Some c \<Rightarrow> fat32_read_loop disk priv init n' c 0 (offset mod bytes_per_cluster priv) buf
     }
   }"

section \<open>Listing, information, mounting\<close>

text \<open>The printable form of an 8.3 name.\<close>

definition dirent_name :: "u8 list \<Rightarrow> u8 list" where
  "dirent_name nm =
     takeWhile (\<lambda>c. c \<noteq> 32) (take 8 nm) @
     (if nm ! 8 \<noteq> 32 then 46 # takeWhile (\<lambda>c. c \<noteq> 32) (take 3 (drop 8 nm)) else [])"

text \<open>One cluster of the listing: \<open>Inl\<close> ends the call with the offset, \<open>Inr\<close> goes on to the nxt
  cluster.\<close>

fun fat32_list_scan :: "u32 \<Rightarrow> u8 list \<Rightarrow> nat list \<Rightarrow> u32 \<Rightarrow> u8 list \<Rightarrow> ((u32 + u32) \<times> u8 list) cmem" where
  "fat32_list_scan n b [] offset buffer = Some (Inr offset, buffer)"
| "fat32_list_scan n b (i # is) offset buffer =
     (if length b < i + 32 then None
      else if b ! i = 0 then Some (Inl offset, buffer)
      else if b ! i = 0xE5 \<or> b ! (i + 11) AND 0x0F = 0x0F then fat32_list_scan n b is offset buffer
      else let name = dirent_name (take 11 (drop i b)); pos = of_nat (length name) :: u32 in
        if n < offset + (pos + 2) then Some (Inl offset, buffer)
        else (case memcpy buffer (unat offset) (name @ [10]) 0 (length name + 1) of
                None \<Rightarrow> None
              | Some buf' \<Rightarrow> fat32_list_scan n b is (offset + pos + 1) buf'))"

partial_function (option) fat32_list_loop ::
  "disk \<Rightarrow> fat32_private \<Rightarrow> u32 \<Rightarrow> u32 \<Rightarrow> u8 list \<Rightarrow> u32 \<Rightarrow> u8 list \<Rightarrow> (int \<times> u8 list) cmem" where
  "fat32_list_loop disk priv n cluster cb offset buffer =
     (if cluster < 0x0FFFFFF8 then
        Option.bind (fat32_read_cluster disk priv cluster cb) (\<lambda>(r, cb').
          if r \<noteq> 0 then Some (-1, buffer)
          else Option.bind (fat32_list_scan n cb' (dirent_offsets (bytes_per_cluster priv)) offset buffer) (\<lambda>(s, buf').
            case s of
              Inl off \<Rightarrow> Some (sint off, buf')
            | Inr off \<Rightarrow> Option.bind (fat32_get_cluster disk priv cluster) (\<lambda>nxt.
                fat32_list_loop disk priv n nxt cb' off buf')))
      else Some (sint offset, buffer))"

definition fat32_read_dir ::
  "disk \<Rightarrow> u8 list ptr \<Rightarrow> fat32_private \<Rightarrow> u8 list \<Rightarrow> u8 list \<Rightarrow> u32 \<Rightarrow> (int \<times> u8 list) cmem" where
  "fat32_read_dir disk init priv path buffer n = do {
     (r, cluster, dir_size) \<leftarrow> fat32_find_file disk priv init path (0, 0);
     if r \<noteq> 0 then Some (-1, buffer)
     else (case init of
             None \<Rightarrow> Some (-1, buffer)
           | Some cb \<Rightarrow> fat32_list_loop disk priv n cluster cb 0 buffer)
   }"

definition fat32_get_info ::
  "disk \<Rightarrow> u8 list ptr \<Rightarrow> fat32_private \<Rightarrow> u8 list \<Rightarrow> u32 \<Rightarrow> bool \<Rightarrow> (int \<times> u32 \<times> bool) cmem" where
  "fat32_get_info disk init priv path n0 d0 = do {
     (r, cluster, fsize) \<leftarrow> fat32_find_file disk priv init path (0, n0);
     Some (if r \<noteq> 0 then (-1, fsize, d0) else (0, fsize, cluster AND 0x10 \<noteq> 0))
   }"

text \<open>\<open>alloc\<close> says whether the allocator has memory for the private data; a cluster size of zero divides
  by zero.\<close>

definition fat32_mount :: "disk \<Rightarrow> bool \<Rightarrow> u32 \<Rightarrow> fat32_private ptr cmem" where
  "fat32_mount disk alloc lba =
     (if \<not> alloc then Some None
      else let bs = fat32_bs_of (disk lba) in
        if boot_signature_55aa bs \<noteq> 0xAA55 then Some None
        else let fat_begin = lba + ucast (reserved_sectors bs);
                 bpc = ucast (bytes_per_sector bs) * ucast (sectors_per_cluster bs);
                 fat_size = (if sectors_per_fat_32 bs \<noteq> 0 then sectors_per_fat_32 bs else ucast (sectors_per_fat_16 bs));
                 cluster_begin = fat_begin + ucast (num_fats bs) * fat_size;
                 total = (if total_sectors_32 bs \<noteq> 0 then total_sectors_32 bs else ucast (total_sectors_16 bs));
                 data_sectors = total - (cluster_begin - lba)
             in if sectors_per_cluster bs = 0 then None
                else Some (Some
                  \<lparr>fat_lba = lba, fat_bs = bs, fat_begin_lba = fat_begin, cluster_begin_lba = cluster_begin,
                   root_dir_first_cluster = root_cluster bs, bytes_per_cluster = bpc,
                   total_clusters = data_sectors div ucast (sectors_per_cluster bs)\<rparr>))"

definition fat32_detect :: "disk \<Rightarrow> u32 \<Rightarrow> bool" where
  "fat32_detect disk lba =
     (let bs = fat32_bs_of (disk lba); bps = bytes_per_sector bs; spc = sectors_per_cluster bs in
      if boot_signature_55aa bs \<noteq> 0xAA55 then False
      else if fs_type bs \<noteq> [70, 65, 84, 51, 50, 32, 32, 32] \<and> fs_type bs \<noteq> [70, 65, 84, 51, 50, 32, 32, 32] then False
      else if bps AND (bps - 1) \<noteq> 0 \<or> bps < 512 \<or> 4096 < bps then False
      else if spc AND (spc - 1) \<noteq> 0 \<or> spc = 0 then False
      else True)"

section \<open>Reference definitions\<close>

text \<open>The sectors of a cluster, a cluster chain, and the geometry the driver assumes.\<close>

definition cluster_sector :: "fat32_private \<Rightarrow> u32 \<Rightarrow> nat \<Rightarrow> u32" where
  "cluster_sector priv c i =
     cluster_begin_lba priv + (c - 2) * ucast (sectors_per_cluster (fat_bs priv)) + of_nat i"

definition cluster_data :: "disk \<Rightarrow> fat32_private \<Rightarrow> u32 \<Rightarrow> u8 list" where
  "cluster_data disk priv c =
     concat (map (\<lambda>i. disk (cluster_sector priv c i)) [0..<unat (sectors_per_cluster (fat_bs priv))])"

definition chain_data :: "disk \<Rightarrow> fat32_private \<Rightarrow> u32 list \<Rightarrow> u8 list" where
  "chain_data disk priv cs = concat (map (cluster_data disk priv) cs)"

fun fat_chain :: "disk \<Rightarrow> fat32_private \<Rightarrow> u32 \<Rightarrow> u32 list \<Rightarrow> bool" where
  "fat_chain disk priv c [] \<longleftrightarrow> 0x0FFFFFF8 \<le> c"
| "fat_chain disk priv c (x # xs) \<longleftrightarrow>
     c = x \<and> 2 \<le> x \<and> x < 0x0FFFFFF8 \<and> x < total_clusters priv + 2 \<and>
     (case fat32_get_cluster disk priv x of None \<Rightarrow> False | Some y \<Rightarrow> fat_chain disk priv y xs)"

definition fat32_geometry :: "fat32_private \<Rightarrow> bool" where
  "fat32_geometry priv \<longleftrightarrow>
     bytes_per_sector (fat_bs priv) = 512 \<and> 0 < sectors_per_cluster (fat_bs priv) \<and>
     unat (bytes_per_cluster priv) = unat (sectors_per_cluster (fat_bs priv)) * 512"

text \<open>Looking a name up in the entries of a directory.\<close>

fun dir_lookup :: "u8 list \<Rightarrow> u8 list list \<Rightarrow> dir_scan" where
  "dir_lookup fatname [] = Scan_More"
| "dir_lookup fatname (e # es) =
     (if e ! 0 = 0 then Scan_End
      else if e ! 0 = 0xE5 \<or> e ! 11 AND 0x0F = 0x0F then dir_lookup fatname es
      else if take 11 e = fatname then Scan_Found (dirent_cluster e 0) (le32_at e 28)
      else dir_lookup fatname es)"

definition scan_result :: "dir_scan \<Rightarrow> (u32 \<times> u32) option" where
  "scan_result s = (case s of Scan_Found c n \<Rightarrow> Some (c, n) | _ \<Rightarrow> None)"

section \<open>Clusters and chains\<close>

lemma spc_less: "unat (sectors_per_cluster b) < 256"
  using unsigned_less [of "sectors_per_cluster b", where ?'a = nat] by simp

lemma geometry_bpc:
  assumes "fat32_geometry priv"
  shows "0 < unat (bytes_per_cluster priv)" "unat (bytes_per_cluster priv) < 131072"
    "bytes_per_cluster priv \<noteq> 0" "32 dvd unat (bytes_per_cluster priv)"
proof -
  have p: "0 < unat (sectors_per_cluster (fat_bs priv))"
    using assms by (auto simp: fat32_geometry_def word_less_nat_alt)
  have b: "unat (bytes_per_cluster priv) = unat (sectors_per_cluster (fat_bs priv)) * 512"
    using assms by (simp add: fat32_geometry_def)
  show "0 < unat (bytes_per_cluster priv)" using p b by simp
  then show "bytes_per_cluster priv \<noteq> 0" by (metis unat_0 less_irrefl)
  show "unat (bytes_per_cluster priv) < 131072" using b spc_less [of "fat_bs priv"] by simp
  show "32 dvd unat (bytes_per_cluster priv)" unfolding b by (simp add: dvd_mult)
qed

lemma length_cluster_data:
  assumes "sector_disk disk" and "fat32_geometry priv"
  shows "length (cluster_data disk priv c) = unat (bytes_per_cluster priv)"
  using assms by (simp add: cluster_data_def length_concat_const fat32_geometry_def sector_diskD)

lemma length_chain_data:
  assumes "sector_disk disk" and "fat32_geometry priv"
  shows "length (chain_data disk priv cs) = length cs * unat (bytes_per_cluster priv)"
  using assms by (simp add: chain_data_def length_concat_const length_cluster_data)

lemma chain_data_simps [simp]:
  "chain_data disk priv [] = []"
  "chain_data disk priv (c # cs) = cluster_data disk priv c @ chain_data disk priv cs"
  by (simp_all add: chain_data_def)

lemma drop_chain_data:
  assumes "sector_disk disk" and "fat32_geometry priv"
  shows "drop (k * unat (bytes_per_cluster priv)) (chain_data disk priv cs) = chain_data disk priv (drop k cs)"
proof (induction k arbitrary: cs)
  case (Suc k)
  then show ?case using length_cluster_data [OF assms]
    by (cases cs) (simp_all add: add.commute [of "unat (bytes_per_cluster priv)"] flip: drop_drop)
qed simp

lemma read_sectors_range:
  assumes "sector_disk disk" and "k \<le> n" and "length buffer = n * 512"
  shows "read_sectors disk first 512 [k..<n] buffer =
    Some (take (k * 512) buffer @ concat (map (\<lambda>i. disk (first + of_nat i)) [k..<n]))"
  using assms(2,3)
proof (induction "n - k" arbitrary: k buffer)
  case 0
  then show ?case by simp
next
  case (Suc d)
  then have kn: "k < n" by simp
  let ?b = "take (k * 512) buffer @ disk (first + of_nat k) @ drop (k * 512 + 512) buffer"
  have le: "k * 512 + 512 \<le> n * 512" using kn by simp
  have cp: "memcpy buffer (k * 512) (disk (first + of_nat k)) 0 512 = Some ?b"
    using sector_diskD [OF assms(1)] Suc.prems le by (simp add: memcpy_def)
  have lb: "length ?b = n * 512" using sector_diskD [OF assms(1)] Suc.prems le by simp
  have tk: "take (Suc k * 512) ?b = take (k * 512) buffer @ disk (first + of_nat k)"
    using sector_diskD [OF assms(1)] Suc.prems le by simp
  have "read_sectors disk first 512 [k..<n] buffer = read_sectors disk first 512 [Suc k..<n] ?b"
    using kn cp by (simp add: upt_conv_Cons)
  also have "\<dots> = Some (take (Suc k * 512) ?b @ concat (map (\<lambda>i. disk (first + of_nat i)) [Suc k..<n]))"
    using Suc.hyps(2) kn lb by (intro Suc.hyps(1)) simp_all
  finally show ?case using kn tk by (simp add: upt_conv_Cons)
qed

lemma fat32_read_cluster_data:
  assumes "sector_disk disk" and "fat32_geometry priv"
    and "2 \<le> c" and "c < total_clusters priv + 2" and "length buf = unat (bytes_per_cluster priv)"
  shows "fat32_read_cluster disk priv c buf = Some (0, cluster_data disk priv c)"
  using assms read_sectors_range [OF assms(1), of 0 "unat (sectors_per_cluster (fat_bs priv))" buf]
  by (simp add: fat32_read_cluster_def fat32_geometry_def cluster_data_def cluster_sector_def not_le
      linorder_not_less Let_def)

section \<open>Reading a file\<close>

lemma fat32_skip_chain:
  "fat_chain disk priv c cs \<Longrightarrow> k < length cs \<Longrightarrow>
   fat32_skip disk priv k c = Some (Some (cs ! k)) \<and> fat_chain disk priv (cs ! k) (drop k cs)"
proof (induction k arbitrary: c cs)
  case 0
  then show ?case by (cases cs) auto
next
  case (Suc k)
  then obtain x xs y where cs: "cs = x # xs" "c = x" "fat32_get_cluster disk priv x = Some y"
      "fat_chain disk priv y xs" "k < length xs"
    by (cases cs) (auto split: option.splits)
  then have "y < 0x0FFFFFF8" by (cases xs) auto
  then show ?case using Suc.IH [OF cs(4,5)] cs by auto
qed

lemma fat32_read_loop_done:
  "fat32_read_loop disk priv init n c n off buf = Some (sint n, buf)"
  by (subst fat32_read_loop.simps) simp

text \<open>One turn of the loop copies what is left of the cluster or what is still wanted.\<close>

lemma fat32_read_loop_step:
  assumes disk: "sector_disk disk" and geo: "fat32_geometry priv"
    and cb0: "length cb0 = unat (bytes_per_cluster priv)"
    and c: "2 \<le> c" "c < 0x0FFFFFF8" "c < total_clusters priv + 2" "fat32_get_cluster disk priv c = Some y"
    and br: "unat br < unat n" and len: "unat n \<le> length buf" "unat n < 2 ^ 31"
    and off: "unat off < unat (bytes_per_cluster priv)"
    and k: "k = min (unat (bytes_per_cluster priv) - unat off) (unat n - unat br)"
  shows "fat32_read_loop disk priv (Some cb0) n c br off buf =
    fat32_read_loop disk priv (Some cb0) n y (of_nat (unat br + k)) 0
      (take (unat br) buf @ take k (drop (unat off) (cluster_data disk priv c)) @ drop (unat br + k) buf)"
proof -
  note bpc = geometry_bpc [OF geo]
  define c0 where "c0 = bytes_per_cluster priv - off"
  have c0: "unat c0 = unat (bytes_per_cluster priv) - unat off"
    using off unat_sub_small [of off "bytes_per_cluster priv"] by (simp add: c0_def)
  have s: "unat (br + c0) = unat br + unat c0"
    using br len bpc c0 by (intro unat_add_small) simp
  have d: "unat (n - br) = unat n - unat br" using br by (intro unat_sub_small) simp
  define to_copy where "to_copy = (if n < br + c0 then n - br else c0)"
  have tc: "unat to_copy = k"
  proof (cases "n < br + c0")
    case True
    then have "unat n - unat br < unat c0" using s br by (simp add: word_less_nat_alt)
    then show ?thesis using True d k c0 by (simp add: to_copy_def)
  next
    case False
    then have "unat c0 \<le> unat n - unat br" using s br by (simp add: word_less_nat_alt)
    then show ?thesis using False k c0 by (simp add: to_copy_def)
  qed
  have b': "of_nat k = to_copy" by (simp flip: tc)
  have "memcpy buf (unat br) (cluster_data disk priv c) (unat off) (unat to_copy) =
      Some (take (unat br) buf @ take k (drop (unat off) (cluster_data disk priv c)) @ drop (unat br + k) buf)"
    using tc k br len off length_cluster_data [OF disk geo, of c] by (auto simp: memcpy_def)
  then show ?thesis
    using c word_less_nat_alt [THEN iffD2, OF br] fat32_read_cluster_data [OF disk geo c(1,3) cb0]
    by (subst fat32_read_loop.simps) (simp add: to_copy_def [symmetric] c0_def [symmetric] Let_def b')
qed

lemma fat32_read_loop_chain:
  assumes disk: "sector_disk disk" and geo: "fat32_geometry priv"
    and cb0: "length cb0 = unat (bytes_per_cluster priv)" and n: "unat n < 2 ^ 31"
  shows "fat_chain disk priv c cs \<Longrightarrow> unat br \<le> unat n \<Longrightarrow> unat n \<le> length buf \<Longrightarrow>
    unat off < unat (bytes_per_cluster priv) \<Longrightarrow>
    unat n - unat br \<le> length (drop (unat off) (chain_data disk priv cs)) \<Longrightarrow>
    fat32_read_loop disk priv (Some cb0) n c br off buf =
      Some (int (unat n), take (unat br) buf @
              take (unat n - unat br) (drop (unat off) (chain_data disk priv cs)) @ drop (unat n) buf)"
proof (induction cs arbitrary: c br off buf)
  case Nil
  then have "br = n" by (simp add: word_unat_eq_iff)
  then show ?case using sint_u32_small [OF n] by (simp add: fat32_read_loop_done)
next
  case (Cons x xs)
  show ?case
  proof (cases "br = n")
    case True
    then show ?thesis using sint_u32_small [OF n] by (simp add: fat32_read_loop_done)
  next
    case False
    then have br: "unat br < unat n" using Cons.prems(2) by (metis le_neq_implies_less word_unat_eq_iff)
    let ?cd = "drop (unat off) (cluster_data disk priv x)"
    define k where "k = min (unat (bytes_per_cluster priv) - unat off) (unat n - unat br)"
    from Cons.prems(1) obtain y where y: "c = x" "2 \<le> x" "x < 0x0FFFFFF8" "x < total_clusters priv + 2"
        "fat32_get_cluster disk priv x = Some y" "fat_chain disk priv y xs"
      by (auto split: option.splits)
    define buf' where "buf' = take (unat br) buf @ take k ?cd @ drop (unat br + k) buf"
    have lcd: "length ?cd = unat (bytes_per_cluster priv) - unat off"
      using length_cluster_data [OF disk geo] by simp
    have len: "length (take k ?cd) = k" using lcd by (simp add: k_def)
    have brk: "unat br + k \<le> unat n" using br by (simp add: k_def)
    have ub: "unat (of_nat (unat br + k) :: u32) = unat br + k"
      using brk n by (intro unat_of_nat_small) simp
    have lb: "length buf' = length buf" using len brk Cons.prems(3) by (simp add: buf'_def)
    have cd: "drop (unat off) (chain_data disk priv (x # xs)) = ?cd @ chain_data disk priv xs"
      using length_cluster_data [OF disk geo, of x] Cons.prems(4) by simp
    have rem: "unat n - (unat br + k) \<le> length (chain_data disk priv xs)"
    proof -
      have "unat n - unat br \<le> length ?cd + length (chain_data disk priv xs)"
        using Cons.prems(5) by (simp only: cd length_append)
      then show ?thesis unfolding lcd k_def by linarith
    qed
    have "fat32_read_loop disk priv (Some cb0) n c br off buf =
        fat32_read_loop disk priv (Some cb0) n y (of_nat (unat br + k)) 0 buf'"
      unfolding buf'_def y(1)
      by (rule fat32_read_loop_step [OF disk geo cb0 y(2-5) br Cons.prems(3) n Cons.prems(4) k_def])
    also have "\<dots> = Some (int (unat n), take (unat br + k) buf' @
        take (unat n - (unat br + k)) (chain_data disk priv xs) @ drop (unat n) buf')"
      using Cons.IH [of y "of_nat (unat br + k)" buf' 0] y(6) ub brk lb Cons.prems(3) rem geometry_bpc(1) [OF geo]
      by simp
    also have "take (unat br + k) buf' = take (unat br) buf @ take k ?cd"
      using len brk Cons.prems(3) by (simp add: buf'_def)
    also have "drop (unat n) buf' = drop (unat n) buf"
      using len brk Cons.prems(3) by (simp add: buf'_def)
    also have "take k ?cd = take (unat n - unat br) ?cd"
      using lcd by (simp add: k_def min_def)
    also have "unat n - (unat br + k) = unat n - unat br - length ?cd"
      using lcd by (simp add: k_def min_def)
    finally show ?thesis by (simp only: cd take_append append_assoc)
  qed
qed

lemma fat32_read_chain:
  assumes disk: "sector_disk disk" and geo: "fat32_geometry priv"
    and cb0: "length cb0 = unat (bytes_per_cluster priv)"
    and find: "fat32_find_file disk priv (Some cb0) path (0, 0) = Some (0, c, fsize)"
    and chain: "fat_chain disk priv c cs" and fits: "unat fsize \<le> length (chain_data disk priv cs)"
    and lim: "unat offset + unat n < 2 ^ 31" and buf: "unat n \<le> length buf" and off: "offset < fsize"
    and m: "m = min (unat n) (unat fsize - unat offset)"
  shows "fat32_read disk (Some cb0) priv path buf n offset =
    Some (int m, take m (drop (unat offset) (chain_data disk priv cs)) @ drop m buf)"
proof -
  let ?B = "unat (bytes_per_cluster priv)"
  note bpc = geometry_bpc [OF geo]
  define n' where "n' = (if fsize < offset + n then fsize - offset else n)"
  have on: "unat (offset + n) = unat offset + unat n" using lim by (intro unat_add_small) simp
  have n': "unat n' = m"
    using off on unat_sub_small [of offset fsize] m by (auto simp: n'_def word_less_nat_alt min_def)
  have dm: "unat (offset div bytes_per_cluster priv) = unat offset div ?B"
      "unat (offset mod bytes_per_cluster priv) = unat offset mod ?B"
    by (simp_all add: unat_div unat_mod)
  have "unat offset < length cs * ?B"
    using off fits length_chain_data [OF disk geo] by (simp add: word_less_nat_alt)
  then have k: "unat offset div ?B < length cs" by (simp add: less_mult_imp_div_less)
  have md: "unat offset mod ?B < ?B" using bpc by simp
  have data: "drop (unat offset mod ?B) (chain_data disk priv (drop (unat offset div ?B) cs)) =
      drop (unat offset) (chain_data disk priv cs)"
    by (simp flip: drop_chain_data [OF disk geo])
  have mo: "m \<le> length (drop (unat offset) (chain_data disk priv cs))" using m fits off
    by (auto simp: word_less_nat_alt)
  note sk = fat32_skip_chain [OF chain k]
  have "fat32_read_loop disk priv (Some cb0) n' (cs ! (unat offset div ?B)) 0 (offset mod bytes_per_cluster priv) buf =
      Some (int (unat n'), take (unat (0 :: u32)) buf @ take (unat n' - unat (0 :: u32))
        (drop (unat (offset mod bytes_per_cluster priv)) (chain_data disk priv (drop (unat offset div ?B) cs))) @ drop (unat n') buf)"
    using sk n' m lim buf md mo dm data
    by (intro fat32_read_loop_chain [OF disk geo cb0]) auto
  moreover have "\<not> fsize \<le> offset" using off by simp
  ultimately show ?thesis using find sk bpc(3) n' dm data
    by (simp add: fat32_read_def n'_def [symmetric] Let_def)
qed

section \<open>Directories\<close>

lemma dir_lookup_append:
  "dir_lookup fn (xs @ ys) = (case dir_lookup fn xs of Scan_More \<Rightarrow> dir_lookup fn ys | s \<Rightarrow> s)"
  by (induction xs) simp_all

lemma dirent_slice:
  assumes "i + 32 \<le> length b"
  shows "take 32 (drop i b) ! 0 = b ! i" "take 32 (drop i b) ! 11 = b ! (i + 11)"
    "take 11 (take 32 (drop i b)) = take 11 (drop i b)"
    "dirent_cluster (take 32 (drop i b)) 0 = dirent_cluster b i"
    "le32_at (take 32 (drop i b)) 28 = le32_at b (i + 28)"
  using assms by (simp_all add: dirent_cluster_def le16_at_slice le32_at_slice min_def)

lemma entries_step:
  assumes "i + 32 \<le> length b"
  shows "blocks 32 (drop i b) = take 32 (drop i b) # blocks 32 (drop (i + 32) b)"
  using assms by (subst blocks.simps) (simp add: add.commute)

lemma fat32_scan_range:
  "length b = 32 * n \<Longrightarrow> k \<le> n \<Longrightarrow>
   fat32_scan fn b (map (\<lambda>k. 32 * k) [k..<n]) = Some (dir_lookup fn (blocks 32 (drop (32 * k) b)))"
proof (induction "n - k" arbitrary: k)
  case 0
  then show ?case by simp
next
  case (Suc d)
  then have kn: "k < n" "32 * k + 32 \<le> length b" by simp_all
  have IH: "fat32_scan fn b (map (\<lambda>k. 32 * k) [Suc k..<n]) = Some (dir_lookup fn (blocks 32 (drop (32 * k + 32) b)))"
    using Suc.hyps(1) [of "Suc k"] Suc.hyps(2) Suc.prems kn by (simp add: add.commute)
  show ?case
    using kn IH by (simp add: upt_conv_Cons entries_step [OF kn(2)] dirent_slice [OF kn(2)] del: upt_Suc)
qed

lemma fat32_scan_entries:
  assumes "length b = unat bpc" and "32 dvd unat bpc"
  shows "fat32_scan fn b (dirent_offsets bpc) = Some (dir_lookup fn (blocks 32 b))"
proof -
  obtain n where n: "unat bpc = 32 * n" using assms(2) by blast
  then have "(unat bpc + 31) div 32 = n" by simp
  then show ?thesis using fat32_scan_range [of b n 0 fn] assms(1) n by (simp add: dirent_offsets_def)
qed

lemma entries_chain_Cons:
  assumes "sector_disk disk" and "fat32_geometry priv"
  shows "blocks 32 (chain_data disk priv (x # xs)) =
    blocks 32 (cluster_data disk priv x) @ blocks 32 (chain_data disk priv xs)"
  using blocks_append_aligned [of 32 "cluster_data disk priv x"] length_cluster_data [OF assms, of x]
    geometry_bpc(4) [OF assms(2)] by simp

lemma fat32_search_chain:
  assumes disk: "sector_disk disk" and geo: "fat32_geometry priv"
  shows "fat_chain disk priv c cs \<Longrightarrow> length buf = unat (bytes_per_cluster priv) \<Longrightarrow>
    fat32_search disk priv fn c buf = Some (scan_result (dir_lookup fn (blocks 32 (chain_data disk priv cs))))"
proof (induction cs arbitrary: c buf)
  case Nil
  then have "\<not> c < 0x0FFFFFF8" by simp
  then show ?case by (subst fat32_search.simps) (simp add: scan_result_def)
next
  case (Cons x xs)
  then obtain y where y: "c = x" "2 \<le> x" "x < 0x0FFFFFF8" "x < total_clusters priv + 2"
      "fat32_get_cluster disk priv x = Some y" "fat_chain disk priv y xs"
    by (auto split: option.splits)
  have l: "length (cluster_data disk priv x) = unat (bytes_per_cluster priv)"
    by (rule length_cluster_data [OF disk geo])
  show ?case
    using y Cons.IH [OF y(6) l] fat32_read_cluster_data [OF disk geo y(2,4) Cons.prems(2)]
      fat32_scan_entries [OF l geometry_bpc(4) [OF geo], of fn]
    by (subst fat32_search.simps)
      (simp add: entries_chain_Cons [OF disk geo] dir_lookup_append scan_result_def
        del: chain_data_simps split: dir_scan.split)
qed

text \<open>What the driver looks up: every component in the one directory given by \<open>lookup\<close>.\<close>

fun flat_find :: "(u8 list \<Rightarrow> (u32 \<times> u32) option) \<Rightarrow> u8 list list \<Rightarrow> u32 \<times> u32 \<Rightarrow> int \<times> u32 \<times> u32" where
  "flat_find lookup [] out = (0, out)"
| "flat_find lookup (c # cs) out = (case lookup c of None \<Rightarrow> (-1, out) | Some f \<Rightarrow> flat_find lookup cs f)"

definition root_lookup :: "disk \<Rightarrow> fat32_private \<Rightarrow> u32 list \<Rightarrow> u8 list \<Rightarrow> (u32 \<times> u32) option" where
  "root_lookup disk priv cs name =
     scan_result (dir_lookup (fatname_of name) (blocks 32 (chain_data disk priv cs)))"

definition fat_component :: "u8 list \<Rightarrow> bool" where
  "fat_component c \<longleftrightarrow> c \<noteq> [] \<and> 47 \<notin> set c \<and> length c < 256"

definition abs_path :: "u8 list list \<Rightarrow> u8 list" where
  "abs_path cs = concat (map (\<lambda>c. 47 # c) cs)"

lemma abs_path_simps [simp]: "abs_path [] = []" "abs_path (c # cs) = 47 # c @ abs_path cs"
  by (simp_all add: abs_path_def)

lemma component_split:
  assumes "fat_component c"
  shows "takeWhile (\<lambda>x. x \<noteq> 47) (c @ abs_path cs) = c" "dropWhile (\<lambda>x. x \<noteq> 47) (c @ abs_path cs) = abs_path cs"
    "dropWhile (\<lambda>x. x = 47) (c @ abs_path cs) = c @ abs_path cs" "c @ abs_path cs \<noteq> []"
proof -
  have p: "\<forall>x \<in> set c. x \<noteq> 47" and n: "c \<noteq> []" using assms by (auto simp: fat_component_def)
  have hd: "takeWhile (\<lambda>x. x \<noteq> 47) (abs_path cs) = []" "dropWhile (\<lambda>x. x \<noteq> 47) (abs_path cs) = abs_path cs"
    by (cases cs; simp)+
  show "takeWhile (\<lambda>x. x \<noteq> 47) (c @ abs_path cs) = c" "dropWhile (\<lambda>x. x \<noteq> 47) (c @ abs_path cs) = abs_path cs"
    using p hd by simp_all
  show "dropWhile (\<lambda>x. x = 47) (c @ abs_path cs) = c @ abs_path cs" "c @ abs_path cs \<noteq> []"
    using p n by (cases c; simp)+
qed

lemma fat32_find_file_step:
  assumes "fat_component c" and "dropWhile (\<lambda>x. x = 47) path = c @ abs_path cs"
    and "fat32_search disk priv (fatname_of c) (root_dir_first_cluster priv) cb = Some r"
  shows "fat32_find_file disk priv (Some cb) path out =
    (case r of None \<Rightarrow> Some (-1, out)
     | Some f \<Rightarrow> if cs = [] then Some (0, f) else fat32_find_file disk priv (Some cb) (tl (abs_path cs)) f)"
proof -
  have "abs_path cs = [] \<longleftrightarrow> cs = []" by (cases cs) simp_all
  then show ?thesis
    using assms component_split [OF assms(1), of cs]
    by (subst fat32_find_file.simps) (simp add: Let_def fat_component_def split: option.split)
qed

lemma fat32_find_file_flat:
  assumes disk: "sector_disk disk" and geo: "fat32_geometry priv"
    and cb: "length cb = unat (bytes_per_cluster priv)"
    and chain: "fat_chain disk priv (root_dir_first_cluster priv) rcs"
  shows "cs \<noteq> [] \<Longrightarrow> \<forall>c \<in> set cs. fat_component c \<Longrightarrow>
    dropWhile (\<lambda>x. x = 47) path = dropWhile (\<lambda>x. x = 47) (abs_path cs) \<Longrightarrow>
    fat32_find_file disk priv (Some cb) path out = Some (flat_find (root_lookup disk priv rcs) cs out)"
proof (induction cs arbitrary: path out)
  case Nil
  then show ?case by simp
next
  case (Cons c cs)
  then have c: "fat_component c" and cs: "\<forall>c \<in> set cs. fat_component c" by simp_all
  have p: "dropWhile (\<lambda>x. x = 47) path = c @ abs_path cs"
    using Cons.prems(3) component_split(3) [OF c] by simp
  have tl: "dropWhile (\<lambda>x. x = 47) (tl (abs_path cs)) = dropWhile (\<lambda>x. x = 47) (abs_path cs)"
    by (cases cs) simp_all
  have s: "fat32_search disk priv (fatname_of c) (root_dir_first_cluster priv) cb = Some (root_lookup disk priv rcs c)"
    using fat32_search_chain [OF disk geo chain cb] by (simp add: root_lookup_def)
  show ?case
    using fat32_find_file_step [OF c p s, of out] Cons.IH [OF _ cs tl]
    by (cases "cs = []") (simp_all split: option.split)
qed

section \<open>Listings\<close>

text \<open>The text of a directory listing in a buffer of \<open>n\<close> bytes of which \<open>off\<close> are used, and whether the
  listing stops there.\<close>

fun dir_listing :: "nat \<Rightarrow> nat \<Rightarrow> u8 list list \<Rightarrow> bool \<times> u8 list" where
  "dir_listing n off [] = (False, [])"
| "dir_listing n off (e # es) =
     (if e ! 0 = 0 then (True, [])
      else if e ! 0 = 0xE5 \<or> e ! 11 AND 0x0F = 0x0F then dir_listing n off es
      else let name = dirent_name (take 11 e) in
        if n < off + length name + 2 then (True, [])
        else let (s, t) = dir_listing n (off + length name + 1) es in (s, name @ [10] @ t))"

lemma dir_listing_append:
  "dir_listing n off (xs @ ys) =
     (let (s, t) = dir_listing n off xs in
      if s then (True, t) else let (s', t') = dir_listing n (off + length t) ys in (s', t @ t'))"
  by (induction n off xs rule: dir_listing.induct) (simp_all add: Let_def split_beta add.assoc)

lemma dir_listing_fits: "dir_listing n off es = (s, t) \<Longrightarrow> off \<le> n \<Longrightarrow> off + length t \<le> n"
proof (induction n off es arbitrary: s t rule: dir_listing.induct)
  case (2 n off e es)
  define name where "name = dirent_name (take 11 e)"
  show ?case
  proof (cases "e ! 0 = 0 \<or> e ! 0 = 0xE5 \<or> e ! 11 AND 0x0F = 0x0F \<or> n < off + length name + 2")
    case True
    then show ?thesis using 2 by (auto simp: name_def [symmetric] Let_def split: if_splits)
  next
    case False
    then obtain t' where t': "dir_listing n (off + length name + 1) es = (s, t')" "t = name @ [10] @ t'"
      using "2.prems"(1) by (auto simp: name_def [symmetric] Let_def split: prod.splits)
    then show ?thesis using "2.IH"(2) [of name s t'] False by (auto simp: name_def [symmetric])
  qed
qed simp

lemma dirent_name_length: "length (dirent_name nm) \<le> 12"
proof -
  let ?P = "\<lambda>c :: u8. c \<noteq> 32"
  have "length (takeWhile ?P (take 8 nm)) \<le> 8" "length (takeWhile ?P (take 3 (drop 8 nm))) \<le> 3"
    using length_takeWhile_le [of ?P "take 8 nm"] length_takeWhile_le [of ?P "take 3 (drop 8 nm)"] by simp_all
  then show ?thesis by (simp add: dirent_name_def)
qed

definition listing_offset :: "bool \<Rightarrow> nat \<Rightarrow> u32 + u32" where
  "listing_offset s off = (if s then Inl (of_nat off) else Inr (of_nat off))"

lemma fat32_list_scan_range:
  assumes b: "length b = 32 * m" and n: "unat n < 2 ^ 31"
  shows "k \<le> m \<Longrightarrow> off \<le> unat n \<Longrightarrow> unat n \<le> length buf \<Longrightarrow>
    dir_listing (unat n) off (blocks 32 (drop (32 * k) b)) = (s, t) \<Longrightarrow>
    fat32_list_scan n b (map (\<lambda>k. 32 * k) [k..<m]) (of_nat off) buf =
      Some (listing_offset s (off + length t), take off buf @ t @ drop (off + length t) buf)"
proof (induction "m - k" arbitrary: k off buf s t)
  case 0
  then show ?case using b by (simp add: listing_offset_def)
next
  case (Suc d)
  then have kn: "k < m" "32 * k + 32 \<le> length b" using b by simp_all
  let ?e = "take 32 (drop (32 * k) b)"
  let ?es = "blocks 32 (drop (32 * Suc k) b)"
  define name where "name = dirent_name (take 11 (drop (32 * k) b))"
  have list: "dir_listing (unat n) off (?e # ?es) = (s, t)"
    using Suc.prems(4) entries_step [OF kn(2)] by (simp add: add.commute)
  have IH: "\<And>off buf s t. off \<le> unat n \<Longrightarrow> unat n \<le> length buf \<Longrightarrow> dir_listing (unat n) off ?es = (s, t) \<Longrightarrow>
    fat32_list_scan n b (map (\<lambda>k. 32 * k) [Suc k..<m]) (of_nat off) buf =
      Some (listing_offset s (off + length t), take off buf @ t @ drop (off + length t) buf)"
    using Suc.hyps kn by (intro Suc.hyps(1)) simp_all
  have upt: "[k..<m] = k # [Suc k..<m]" using kn by (simp add: upt_conv_Cons)
  have nl: "length name \<le> 12" by (simp add: name_def dirent_name_length)
  have uo: "unat (of_nat off :: u32) = off" using Suc.prems(2) n by (intro unat_of_nat_small) simp
  have room: "n < of_nat off + (of_nat (length name) + 2) \<longleftrightarrow> unat n < off + length name + 2"
  proof -
    have "unat (of_nat (off + (length name + 2)) :: u32) = off + (length name + 2)"
      using Suc.prems(2) n nl by (intro unat_of_nat_small) simp
    moreover have "(of_nat off + (of_nat (length name) + 2) :: u32) = of_nat (off + (length name + 2))" by simp
    ultimately show ?thesis by (simp only: word_less_nat_alt add.assoc)
  qed
  consider (stop) "?e ! 0 = 0" | (skip) "?e ! 0 \<noteq> 0" "?e ! 0 = 0xE5 \<or> ?e ! 11 AND 0x0F = 0x0F"
    | (name) "?e ! 0 \<noteq> 0" "\<not> (?e ! 0 = 0xE5 \<or> ?e ! 11 AND 0x0F = 0x0F)" by blast
  then show ?case
  proof cases
    case stop
    then show ?thesis using list kn by (simp add: upt listing_offset_def dirent_slice [OF kn(2)])
  next
    case skip
    then show ?thesis using list kn IH [OF Suc.prems(2,3), of s t] by (simp add: upt dirent_slice [OF kn(2)])
  next
    case name
    show ?thesis
    proof (cases "unat n < off + length name + 2")
      case True
      then show ?thesis using name list kn room
        by (simp add: upt listing_offset_def dirent_slice [OF kn(2)] name_def [symmetric] Let_def add.assoc)
    next
      case False
      let ?off = "off + length name + 1"
      let ?buf = "take off buf @ (name @ [10]) @ drop ?off buf"
      obtain t' where t': "dir_listing (unat n) ?off ?es = (s, t')" "t = name @ [10] @ t'"
        using list name False by (auto simp: dirent_slice [OF kn(2)] name_def [symmetric] Let_def split: prod.splits)
      have cp: "memcpy buf off (name @ [10]) 0 (length name + 1) = Some ?buf"
        using False Suc.prems(3) by (simp add: memcpy_def)
      have lo: "?off \<le> unat n" using False by simp
      have lb: "unat n \<le> length ?buf" using False Suc.prems(3) by simp
      have "fat32_list_scan n b (map (\<lambda>k. 32 * k) [k..<m]) (of_nat off) buf =
          fat32_list_scan n b (map (\<lambda>k. 32 * k) [Suc k..<m]) (of_nat ?off) ?buf"
        using False name kn room cp uo
        by (simp add: upt dirent_slice [OF kn(2)] name_def [symmetric] Let_def add.assoc add.commute [of 1])
      also have "\<dots> = Some (listing_offset s (?off + length t'), take ?off ?buf @ t' @ drop (?off + length t') ?buf)"
        by (rule IH [OF lo lb t'(1)])
      also have "take ?off ?buf = take off buf @ name @ [10]" using lo Suc.prems(3) by simp
      also have "drop (?off + length t') ?buf = drop (?off + length t') buf" using lo Suc.prems(3) by (simp add: ac_simps)
      finally show ?thesis using t'(2) by (simp add: add.assoc)
    qed
  qed
qed

section \<open>Listings of chains\<close>

lemma fat32_list_scan_entries:
  assumes "length b = unat bpc" and "32 dvd unat bpc" and "unat n < 2 ^ 31" and "off \<le> unat n"
    and "unat n \<le> length buf" and "dir_listing (unat n) off (blocks 32 b) = (s, t)"
  shows "fat32_list_scan n b (dirent_offsets bpc) (of_nat off) buf =
    Some (listing_offset s (off + length t), take off buf @ t @ drop (off + length t) buf)"
proof -
  obtain m where m: "unat bpc = 32 * m" using assms(2) by blast
  then have "(unat bpc + 31) div 32 = m" by simp
  then show ?thesis using fat32_list_scan_range [of b m n 0 off buf s t] assms m by (simp add: dirent_offsets_def)
qed

lemma sint_of_nat_small: "k < 2 ^ 31 \<Longrightarrow> sint (of_nat k :: u32) = int k"
  using sint_u32_small [of "of_nat k"] unat_of_nat_small [of k, where 'a = 32] by simp

lemma fat32_list_loop_chain:
  assumes disk: "sector_disk disk" and geo: "fat32_geometry priv" and n: "unat n < 2 ^ 31"
  shows "fat_chain disk priv c cs \<Longrightarrow> length cb = unat (bytes_per_cluster priv) \<Longrightarrow> off \<le> unat n \<Longrightarrow>
    unat n \<le> length buf \<Longrightarrow> dir_listing (unat n) off (blocks 32 (chain_data disk priv cs)) = (s, t) \<Longrightarrow>
    fat32_list_loop disk priv n c cb (of_nat off) buf =
      Some (int (off + length t), take off buf @ t @ drop (off + length t) buf)"
proof (induction cs arbitrary: c cb off buf t)
  case Nil
  then have "\<not> c < 0x0FFFFFF8" by simp
  then show ?case using Nil n by (subst fat32_list_loop.simps) (simp add: sint_of_nat_small)
next
  case (Cons x xs)
  from Cons.prems(1) obtain y where y: "c = x" "2 \<le> x" "x < 0x0FFFFFF8" "x < total_clusters priv + 2"
      "fat32_get_cluster disk priv x = Some y" "fat_chain disk priv y xs"
    by (auto split: option.splits)
  have l: "length (cluster_data disk priv x) = unat (bytes_per_cluster priv)"
    by (rule length_cluster_data [OF disk geo])
  obtain s1 t1 where 1: "dir_listing (unat n) off (blocks 32 (cluster_data disk priv x)) = (s1, t1)"
    by fastforce
  have fit: "off + length t1 \<le> unat n" by (rule dir_listing_fits [OF 1 Cons.prems(3)])
  note scan = fat32_list_scan_entries [OF l geometry_bpc(4) [OF geo] n Cons.prems(3,4) 1]
  note rc = fat32_read_cluster_data [OF disk geo y(2,4) Cons.prems(2)]
  have whole: "(s, t) = (if s1 then (True, t1) else let (s', t') = dir_listing (unat n) (off + length t1)
      (blocks 32 (chain_data disk priv xs)) in (s', t1 @ t'))"
    using Cons.prems(5) unfolding entries_chain_Cons [OF disk geo] dir_listing_append 1 by simp
  let ?buf = "take off buf @ t1 @ drop (off + length t1) buf"
  show ?case
  proof (cases s1)
    case True
    have "sint (of_nat (off + length t1) :: u32) = int (off + length t1)"
      using fit n by (intro sint_of_nat_small) simp
    then show ?thesis using y rc scan whole True
      by (subst fat32_list_loop.simps) (simp add: listing_offset_def)
  next
    case False
    then obtain t' where t': "dir_listing (unat n) (off + length t1) (blocks 32 (chain_data disk priv xs)) = (s, t')"
        "t = t1 @ t'" using whole by (auto split: prod.splits)
    have lb: "unat n \<le> length ?buf" using Cons.prems(4) fit by simp
    have "fat32_list_loop disk priv n c cb (of_nat off) buf =
        fat32_list_loop disk priv n y (cluster_data disk priv x) (of_nat (off + length t1)) ?buf"
      using y rc scan False by (subst fat32_list_loop.simps) (simp add: listing_offset_def)
    also have "\<dots> = Some (int (off + length t1 + length t'),
        take (off + length t1) ?buf @ t' @ drop (off + length t1 + length t') ?buf)"
      by (rule Cons.IH [OF y(6) l fit lb t'(1)])
    also have "take (off + length t1) ?buf = take off buf @ t1" using fit Cons.prems(4) by simp
    also have "drop (off + length t1 + length t') ?buf = drop (off + length t1 + length t') buf"
      using fit Cons.prems(4) by (simp add: ac_simps)
    finally show ?thesis using t'(2) by (simp add: add.assoc)
  qed
qed

section \<open>Cyclic chains\<close>

lemma fat32_search_cycle:
  assumes disk: "sector_disk disk" and geo: "fat32_geometry priv" and c: "2 \<le> c" "c < total_clusters priv + 2"
    and cyc: "fat32_get_cluster disk priv c = Some c"
    and more: "dir_lookup fn (blocks 32 (cluster_data disk priv c)) = Scan_More"
    and buf: "length buf = unat (bytes_per_cluster priv)" and small: "c < 0x0FFFFFF8"
  shows "fat32_search disk priv fn c buf = None"
proof (rule ccontr)
  assume "fat32_search disk priv fn c buf \<noteq> None"
  then obtain r where r: "fat32_search disk priv fn c buf = Some r" by auto
  define P where "P = (\<lambda>(d :: disk) (p :: fat32_private) (f :: u8 list) (x :: u32) (b :: u8 list) (r :: (u32 \<times> u32) option).
    d = disk \<and> p = priv \<and> f = fn \<and> x = c \<and> length b = unat (bytes_per_cluster priv) \<longrightarrow> False)"
  have "P disk priv fn c buf r"
  proof (rule fat32_search.raw_induct [OF _ r, of P], goal_cases)
    case (1 search d p f x b r)
    show ?case
    proof (unfold P_def, intro impI, elim conjE)
      assume eqs: "d = disk" "p = priv" "f = fn" "x = c" "length b = unat (bytes_per_cluster priv)"
      have l: "length (cluster_data disk priv c) = unat (bytes_per_cluster priv)"
        by (rule length_cluster_data [OF disk geo])
      have "search disk priv fn c (cluster_data disk priv c) = Some r"
        using 1(2) eqs small fat32_read_cluster_data [OF disk geo c eqs(5)] cyc more
          fat32_scan_entries [OF l geometry_bpc(4) [OF geo], of fn]
        by simp
      from 1(1) [OF this] l show False by (simp add: P_def)
    qed
  qed
  then show False using buf by (simp add: P_def)
qed

section \<open>Detection and mounting\<close>

lemma fat32_detect_mount:
  assumes "fat32_detect disk lba"
  shows "\<exists>priv. fat32_mount disk True lba = Some (Some priv) \<and>
    unat (bytes_per_cluster priv) = unat (bytes_per_sector (fat_bs priv)) * unat (sectors_per_cluster (fat_bs priv)) \<and>
    512 \<le> bytes_per_cluster priv \<and>
    (bytes_per_sector (fat_bs priv) = 512 \<longrightarrow> fat32_geometry priv)"
proof -
  define bs where "bs = fat32_bs_of (disk lba)"
  have sig: "boot_signature_55aa bs = 0xAA55" and bps: "512 \<le> bytes_per_sector bs" "bytes_per_sector bs \<le> 4096"
    and spc: "sectors_per_cluster bs \<noteq> 0"
    using assms by (auto simp: fat32_detect_def bs_def [symmetric] Let_def split: if_splits)
  have b1: "512 \<le> unat (bytes_per_sector bs)" "unat (bytes_per_sector bs) \<le> 4096" "0 < unat (sectors_per_cluster bs)"
    using bps spc by (simp_all add: word_le_nat_alt unat_gt_0)
  have le: "unat (bytes_per_sector bs) * unat (sectors_per_cluster bs) \<le> 4096 * 255"
    using b1 spc_less [of bs] by (intro mult_mono) simp_all
  have u: "unat (ucast (bytes_per_sector bs) * ucast (sectors_per_cluster bs) :: u32) =
      unat (bytes_per_sector bs) * unat (sectors_per_cluster bs)"
  proof -
    have "(ucast (bytes_per_sector bs) * ucast (sectors_per_cluster bs) :: u32) =
        of_nat (unat (bytes_per_sector bs) * unat (sectors_per_cluster bs))" by simp
    then show ?thesis using le by (simp only:) (intro unat_of_nat_small, simp)
  qed
  moreover have "512 * 1 \<le> unat (bytes_per_sector bs) * unat (sectors_per_cluster bs)"
    using b1 by (intro mult_mono) simp_all
  ultimately show ?thesis using sig spc
    by (auto simp: fat32_mount_def bs_def [symmetric] Let_def fat32_geometry_def word_le_nat_alt word_neq_0_conv)
qed

lemma fat32_read_file_bytes:
  assumes "sector_disk disk" and "fat32_geometry priv" and "length cb = unat (bytes_per_cluster priv)"
    and "fat_chain disk priv (root_dir_first_cluster priv) rcs"
    and "fat_component name" and "root_lookup disk priv rcs name = Some (c, fsize)"
    and "fat_chain disk priv c cs" and "unat fsize \<le> length (chain_data disk priv cs)"
    and "unat offset + unat n < 2 ^ 31" and "unat n \<le> length buf"
    and "file = take (unat fsize) (chain_data disk priv cs)"
    and "got = take (unat n) (drop (unat offset) file)"
  shows "fat32_read disk (Some cb) priv (47 # name) buf n offset =
    Some (int (length got), got @ drop (length got) buf)"
proof -
  have find: "fat32_find_file disk priv (Some cb) (47 # name) (0, 0) = Some (0, c, fsize)"
    using fat32_find_file_flat [OF assms(1-4), of "[name]" "47 # name"] assms(5,6) by simp
  show ?thesis
  proof (cases "offset < fsize")
    case True
    define m where "m = min (unat n) (unat fsize - unat offset)"
    have "got = take m (drop (unat offset) (chain_data disk priv cs))"
      using assms(11,12) by (simp add: m_def drop_take min.commute)
    moreover have "length got = m" using assms(8,11,12) by (simp add: m_def)
    ultimately show ?thesis
      using fat32_read_chain [OF assms(1-3) find assms(7-10) True m_def] by simp
  next
    case False
    then have "got = []" using assms(11,12) by (simp add: word_less_nat_alt)
    moreover have "fsize \<le> offset" using False by simp
    ultimately show ?thesis using find by (simp add: fat32_read_def)
  qed
qed

section \<open>A sample volume\<close>

text \<open>Sector 0 is the boot sector, 1 the table, 2 the root directory with the entries \<open>DIR\<close> and
  \<open>A.TXT\<close>, 3 the file, and the cluster in sector 4 is linked to itself.\<close>

definition sample_disk :: disk where
  "sample_disk s =
     (if s = 0 then
        [0xEB, 0x58, 0x90] @ replicate 8 0 @ [0, 2, 1, 1, 0, 1] @ replicate 15 0 @ [8, 0, 0, 0, 1, 0, 0, 0] @
        replicate 4 0 @ [2, 0, 0, 0] @ replicate 34 0 @ [70, 65, 84, 51, 50, 32, 32, 32] @ replicate 420 0 @ [0x55, 0xAA]
      else if s = 1 then
        replicate 8 0xFF @ [0xFF, 0xFF, 0xFF, 0x0F, 0xFF, 0xFF, 0xFF, 0x0F, 4, 0, 0, 0] @ replicate 492 0
      else if s = 2 then
        [68, 73, 82] @ replicate 8 32 @ [0x10] @ replicate 14 0 @ [4, 0] @ replicate 4 0 @
        [65] @ replicate 7 32 @ [84, 88, 84, 0x20] @ replicate 14 0 @ [3, 0, 5, 0, 0, 0] @ replicate 448 0
      else if s = 3 then [104, 101, 108, 108, 111] @ replicate 507 0
      else replicate 512 0xE5)"

definition sample_fat :: fat32_private where
  "sample_fat =
     \<lparr>fat_lba = 0, fat_bs = fat32_bs_of (sample_disk 0), fat_begin_lba = 1, cluster_begin_lba = 2,
      root_dir_first_cluster = 2, bytes_per_cluster = 512, total_clusters = 6\<rparr>"

lemma sample_sector_disk: "sector_disk sample_disk"
  by (simp add: sector_disk_def sample_disk_def)

lemma fat_sample_mount: "fat32_mount sample_disk True 0 = Some (Some sample_fat)"
  by code_simp

lemma sample_geometry: "fat32_geometry sample_fat"
  by code_simp

lemma sample_chains: "fat_chain sample_disk sample_fat 2 [2]" "fat_chain sample_disk sample_fat 3 [3]"
  by code_simp+

lemma sample_lookup:
  "root_lookup sample_disk sample_fat [2] [97, 46, 116, 120, 116] = Some (3, 5)"
  "root_lookup sample_disk sample_fat [2] [68, 105, 114] = Some (4, 0)"
  by code_simp+

section \<open>Properties\<close>

text \<open>C3: Reading a file of the root directory through a well-formed volume whose cluster chain holds
  at least \<open>fsize\<close> bytes returns exactly the bytes of the file from the offset on, as many as were asked
  for or are left, stored at the front of the caller's buffer with the rest of it unchanged; the walk
  along the chain ends and never leaves a buffer.\<close>

theorem fat32_read_refines_file:
  assumes "sector_disk disk" and "fat32_geometry priv" and "length cb = unat (bytes_per_cluster priv)"
    and "fat_chain disk priv (root_dir_first_cluster priv) rcs"
    and "fat_component name" and "root_lookup disk priv rcs name = Some (c, fsize)"
    and "fat_chain disk priv c cs" and "unat fsize \<le> length (chain_data disk priv cs)"
    and "unat offset + unat n < 2 ^ 31" and "unat n \<le> length buf"
    and "file = take (unat fsize) (chain_data disk priv cs)"
    and "got = take (unat n) (drop (unat offset) file)"
  shows "fat32_read disk (Some cb) priv (47 # name) buf n offset =
    Some (int (length got), got @ drop (length got) buf)"
  by (rule fat32_read_file_bytes [OF assms])

theorem fat32_read_refines_file_witness:
  "fat32_read sample_disk (Some (replicate 512 7)) sample_fat [47, 97, 46, 116, 120, 116] [1, 2, 3, 4, 5, 6] 6 1 =
     Some (4, [101, 108, 108, 111, 5, 6])"
proof -
  have d: "chain_data sample_disk sample_fat [3] = [104, 101, 108, 108, 111] @ replicate 507 0" by code_simp
  have r: "root_dir_first_cluster sample_fat = 2" "bytes_per_cluster sample_fat = 512" by (simp_all add: sample_fat_def)
  have root: "fat_chain sample_disk sample_fat (root_dir_first_cluster sample_fat) [2]"
    by (simp only: r sample_chains)
  have "fat32_read sample_disk (Some (replicate 512 7)) sample_fat (47 # [97, 46, 116, 120, 116]) [1, 2, 3, 4, 5, 6] 6 1 =
    Some (int (length [101, 108, 108, 111 :: u8]), [101, 108, 108, 111] @ drop (length [101, 108, 108, 111 :: u8]) [1, 2, 3, 4, 5, 6])"
    by (rule fat32_read_refines_file [OF sample_sector_disk sample_geometry _ root _ sample_lookup(1) sample_chains(2)
        _ _ _ refl]) (simp_all only: r d, simp_all add: fat_component_def)
  then show ?thesis by simp
qed

text \<open>A path of several components is looked up one component after the other in the root directory:
  \<open>fat32_find_file\<close> restarts there for the rest of the path, so it returns what the root directory holds
  for the last component, provided the root directory has entries for all the others, whatever the
  directories on the way contain.\<close>

lemma fat32_find_file_restarts_at_root:
  assumes "sector_disk disk" and "fat32_geometry priv" and "length cb = unat (bytes_per_cluster priv)"
    and "fat_chain disk priv (root_dir_first_cluster priv) rcs"
    and "cs \<noteq> []" and "\<forall>c \<in> set cs. fat_component c"
  shows "fat32_find_file disk priv (Some cb) (abs_path cs) out = Some (flat_find (root_lookup disk priv rcs) cs out)"
  using fat32_find_file_flat [OF assms refl] .

text \<open>Listing the root directory writes the names of the live short-name entries up to the end mark,
  one per line, as far as whole lines fit the buffer, and returns the number of bytes written.\<close>

lemma fat32_read_dir_lists_names:
  assumes "sector_disk disk" and "fat32_geometry priv" and "length cb = unat (bytes_per_cluster priv)"
    and "fat_chain disk priv (root_dir_first_cluster priv) rcs" and "unat n < 2 ^ 31" and "unat n \<le> length buf"
    and "dir_listing (unat n) 0 (blocks 32 (chain_data disk priv rcs)) = (s, t)"
  shows "fat32_read_dir disk (Some cb) priv [47] buf n = Some (int (length t), t @ drop (length t) buf) \<and>
    length t \<le> unat n"
proof -
  have "fat32_find_file disk priv (Some cb) [47] (0, 0) = Some (0, root_dir_first_cluster priv, 0)"
    by (subst fat32_find_file.simps) simp
  then show ?thesis
    using fat32_list_loop_chain [OF assms(1,2,5,4,3) _ assms(6,7)] dir_listing_fits [OF assms(7)]
    by (simp add: fat32_read_dir_def)
qed

text \<open>A volume that the driver detects can be mounted: the mount neither divides by zero nor wraps the
  cluster size, which is at least one sector, and for 512-byte sectors it satisfies the geometry the other
  operations need.\<close>

lemma fat32_detect_then_mount:
  assumes "fat32_detect disk lba"
  shows "\<exists>priv. fat32_mount disk True lba = Some (Some priv) \<and>
    unat (bytes_per_cluster priv) = unat (bytes_per_sector (fat_bs priv)) * unat (sectors_per_cluster (fat_bs priv)) \<and>
    512 \<le> bytes_per_cluster priv \<and>
    (bytes_per_sector (fat_bs priv) = 512 \<longrightarrow> fat32_geometry priv)"
  by (rule fat32_detect_mount [OF assms])



end
