(* ===== verification/Fs_Path.thy ===== *)
theory Fs_Path
  imports BH_Prelude "HOL-Library.Sublist"
begin

text \<open>
  The path helpers of \<^verbatim>\<open>fs/fs_common.c\<close> and \<^verbatim>\<open>fs/fs_mount.c\<close>. A C string is a list of characters
  without the terminating zero. An output buffer that the code bounds by a size is a list of that
  size, and a write outside it is \<^const>\<open>None\<close>. Where the two files define a function of the same
  name, the one of \<^verbatim>\<open>fs_mount.c\<close> carries the prefix \<open>fsm\<close>.
\<close>

section \<open>Strings\<close>

text \<open>\<open>strrchr\<close>: the string before and behind the last occurrence of a separator.\<close>

fun split_last :: "(char \<Rightarrow> bool) \<Rightarrow> string \<Rightarrow> (string \<times> string) option" where
  "split_last sep [] = None"
| "split_last sep (c # cs) =
     (case split_last sep cs of
        Some (a, b) \<Rightarrow> Some (c # a, b)
      | None \<Rightarrow> if sep c then Some ([], cs) else None)"

abbreviation is_slash :: "char \<Rightarrow> bool" where
  "is_slash c \<equiv> c = CHR ''/''"

definition is_sep :: "char \<Rightarrow> bool" where
  "is_sep c \<longleftrightarrow> c = CHR ''/'' \<or> c = CHR 0x5C"

text \<open>\<open>strtok\<close> with the delimiter slash: the maximal runs of other characters.\<close>

fun split_slash :: "string \<Rightarrow> string list" where
  "split_slash [] = [[]]"
| "split_slash (c # cs) =
     (if is_slash c then [] # split_slash cs
      else (case split_slash cs of t # ts \<Rightarrow> (c # t) # ts | [] \<Rightarrow> [[c]]))"

definition strtok_slash :: "string \<Rightarrow> string list" where
  "strtok_slash p = filter (\<lambda>t. t \<noteq> []) (split_slash p)"

section \<open>\<open>fs_common.c\<close>\<close>

definition to_lower :: "char \<Rightarrow> char" where
  "to_lower c = (let n = of_char c :: nat in if 65 \<le> n \<and> n \<le> 90 then char_of (n + 32) else c)"

text \<open>The sign of \<open>strcasecmp\<close>, as the difference of the first bytes that differ.\<close>

fun fs_filename_cmp :: "string \<Rightarrow> string \<Rightarrow> int" where
  "fs_filename_cmp [] [] = 0"
| "fs_filename_cmp [] (b # bs) = - int (of_char (to_lower b))"
| "fs_filename_cmp (a # as) [] = int (of_char (to_lower a))"
| "fs_filename_cmp (a # as) (b # bs) =
     (if to_lower a = to_lower b then fs_filename_cmp as bs
      else int (of_char (to_lower a)) - int (of_char (to_lower b)))"

definition fs_path_split :: "string \<Rightarrow> string \<times> string" where
  "fs_path_split path =
     (case split_last is_slash path of
        Some (d, f) \<Rightarrow> (if d \<noteq> [] then d else ''/'', f)
      | None \<Rightarrow> (''.'', path))"

definition fs_basename :: "string \<Rightarrow> string" where
  "fs_basename path = (case split_last is_slash path of Some (d, f) \<Rightarrow> f | None \<Rightarrow> path)"

text \<open>\<open>alloc\<close> says whether the allocator returns memory.\<close>

definition fs_join_path :: "bool \<Rightarrow> string ptr \<Rightarrow> string ptr \<Rightarrow> string ptr" where
  "fs_join_path alloc dir file =
     (case (dir, file) of
        (Some d, Some f) \<Rightarrow>
          if \<not> alloc then None
          else if d \<noteq> [] \<and> \<not> is_slash (last d) \<and> (f = [] \<or> \<not> is_slash (hd f)) then Some (d @ ''/'' @ f)
          else if d \<noteq> [] \<and> is_slash (last d) \<and> f \<noteq> [] \<and> is_slash (hd f) then Some (d @ tl f)
          else Some (d @ f)
      | _ \<Rightarrow> None)"

definition FS_MAX_PATH :: nat where "FS_MAX_PATH = 4096"

fun norm_tokens :: "bool \<Rightarrow> string list \<Rightarrow> string list \<Rightarrow> string list option" where
  "norm_tokens is_absolute components [] = Some components"
| "norm_tokens is_absolute components (t # ts) =
     (if t = ''.'' then norm_tokens is_absolute components ts
      else if t = ''..'' then
        (if components \<noteq> [] then norm_tokens is_absolute (butlast components) ts
         else if \<not> is_absolute then norm_tokens is_absolute [t] ts
         else norm_tokens is_absolute [] ts)
      else if t \<noteq> [] then
        (if FS_MAX_PATH \<le> length components then None
         else norm_tokens is_absolute (components @ [t]) ts)
      else norm_tokens is_absolute components ts)"

text \<open>The second loop: the result is the return code, the buffer and the write position.\<close>

fun norm_build :: "nat \<Rightarrow> bool \<Rightarrow> string list \<Rightarrow> nat \<Rightarrow> string \<Rightarrow> (int \<times> string \<times> nat) cmem" where
  "norm_build out_size first [] out_pos out = Some (0, out, out_pos)"
| "norm_build out_size first (c # cs) out_pos out =
     (if out_size \<le> out_pos + length c + (if first then 0 else 1) then Some (-1, out, out_pos)
      else do {
        (out1, p) \<leftarrow> (if first then Some (out, out_pos)
                      else do { o1 \<leftarrow> poke out out_pos (CHR ''/''); Some (o1, out_pos + 1) });
        out2 \<leftarrow> memcpy out1 p c 0 (length c);
        norm_build out_size False cs (p + length c) out2
      })"

text \<open>The C string a zero-terminated buffer holds.\<close>

definition c_string :: "string \<Rightarrow> string" where
  "c_string buf = takeWhile (\<lambda>c. c \<noteq> CHR 0x00) buf"

definition fs_normalize_path :: "bool \<Rightarrow> string ptr \<Rightarrow> string ptr \<Rightarrow> nat \<Rightarrow> (int \<times> string ptr) cmem" where
  "fs_normalize_path alloc path out out_size =
     (case (path, out) of
        (Some p, Some o0) \<Rightarrow>
          if out_size < 2 then Some (-1, out)
          else if \<not> alloc then Some (-1, out)
          else let is_absolute = (p \<noteq> [] \<and> is_slash (hd p)) in
            (case norm_tokens is_absolute [] (strtok_slash p) of
               None \<Rightarrow> Some (-1, out)
             | Some components \<Rightarrow> do {
                 (o1, pos) \<leftarrow> (if is_absolute then do { o1 \<leftarrow> poke o0 0 (CHR ''/''); Some (o1, 1) }
                               else Some (o0, 0));
                 (r, o2, pos2) \<leftarrow> norm_build out_size True components pos o1;
                 if r \<noteq> 0 then Some (-1, Some o2)
                 else do { o3 \<leftarrow> poke o2 pos2 (CHR 0x00); Some (0, Some o3) }
               })
      | _ \<Rightarrow> Some (-1, out))"

section \<open>\<open>fs_mount.c\<close>\<close>

definition fsm_basename :: "string \<Rightarrow> string" where
  "fsm_basename path = (case split_last is_sep path of Some (d, f) \<Rightarrow> f | None \<Rightarrow> path)"

text \<open>\<open>while (end > path \<and> cond *end) end--\<close>, with \<open>end\<close> as an index.\<close>

fun walk_back :: "(char \<Rightarrow> bool) \<Rightarrow> string \<Rightarrow> nat \<Rightarrow> nat" where
  "walk_back cond p 0 = 0"
| "walk_back cond p (Suc e) = (if cond (p ! Suc e) then walk_back cond p e else Suc e)"

definition fs_dirname :: "string \<Rightarrow> nat \<Rightarrow> string option" where
  "fs_dirname path bsize =
     (if bsize = 0 then None
      else let len = (if path = [] then 0
                      else walk_back (\<lambda>c. \<not> is_sep c) path (walk_back is_sep path (length path - 1)) + 1);
               len = (if bsize \<le> len then bsize - 1 else len)
           in Some (take len path))"

definition fsm_join_path :: "string \<Rightarrow> string \<Rightarrow> nat \<Rightarrow> string option" where
  "fsm_join_path dir file bsize =
     (if bsize = 0 then None
      else let d = rev (dropWhile is_sep (rev dir)); f = dropWhile is_sep file
           in if bsize < length d + 1 + length f + 1 then None
              else Some (d @ ''/'' @ f))"

section \<open>Lemmas\<close>

lemma split_last_Some:
  "split_last sep p = Some (a, b) \<Longrightarrow> \<exists>c. sep c \<and> p = a @ c # b \<and> (\<forall>x\<in>set b. \<not> sep x)"
  and split_last_None: "split_last sep p = None \<longleftrightarrow> (\<forall>x\<in>set p. \<not> sep x)"
proof (induction p arbitrary: a b)
  case (Cons c cs)
  {
    case 1
    then show ?case using Cons.IH by (fastforce split: option.splits if_splits)
  next
    case 2
    then show ?case using Cons.IH(2) by (auto split: option.splits)
  }
qed auto

lemma split_slash_nonempty: "split_slash p \<noteq> []"
  by (induction p) (auto split: list.splits)

lemma split_slash_no_slash: "t \<in> set (split_slash p) \<Longrightarrow> CHR ''/'' \<notin> set t"
  by (induction p arbitrary: t) (auto split: list.splits if_splits)

lemma split_slash_subset: "t \<in> set (split_slash p) \<Longrightarrow> set t \<subseteq> set p"
  by (induction p arbitrary: t) (fastforce split: list.splits if_splits)+

lemma split_slash_append:
  "CHR ''/'' \<notin> set t \<Longrightarrow> split_slash (t @ CHR ''/'' # q) = t # split_slash q"
  by (induction t) auto

lemma split_slash_single: "CHR ''/'' \<notin> set t \<Longrightarrow> split_slash t = [t]"
  by (induction t) auto

definition clean :: "string list \<Rightarrow> bool" where
  "clean cs \<longleftrightarrow> (\<forall>t\<in>set cs. t \<noteq> [] \<and> CHR ''/'' \<notin> set t)"

fun join_comps :: "string list \<Rightarrow> string" where
  "join_comps [] = []"
| "join_comps [c] = c"
| "join_comps (c # cs) = c @ CHR ''/'' # join_comps cs"

lemma clean_strtok: "clean (strtok_slash p)"
  by (auto simp: clean_def strtok_slash_def dest: split_slash_no_slash)

lemma strtok_join: "clean cs \<Longrightarrow> strtok_slash (join_comps cs) = cs"
proof (induction cs rule: join_comps.induct)
  case (3 c d cs)
  then show ?case by (simp add: clean_def strtok_slash_def split_slash_append)
qed (simp_all add: clean_def strtok_slash_def split_slash_single)

lemma strtok_abs [simp]: "strtok_slash (CHR ''/'' # p) = strtok_slash p"
  by (simp add: strtok_slash_def)

lemma norm_tokens_subset:
  "norm_tokens ab comps ts = Some cs \<Longrightarrow> set cs \<subseteq> set comps \<union> set ts"
  by (induction ab comps ts rule: norm_tokens.induct) (auto split: if_splits dest: in_set_butlastD)

lemma norm_tokens_abs:
  assumes "norm_tokens True comps ts = Some cs" "\<forall>t\<in>set comps. t \<noteq> ''.'' \<and> t \<noteq> ''..''"
    "length comps \<le> FS_MAX_PATH"
  shows "(\<forall>t\<in>set cs. t \<noteq> ''.'' \<and> t \<noteq> ''..'') \<and> length cs \<le> FS_MAX_PATH"
  using assms
proof (induction ts arbitrary: comps)
  case (Cons t ts)
  have b: "\<forall>t\<in>set (butlast comps). t \<noteq> ''.'' \<and> t \<noteq> ''..''" using Cons.prems(2) by (auto dest: in_set_butlastD)
  have l: "length (butlast comps) \<le> FS_MAX_PATH" using Cons.prems(3) by simp
  consider "t = ''.'' \<or> t = []" | "t = ''..''" | "t \<noteq> ''.''" "t \<noteq> ''..''" "t \<noteq> []" by blast
  then show ?case
  proof cases
    case 1
    then show ?thesis using Cons.IH [OF _ Cons.prems(2,3)] Cons.prems(1) by (elim disjE) simp_all
  next
    case 2
    then show ?thesis using Cons.IH [OF _ b l] Cons.IH [of "[]"] Cons.prems by (simp split: if_splits)
  next
    case 3
    then show ?thesis using Cons.IH [of "comps @ [t]"] Cons.prems by (simp split: if_splits)
  qed
qed simp

lemma norm_tokens_id:
  "\<forall>t\<in>set ts. t \<noteq> ''.'' \<and> t \<noteq> ''..'' \<and> t \<noteq> [] \<Longrightarrow> length comps + length ts \<le> FS_MAX_PATH \<Longrightarrow>
   norm_tokens ab comps ts = Some (comps @ ts)"
  by (induction ts arbitrary: comps) auto

text \<open>What the second loop writes.\<close>

definition comps_text :: "bool \<Rightarrow> string list \<Rightarrow> string" where
  "comps_text first cs = (if first \<or> cs = [] then join_comps cs else CHR ''/'' # join_comps cs)"

lemma comps_text_Cons:
  "comps_text first (c # cs) = (if first then c else CHR ''/'' # c) @ comps_text False cs"
  by (cases cs) (simp_all add: comps_text_def)

lemma norm_build_eq:
  assumes "n \<le> length out" "pos < n"
  shows "\<exists>out' pos'. norm_build n first cs pos out =
     Some (if pos + length (comps_text first cs) < n then 0 else -1, out', pos') \<and>
     length out' = length out \<and>
     (pos + length (comps_text first cs) < n \<longrightarrow> pos' = pos + length (comps_text first cs) \<and>
        take pos' out' = take pos out @ comps_text first cs)"
  using assms
proof (induction cs arbitrary: first pos out)
  case Nil
  then show ?case by (simp add: comps_text_def)
next
  case (Cons c cs)
  let ?s = "if first then [] else ''/''"
  let ?p = "pos + length ?s + length c"
  let ?out = "take pos out @ ?s @ c @ drop ?p out"
  show ?case
  proof (cases "?p < n")
    case False
    then show ?thesis by (auto simp: comps_text_Cons)
  next
    case True
    have eq: "norm_build n first (c # cs) pos out = norm_build n False cs ?p ?out"
    proof (cases first)
      case True2: True
      then show ?thesis using True Cons.prems by (simp add: memcpy_def)
    next
      case False
      have "out[pos := CHR ''/''] = take pos out @ CHR ''/'' # drop (Suc pos) out"
        using Cons.prems by (simp add: upd_conv_take_nth_drop)
      moreover have "pos + length c \<le> length out - Suc 0" using True Cons.prems False by simp
      ultimately show ?thesis using True False Cons.prems by (simp add: memcpy_def poke_def add.commute)
    qed
    have tk: "take ?p ?out = take pos out @ ?s @ c" "length ?out = length out"
      using True Cons.prems by auto
    have tx: "comps_text first (c # cs) = ?s @ c @ comps_text False cs" by (simp add: comps_text_Cons)
    have len: "pos + length (comps_text first (c # cs)) = ?p + length (comps_text False cs)" unfolding tx by simp
    obtain out' pos' where ih: "norm_build n False cs ?p ?out =
        Some (if ?p + length (comps_text False cs) < n then 0 else -1, out', pos')" "length out' = length ?out"
        "?p + length (comps_text False cs) < n \<longrightarrow> pos' = ?p + length (comps_text False cs) \<and>
          take pos' out' = take ?p ?out @ comps_text False cs"
      using Cons.IH [of ?out ?p False] True Cons.prems(1) tk(2) by (metis (no_types))
    show ?thesis unfolding eq len using ih unfolding tk by (intro exI [of _ out'] exI [of _ pos']) (auto simp: tx)
  qed
qed

lemma c_string_buffer:
  assumes "take k out = t" "k < length out" "CHR 0x00 \<notin> set t"
  shows "c_string (out[k := CHR 0x00]) = t"
proof -
  have "out[k := CHR 0x00] = t @ CHR 0x00 # drop (Suc k) out" using assms by (simp add: upd_conv_take_nth_drop)
  moreover have "\<forall>c\<in>set t. c \<noteq> CHR 0x00" using assms(3) by metis
  ultimately show ?thesis by (simp add: c_string_def takeWhile_append2)
qed

lemma set_join_comps: "set (join_comps cs) \<subseteq> insert (CHR ''/'') (\<Union> (set ` set cs))"
  by (induction cs rule: join_comps.induct) auto

definition is_abs :: "string \<Rightarrow> bool" where
  "is_abs p \<longleftrightarrow> p \<noteq> [] \<and> is_slash (hd p)"

definition norm_text :: "string \<Rightarrow> string list \<Rightarrow> string" where
  "norm_text p cs = (if is_abs p then ''/'' else []) @ join_comps cs"

lemma no_nul_norm_text:
  assumes "norm_tokens (is_abs p) [] (strtok_slash p) = Some cs" "CHR 0x00 \<notin> set p"
  shows "CHR 0x00 \<notin> set (norm_text p cs)"
proof -
  have "\<Union> (set ` set cs) \<subseteq> set p"
    using norm_tokens_subset [OF assms(1)] split_slash_subset by (fastforce simp: strtok_slash_def)
  then have "set (join_comps cs) \<subseteq> insert (CHR ''/'') (set p)" using set_join_comps [of cs] by blast
  then show ?thesis using assms(2) unfolding norm_text_def by auto
qed

lemma fs_normalize_path_eq:
  assumes n: "2 \<le> n" "n \<le> length out" and nul: "CHR 0x00 \<notin> set p"
  shows "\<exists>out'. length out' = length out \<and>
    (case norm_tokens (is_abs p) [] (strtok_slash p) of
       Some cs \<Rightarrow> if length (norm_text p cs) < n
         then fs_normalize_path True (Some p) (Some out) n = Some (0, Some out') \<and> c_string out' = norm_text p cs
         else fs_normalize_path True (Some p) (Some out) n = Some (-1, Some out')
     | None \<Rightarrow> fs_normalize_path True (Some p) (Some out) n = Some (-1, Some out'))"
proof (cases "norm_tokens (is_abs p) [] (strtok_slash p)")
  case None
  then show ?thesis using n by (intro exI [of _ out]) (simp add: fs_normalize_path_def is_abs_def Let_def)
next
  case (Some cs)
  define ob where "ob = (if is_abs p then out[0 := CHR ''/''] else out)"
  define k where "k = (if is_abs p then 1 else 0 :: nat)"
  have ok: "n \<le> length ob" "k < n" "length ob = length out" using n by (simp_all add: ob_def k_def)
  obtain out' pos' where b: "norm_build n True cs k ob =
      Some (if k + length (comps_text True cs) < n then 0 else -1, out', pos')" "length out' = length ob"
      "k + length (comps_text True cs) < n \<longrightarrow> pos' = k + length (comps_text True cs) \<and>
         take pos' out' = take k ob @ comps_text True cs"
    using norm_build_eq [OF ok(1,2), of True cs] by blast
  have tx: "norm_text p cs = take k ob @ comps_text True cs" "k + length (comps_text True cs) = length (norm_text p cs)"
    using n by (cases out; auto simp: norm_text_def comps_text_def ob_def k_def)+
  have nf: "fs_normalize_path True (Some p) (Some out) n =
      Option.bind (norm_build n True cs k ob) (\<lambda>(r, o2, pos2). if r \<noteq> 0 then Some (-1, Some o2)
         else Option.bind (poke o2 pos2 (CHR 0x00)) (\<lambda>o3. Some (0, Some o3)))"
    using n Some by (auto simp: fs_normalize_path_def is_abs_def Let_def poke_def ob_def k_def)
  show ?thesis
  proof (cases "length (norm_text p cs) < n")
    case True
    then have t: "pos' = length (norm_text p cs)" "take pos' out' = norm_text p cs" using b(3) tx by auto
    have "c_string (out'[pos' := CHR 0x00]) = norm_text p cs"
      by (rule c_string_buffer [OF t(2)]) (use True t(1) n b(2) ok no_nul_norm_text [OF Some nul] in auto)
    then show ?thesis using True Some b nf tx(2) t(1) n ok
      by (intro exI [of _ "out'[pos' := CHR 0x00]"]) (auto simp: poke_def)
  next
    case False
    then show ?thesis using Some b nf tx(2) ok by (intro exI [of _ out']) auto
  qed
qed

lemma norm_abs_fixed:
  assumes "norm_tokens True [] (strtok_slash p) = Some cs"
  shows "clean cs" "\<forall>t\<in>set cs. t \<noteq> ''.'' \<and> t \<noteq> ''..''"
    "norm_tokens True [] (strtok_slash (CHR ''/'' # join_comps cs)) = Some cs"
proof -
  have d: "(\<forall>t\<in>set cs. t \<noteq> ''.'' \<and> t \<noteq> ''..'') \<and> length cs \<le> FS_MAX_PATH"
    by (rule norm_tokens_abs [OF assms]) simp_all
  show c: "clean cs" using norm_tokens_subset [OF assms] clean_strtok [of p] by (fastforce simp: clean_def)
  show "\<forall>t\<in>set cs. t \<noteq> ''.'' \<and> t \<noteq> ''..''" using d by simp
  show "norm_tokens True [] (strtok_slash (CHR ''/'' # join_comps cs)) = Some cs"
    using norm_tokens_id [of cs "[]" True] d c by (simp add: strtok_join clean_def)
qed

section \<open>Properties\<close>



text \<open>C39: for absolute paths the result is in normal form: a slash followed by components none of which
  is empty, a dot or two dots, and normalising it again gives the same path.\<close>

theorem normalize_normal_form:
  assumes "2 \<le> n" and "n \<le> length out" and "CHR 0x00 \<notin> set p" and "is_abs p"
    and "fs_normalize_path True (Some p) (Some out) n = Some (0, Some out')"
  shows "\<exists>cs. c_string out' = CHR ''/'' # join_comps cs \<and>
     (\<forall>t\<in>set cs. t \<noteq> [] \<and> t \<noteq> ''.'' \<and> t \<noteq> ''..'' \<and> CHR ''/'' \<notin> set t) \<and>
     (\<exists>out2. fs_normalize_path True (Some (c_string out')) (Some out) n = Some (0, Some out2) \<and>
        c_string out2 = c_string out')"
proof -
  obtain cs where cs: "norm_tokens True [] (strtok_slash p) = Some cs" "length (norm_text p cs) < n"
      "c_string out' = norm_text p cs"
    using fs_normalize_path_eq [OF assms(1-3)] assms(4,5) by (auto split: option.splits if_splits)
  have tx: "norm_text p cs = CHR ''/'' # join_comps cs" using assms(4) by (simp add: norm_text_def)
  let ?q = "CHR ''/'' # join_comps cs"
  note fx = norm_abs_fixed [OF cs(1)]
  have q: "is_abs ?q" "norm_text ?q cs = ?q" by (simp_all add: is_abs_def norm_text_def)
  have "CHR 0x00 \<notin> set ?q" using no_nul_norm_text [of p cs] cs(1) assms(3,4) tx by simp
  from fs_normalize_path_eq [OF assms(1,2) this] obtain out2 where
      "fs_normalize_path True (Some ?q) (Some out) n = Some (0, Some out2)" "c_string out2 = ?q"
    using fx(3) q cs(2) tx by auto
  then show ?thesis using cs(3) tx fx(1,2) by (intro exI [of _ cs]) (auto simp: clean_def)
qed

theorem normalize_normal_form_witness:
  "\<exists>out2. fs_normalize_path True (Some (c_string ''/a/c'')) (Some (replicate 8 CHR ''x'')) 8 = Some (0, Some out2) \<and>
     c_string out2 = ''/a/c''"
proof -
  let ?out = "[CHR ''/'', CHR ''a'', CHR ''/'', CHR ''c'', CHR 0x00, CHR ''x'', CHR ''x'', CHR ''x'']"
  have "fs_normalize_path True (Some ''//a/b/../c'') (Some (replicate 8 CHR ''x'')) 8 = Some (0, Some ?out)"
    by code_simp
  from normalize_normal_form [OF _ _ _ _ this] show ?thesis
    by (simp add: is_abs_def c_string_def) blast
qed

text \<open>for relative paths the comment "keep the .. at the beginning" does not hold: a second leading
  \<open>..\<close> cancels the first, so the path that leaves two directories normalises to the empty
  path.\<close>

lemma normalize_double_parent:
  "fs_normalize_path True (Some ''../..'') (Some ''????'') 4 = Some (0, Some (CHR 0x00 # ''???''))"
  by code_simp

text \<open>splitting a path that contains a slash and no doubled slash and joining the parts again gives
  the path back, and the file part is the basename, which holds no slash.\<close>

lemma split_join_roundtrip:
  assumes "CHR ''/'' \<in> set p" and "\<not> sublist ''//'' p" and "fs_path_split p = (d, f)"
  shows "fs_join_path True (Some d) (Some f) = Some p \<and> f = fs_basename p \<and> CHR ''/'' \<notin> set f"
proof -
  obtain a where a: "split_last is_slash p = Some (a, f)" "d = (if a \<noteq> [] then a else ''/'')"
    using assms(1,3) split_last_None [of is_slash p] by (auto simp: fs_path_split_def split: option.splits prod.splits if_splits)
  then have p: "p = a @ CHR ''/'' # f" "\<forall>x\<in>set f. x \<noteq> CHR ''/''" using split_last_Some [of is_slash p a f] by auto
  have "\<not> is_slash (last a)" if "a \<noteq> []"
  proof
    assume "is_slash (last a)"
    then have "p = butlast a @ ''//'' @ f" using that p(1) append_butlast_last_id [of a] by (metis append_Cons append_Nil append_assoc)
    then show False using assms(2) by (metis sublist_appendI)
  qed
  moreover have "f = [] \<or> \<not> is_slash (hd f)" using p(2) by (cases f) auto
  ultimately show ?thesis using a p by (auto simp: fs_join_path_def fs_basename_def)
qed

text \<open>\<open>fs_dirname\<close> of \<^verbatim>\<open>fs_mount.c\<close> returns a prefix of the path that fits into the buffer with its
  terminator, for every path and size; but a name without a separator yields its first character
  instead of the empty or current directory.\<close>

lemma dirname_prefix:
  "(\<forall>p n. 0 < n \<longrightarrow> (\<exists>d. fs_dirname p n = Some d \<and> prefix d p \<and> length d < n)) \<and>
   fs_dirname ''vmlinuz'' 64 = Some ''v''"
proof -
  have "fs_dirname ''vmlinuz'' 64 = Some ''v''" by code_simp
  moreover have "\<exists>d. fs_dirname p n = Some d \<and> prefix d p \<and> length d < n" if "0 < n" for p n
    using that by (auto simp: fs_dirname_def Let_def take_is_prefix)
  ultimately show ?thesis by blast
qed

end
