(* ===== verification/Fs_Mount.thy ===== *)
theory Fs_Mount
  imports Fs_Path
begin

text \<open>
  The mount tables of \<^verbatim>\<open>fs/fs_common.c\<close> and \<^verbatim>\<open>fs/fs_mount.c\<close>: registration, mounting, unmounting,
  the longest-prefix lookup and the operations that dispatch through it. The drivers behind a
  mount are values of the records \<open>filesystem\<close> and \<open>fsm_filesystem\<close>; their private data has
  the type \<open>'d\<close>. Both lookups satisfy one contract, the locale \<open>mount_lookup\<close>.
\<close>

section \<open>Longest-prefix lookup\<close>

definition mp_matches :: "(char \<Rightarrow> bool) \<Rightarrow> string \<Rightarrow> string \<Rightarrow> bool" where
  "mp_matches sep path mpath \<longleftrightarrow>
     prefix mpath path \<and> (length path = length mpath \<or> sep (path ! length mpath))"

fun find_longest :: "(char \<Rightarrow> bool) \<Rightarrow> ('m \<Rightarrow> string) \<Rightarrow> string \<Rightarrow> 'm list \<Rightarrow> 'm option \<Rightarrow> nat \<Rightarrow> 'm option" where
  "find_longest sep path_of path [] best_match best_len = best_match"
| "find_longest sep path_of path (mp # mps) best_match best_len =
     (if mp_matches sep path (path_of mp) \<and> best_len < length (path_of mp)
      then find_longest sep path_of path mps (Some mp) (length (path_of mp))
      else find_longest sep path_of path mps best_match best_len)"

text \<open>The path below a mount point, without the leading separator.\<close>

definition rel_path :: "(char \<Rightarrow> bool) \<Rightarrow> string \<Rightarrow> string \<Rightarrow> string" where
  "rel_path sep path mpath =
     (let r = drop (length mpath) path in if r \<noteq> [] \<and> sep (hd r) then tl r else r)"

section \<open>\<open>fs_common.c\<close>\<close>

record fs_dirent =
  de_inode :: u32
  de_name :: "u8 list"
  de_name_len :: u8
  de_file_type :: u8

record fs_file_info =
  fi_size :: u64
  fi_mode :: u32
  fi_uid :: u32
  fi_gid :: u32
  fi_atime :: u64
  fi_ctime :: u64
  fi_mtime :: u64
  fi_links :: u32
  fi_type :: u8

record 'd fs_operations =
  op_read_file :: "('d option \<Rightarrow> string \<Rightarrow> u8 list \<Rightarrow> u32 \<Rightarrow> u32 \<Rightarrow> int \<times> u8 list) ptr"
  op_list_dir :: "('d option \<Rightarrow> string \<Rightarrow> fs_dirent list \<Rightarrow> u32 \<Rightarrow> int \<times> fs_dirent list) ptr"
  op_get_info :: "('d option \<Rightarrow> string \<Rightarrow> fs_file_info \<Rightarrow> int \<times> fs_file_info) ptr"
  op_find_file :: "('d option \<Rightarrow> string \<Rightarrow> u32 \<Rightarrow> int \<times> u32) ptr"

text \<open>\<open>fs_addr\<close> is the address of the descriptor, by which registration recognises it.\<close>

record 'd filesystem =
  fs_addr :: u64
  fs_name :: string
  fs_mount_fn :: "u32 \<Rightarrow> 'd option"
  fs_has_unmount :: bool
  fs_ops :: "'d fs_operations ptr"

record 'd mount_point =
  mp_path :: string
  mp_fs :: "'d filesystem"
  mp_private :: "'d option"

definition fs_register :: "bool \<Rightarrow> 'd filesystem ptr \<Rightarrow> 'd mount_point list \<Rightarrow> int \<times> 'd mount_point list" where
  "fs_register alloc fs mps =
     (case fs of
        None \<Rightarrow> (-1, mps)
      | Some f \<Rightarrow>
          if \<exists>mp\<in>set mps. fs_addr (mp_fs mp) = fs_addr f then (0, mps)
          else if \<not> alloc then (-1, mps)
          else (0, \<lparr>mp_path = ''/'', mp_fs = f, mp_private = None\<rparr> # mps))"

text \<open>The outcome of mounting: the return code, the table, and the private data that the code
  gives back to the driver because a later allocation failed.\<close>

definition fs_mount ::
  "bool \<Rightarrow> bool \<Rightarrow> string ptr \<Rightarrow> string ptr \<Rightarrow> u32 \<Rightarrow> 'd mount_point list \<Rightarrow> int \<times> 'd mount_point list \<times> 'd list" where
  "fs_mount alloc_mp alloc_path path fs_type lba mps =
     (case (path, fs_type) of
        (Some p, Some t) \<Rightarrow>
          (case find (\<lambda>mp. fs_name (mp_fs mp) = t) mps of
             None \<Rightarrow> (-1, mps, [])
           | Some mp0 \<Rightarrow>
               let fs = mp_fs mp0 in
               (case fs_mount_fn fs lba of
                  None \<Rightarrow> (-1, mps, [])
                | Some d \<Rightarrow>
                    if \<not> alloc_mp \<or> \<not> alloc_path then (-1, mps, [d])
                    else (0, \<lparr>mp_path = p, mp_fs = fs, mp_private = Some d\<rparr> # mps, [])))
      | _ \<Rightarrow> (-1, mps, []))"

text \<open>Unmounting removes the first entry with the path; the last component is the private data the
  driver's unmount function receives, when it has one.\<close>

fun unmount_loop :: "string \<Rightarrow> 'd mount_point list \<Rightarrow> int \<times> 'd mount_point list \<times> 'd option list" where
  "unmount_loop path [] = (-1, [], [])"
| "unmount_loop path (mp # mps) =
     (if mp_path mp = path
      then (0, mps, if fs_has_unmount (mp_fs mp) then [mp_private mp] else [])
      else (case unmount_loop path mps of (r, mps', ev) \<Rightarrow> (r, mp # mps', ev)))"

definition fs_unmount :: "string ptr \<Rightarrow> 'd mount_point list \<Rightarrow> int \<times> 'd mount_point list \<times> 'd option list" where
  "fs_unmount path mps = (case path of None \<Rightarrow> (-1, mps, []) | Some p \<Rightarrow> unmount_loop p mps)"

definition fs_find_mount_point :: "string ptr \<Rightarrow> 'd mount_point list \<Rightarrow> 'd mount_point option" where
  "fs_find_mount_point path mps =
     (case path of None \<Rightarrow> None | Some p \<Rightarrow> find_longest is_slash mp_path p mps None 0)"

definition fs_read_file ::
  "'d mount_point list \<Rightarrow> string ptr \<Rightarrow> u8 list ptr \<Rightarrow> u32 \<Rightarrow> u32 \<Rightarrow> int \<times> u8 list ptr" where
  "fs_read_file mps path buf n offset =
     (case (path, buf) of
        (Some p, Some b) \<Rightarrow>
          (case fs_find_mount_point path mps of
             None \<Rightarrow> (-1, buf)
           | Some mp \<Rightarrow>
               (case Option.bind (fs_ops (mp_fs mp)) op_read_file of
                  None \<Rightarrow> (-1, buf)
                | Some f \<Rightarrow> map_prod id Some (f (mp_private mp) (rel_path is_slash p (mp_path mp)) b n offset)))
      | _ \<Rightarrow> (-1, buf))"

definition fs_list_dir ::
  "'d mount_point list \<Rightarrow> string ptr \<Rightarrow> fs_dirent list \<Rightarrow> u32 \<Rightarrow> int \<times> fs_dirent list" where
  "fs_list_dir mps path entries max_entries =
     (case path of
        Some p \<Rightarrow>
          (case fs_find_mount_point path mps of
             None \<Rightarrow> (-1, entries)
           | Some mp \<Rightarrow>
               (case Option.bind (fs_ops (mp_fs mp)) op_list_dir of
                  None \<Rightarrow> (-1, entries)
                | Some f \<Rightarrow> f (mp_private mp) (rel_path is_slash p (mp_path mp)) entries max_entries))
      | None \<Rightarrow> (-1, entries))"

definition fs_get_info ::
  "'d mount_point list \<Rightarrow> string ptr \<Rightarrow> fs_file_info ptr \<Rightarrow> int \<times> fs_file_info ptr" where
  "fs_get_info mps path info =
     (case (path, info) of
        (Some p, Some i) \<Rightarrow>
          (case fs_find_mount_point path mps of
             None \<Rightarrow> (-1, info)
           | Some mp \<Rightarrow>
               (case Option.bind (fs_ops (mp_fs mp)) op_get_info of
                  None \<Rightarrow> (-1, info)
                | Some f \<Rightarrow> map_prod id Some (f (mp_private mp) (rel_path is_slash p (mp_path mp)) i)))
      | _ \<Rightarrow> (-1, info))"

definition fs_find_file :: "'d mount_point list \<Rightarrow> string ptr \<Rightarrow> u32 ptr \<Rightarrow> int \<times> u32 ptr" where
  "fs_find_file mps path inode_out =
     (case (path, inode_out) of
        (Some p, Some i) \<Rightarrow>
          (case fs_find_mount_point path mps of
             None \<Rightarrow> (-1, inode_out)
           | Some mp \<Rightarrow>
               (case Option.bind (fs_ops (mp_fs mp)) op_find_file of
                  None \<Rightarrow> (-1, inode_out)
                | Some f \<Rightarrow> map_prod id Some (f (mp_private mp) (rel_path is_slash p (mp_path mp)) i)))
      | _ \<Rightarrow> (-1, inode_out))"

section \<open>\<open>fs_mount.c\<close>\<close>

record 'd fsm_operations =
  fop_read :: "('d \<Rightarrow> string \<Rightarrow> u8 list \<Rightarrow> u32 \<Rightarrow> u32 \<Rightarrow> int \<times> u8 list) ptr"
  fop_write :: "('d \<Rightarrow> string \<Rightarrow> u8 list \<Rightarrow> u32 \<Rightarrow> u32 \<Rightarrow> int) ptr"
  fop_list_dir :: "('d \<Rightarrow> string \<Rightarrow> u8 list \<Rightarrow> u32 \<Rightarrow> int \<times> u8 list) ptr"
  fop_get_info :: "('d \<Rightarrow> string \<Rightarrow> int \<times> u32 \<times> bool) ptr"

record 'd fsm_filesystem =
  fsm_name :: string
  fsm_ops :: "'d fsm_operations"
  fsm_detect :: "(u32 \<Rightarrow> bool) ptr"
  fsm_mount_fn :: "u32 \<Rightarrow> 'd option"
  fsm_has_unmount :: bool

record 'd fsm_mount_point =
  fmp_path :: string
  fmp_fs :: "'d fsm_filesystem"
  fmp_private :: 'd
  fmp_start_lba :: u32

record 'd fsm_state =
  registered_fs :: "'d fsm_filesystem list"
  fsm_mounts :: "'d fsm_mount_point list"

definition find_filesystem :: "'d fsm_state \<Rightarrow> string \<Rightarrow> 'd fsm_filesystem option" where
  "find_filesystem st name = find (\<lambda>fs. fsm_name fs = name) (registered_fs st)"

definition find_mount_point :: "'d fsm_mount_point list \<Rightarrow> string \<Rightarrow> 'd fsm_mount_point option" where
  "find_mount_point mps path = find_longest is_sep fmp_path path mps None 0"

definition fsm_register :: "'d fsm_filesystem \<Rightarrow> 'd fsm_state \<Rightarrow> 'd fsm_state" where
  "fsm_register fs st =
     (if length (registered_fs st) < 8 then st\<lparr>registered_fs := registered_fs st @ [fs]\<rparr> else st)"

definition fsm_mount :: "bool \<Rightarrow> string \<Rightarrow> string \<Rightarrow> u32 \<Rightarrow> 'd fsm_state \<Rightarrow> int \<times> 'd fsm_state" where
  "fsm_mount alloc path fstype lba st =
     (case find_filesystem st fstype of
        None \<Rightarrow> (-1, st)
      | Some fs \<Rightarrow>
          if \<not> alloc then (-2, st)
          else (case fsm_mount_fn fs lba of
                  None \<Rightarrow> (-3, st)
                | Some d \<Rightarrow> (0, st\<lparr>fsm_mounts := fsm_mounts st @
                    [\<lparr>fmp_path = path, fmp_fs = fs, fmp_private = d, fmp_start_lba = lba\<rparr>]\<rparr>)))"

fun fsm_unmount_loop :: "string \<Rightarrow> 'd fsm_mount_point list \<Rightarrow> int \<times> 'd fsm_mount_point list \<times> 'd list" where
  "fsm_unmount_loop path [] = (-1, [], [])"
| "fsm_unmount_loop path (mp # mps) =
     (if fmp_path mp = path
      then (0, mps, if fsm_has_unmount (fmp_fs mp) then [fmp_private mp] else [])
      else (case fsm_unmount_loop path mps of (r, mps', ev) \<Rightarrow> (r, mp # mps', ev)))"

definition fsm_unmount :: "string \<Rightarrow> 'd fsm_state \<Rightarrow> int \<times> 'd fsm_state \<times> 'd list" where
  "fsm_unmount path st =
     (case fsm_unmount_loop path (fsm_mounts st) of (r, mps, ev) \<Rightarrow> (r, st\<lparr>fsm_mounts := mps\<rparr>, ev))"

definition fs_get_mount_point :: "'d fsm_state \<Rightarrow> string \<Rightarrow> 'd fsm_mount_point option" where
  "fs_get_mount_point st path = find_mount_point (fsm_mounts st) path"

definition fs_read :: "'d fsm_state \<Rightarrow> string \<Rightarrow> u8 list \<Rightarrow> u32 \<Rightarrow> u32 \<Rightarrow> int \<times> u8 list" where
  "fs_read st path buf n offset =
     (case find_mount_point (fsm_mounts st) path of
        None \<Rightarrow> (-1, buf)
      | Some mp \<Rightarrow>
          (case fop_read (fsm_ops (fmp_fs mp)) of
             None \<Rightarrow> (-1, buf)
           | Some f \<Rightarrow> f (fmp_private mp) (rel_path is_sep path (fmp_path mp)) buf n offset))"

definition fs_write :: "'d fsm_state \<Rightarrow> string \<Rightarrow> u8 list \<Rightarrow> u32 \<Rightarrow> u32 \<Rightarrow> int" where
  "fs_write st path buf n offset =
     (case find_mount_point (fsm_mounts st) path of
        None \<Rightarrow> -1
      | Some mp \<Rightarrow>
          (case fop_write (fsm_ops (fmp_fs mp)) of
             None \<Rightarrow> -1
           | Some f \<Rightarrow> f (fmp_private mp) (rel_path is_sep path (fmp_path mp)) buf n offset))"

definition fsm_list_dir :: "'d fsm_state \<Rightarrow> string \<Rightarrow> u8 list \<Rightarrow> u32 \<Rightarrow> int \<times> u8 list" where
  "fsm_list_dir st path buf n =
     (case find_mount_point (fsm_mounts st) path of
        None \<Rightarrow> (-1, buf)
      | Some mp \<Rightarrow>
          (case fop_list_dir (fsm_ops (fmp_fs mp)) of
             None \<Rightarrow> (-1, buf)
           | Some f \<Rightarrow> f (fmp_private mp) (rel_path is_sep path (fmp_path mp)) buf n))"

definition fsm_get_info :: "'d fsm_state \<Rightarrow> string \<Rightarrow> u32 \<times> bool \<Rightarrow> int \<times> u32 \<times> bool" where
  "fsm_get_info st path out =
     (case find_mount_point (fsm_mounts st) path of
        None \<Rightarrow> (-1, out)
      | Some mp \<Rightarrow>
          (case fop_get_info (fsm_ops (fmp_fs mp)) of
             None \<Rightarrow> (-1, out)
           | Some f \<Rightarrow> f (fmp_private mp) (rel_path is_sep path (fmp_path mp))))"

text \<open>Start-up registers the three drivers and mounts the first that recognises the medium.\<close>

fun fs_init_loop :: "bool \<Rightarrow> 'd fsm_filesystem list \<Rightarrow> 'd fsm_state \<Rightarrow> 'd fsm_state" where
  "fs_init_loop alloc [] st = st"
| "fs_init_loop alloc (fs # fss) st =
     (if (case fsm_detect fs of None \<Rightarrow> False | Some det \<Rightarrow> det 0)
      then (case fsm_mount alloc ''/'' (fsm_name fs) 0 st of
              (r, st') \<Rightarrow> if r = 0 then st' else fs_init_loop alloc fss st')
      else fs_init_loop alloc fss st)"

definition fs_init ::
  "bool \<Rightarrow> 'd fsm_filesystem \<Rightarrow> 'd fsm_filesystem \<Rightarrow> 'd fsm_filesystem \<Rightarrow> 'd fsm_state \<Rightarrow> 'd fsm_state" where
  "fs_init alloc fat32_fs ext2_fs iso9660_fs st =
     (let st' = fsm_register iso9660_fs (fsm_register ext2_fs (fsm_register fat32_fs st))
      in fs_init_loop alloc (registered_fs st') st')"

section \<open>The contract of the lookup\<close>

locale mount_lookup =
  fixes sep :: "char \<Rightarrow> bool" and path_of :: "'m \<Rightarrow> string" and find_mp :: "'m list \<Rightarrow> string \<Rightarrow> 'm option"
  assumes find_sound: "find_mp mps p = Some m \<Longrightarrow>
      m \<in> set mps \<and> path_of m \<noteq> [] \<and> mp_matches sep p (path_of m) \<and>
      (\<forall>m'\<in>set mps. mp_matches sep p (path_of m') \<longrightarrow> length (path_of m') \<le> length (path_of m))"
    and find_complete: "find_mp mps p = None \<Longrightarrow> m \<in> set mps \<Longrightarrow> path_of m \<noteq> [] \<Longrightarrow> \<not> mp_matches sep p (path_of m)"
begin

lemma find_exact:
  assumes "m \<in> set mps" "path_of m = p" "p \<noteq> []"
  shows "\<exists>m'. find_mp mps p = Some m' \<and> path_of m' = p"
proof -
  have m: "mp_matches sep p (path_of m)" using assms(2) by (simp add: mp_matches_def)
  then obtain m' where m': "find_mp mps p = Some m'" using find_complete [of mps p m] assms by (cases "find_mp mps p") auto
  then have "prefix (path_of m') p" "length (path_of m) \<le> length (path_of m')"
    using find_sound [OF m'] m assms(1) by (auto simp: mp_matches_def)
  then have "path_of m' = p" using assms(2) by (metis prefix_length_le prefix_order.antisym prefix_length_prefix order_refl prefix_order.refl)
  with m' show ?thesis by blast
qed

lemma find_below:
  assumes "m \<in> set mps" "path_of m \<noteq> []" "sep s"
    and longest: "\<And>m'. m' \<in> set mps \<Longrightarrow> length (path_of m') \<le> length (path_of m)"
  shows "\<exists>m'. find_mp mps (path_of m @ s # r) = Some m' \<and> path_of m' = path_of m"
proof -
  let ?p = "path_of m @ s # r"
  have m: "mp_matches sep ?p (path_of m)" using assms(3) by (simp add: mp_matches_def)
  then obtain m' where m': "find_mp mps ?p = Some m'" using find_complete [of mps ?p m] assms by (cases "find_mp mps ?p") auto
  then have "prefix (path_of m') ?p" "length (path_of m) = length (path_of m')"
    using find_sound [OF m'] m assms(1) longest [of m'] by (auto simp: mp_matches_def intro: le_antisym)
  then have "path_of m' = path_of m" by (metis append_eq_append_conv prefix_def)
  with m' show ?thesis by blast
qed

text \<open>A mount at the root never serves a path below it.\<close>

lemma root_only:
  assumes "\<And>m. m \<in> set mps \<Longrightarrow> path_of m = [c]" "\<not> sep x"
  shows "find_mp mps (c # x # r) = None"
  using find_sound [of mps "c # x # r"] assms by (cases "find_mp mps (c # x # r)") (auto simp: mp_matches_def)

end

lemma find_longest_sound:
  "find_longest sep path_of p mps best bl = Some m \<Longrightarrow>
   (\<forall>b. best = Some b \<longrightarrow> bl = length (path_of b)) \<Longrightarrow>
   (best = Some m \<or> m \<in> set mps \<and> bl < length (path_of m) \<and> mp_matches sep p (path_of m)) \<and>
   (best \<noteq> None \<longrightarrow> bl \<le> length (path_of m)) \<and>
   (\<forall>m'\<in>set mps. mp_matches sep p (path_of m') \<longrightarrow> length (path_of m') \<le> length (path_of m) \<or> length (path_of m') \<le> bl)"
proof (induction mps arbitrary: best bl)
  case (Cons mp mps)
  then show ?case
  proof (cases "mp_matches sep p (path_of mp) \<and> bl < length (path_of mp)")
    case True
    then show ?thesis using Cons.IH [of "Some mp" "length (path_of mp)"] Cons.prems by fastforce
  next
    case False
    then have "find_longest sep path_of p mps best bl = Some m" using Cons.prems(1) by (simp split: if_splits)
    then show ?thesis using Cons.IH [of best bl] Cons.prems(2) False by auto
  qed
qed auto

lemma find_longest_None:
  "find_longest sep path_of p mps None 0 = None \<Longrightarrow> m \<in> set mps \<Longrightarrow> path_of m \<noteq> [] \<Longrightarrow>
   \<not> mp_matches sep p (path_of m)"
proof (induction mps)
  case (Cons mp mps)
  have nn: "find_longest sep path_of p ms (Some b) n \<noteq> None" for ms b n
    by (induction ms arbitrary: b n) simp_all
  show ?case using Cons nn [of mps mp "length (path_of mp)"] by (auto split: if_splits)
qed simp

lemma mount_lookup_longest: "mount_lookup sep path_of (\<lambda>mps p. find_longest sep path_of p mps None 0)"
proof
  fix mps p m
  assume "find_longest sep path_of p mps None 0 = Some m"
  from find_longest_sound [OF this] show "m \<in> set mps \<and> path_of m \<noteq> [] \<and> mp_matches sep p (path_of m) \<and>
      (\<forall>m'\<in>set mps. mp_matches sep p (path_of m') \<longrightarrow> length (path_of m') \<le> length (path_of m))"
    by auto
qed (rule find_longest_None)

interpretation common: mount_lookup is_slash mp_path "\<lambda>mps p. fs_find_mount_point (Some p) mps"
  unfolding fs_find_mount_point_def option.case by (rule mount_lookup_longest)

interpretation fsm: mount_lookup is_sep fmp_path find_mount_point
  unfolding find_mount_point_def by (rule mount_lookup_longest)

section \<open>Reachable states of the table in \<open>fs_mount.c\<close>\<close>

inductive fsm_reach :: "'d fsm_state \<Rightarrow> bool" where
  fsm_init: "fsm_reach \<lparr>registered_fs = [], fsm_mounts = []\<rparr>"
| fsm_reg: "fsm_reach st \<Longrightarrow> fsm_reach (fsm_register fs st)"
| fsm_mnt: "fsm_reach st \<Longrightarrow> fsm_reach (snd (fsm_mount alloc p t lba st))"
| fsm_unm: "fsm_reach st \<Longrightarrow> fsm_reach (fst (snd (fsm_unmount p st)))"

definition fsm_inv :: "'d fsm_state \<Rightarrow> bool" where
  "fsm_inv st \<longleftrightarrow> length (registered_fs st) \<le> 8 \<and>
     (\<forall>mp\<in>set (fsm_mounts st). fmp_fs mp \<in> set (registered_fs st) \<and>
        fsm_mount_fn (fmp_fs mp) (fmp_start_lba mp) = Some (fmp_private mp))"

lemma fsm_inv_register: "fsm_inv st \<Longrightarrow> fsm_inv (fsm_register fs st)"
  by (auto simp: fsm_inv_def fsm_register_def)

lemma fsm_inv_mount: "fsm_inv st \<Longrightarrow> fsm_inv (snd (fsm_mount alloc p t lba st))"
  by (auto simp: fsm_inv_def fsm_mount_def find_filesystem_def find_Some_iff in_set_conv_nth split: option.splits)

lemma fsm_unmount_loop_subset: "set (fst (snd (fsm_unmount_loop p mps))) \<subseteq> set mps"
  by (induction mps) (auto split: prod.splits)

lemma fsm_inv_unmount: "fsm_inv st \<Longrightarrow> fsm_inv (fst (snd (fsm_unmount p st)))"
  using fsm_unmount_loop_subset [of p "fsm_mounts st"]
  by (fastforce simp: fsm_inv_def fsm_unmount_def split: prod.splits)

lemma fsm_reach_inv: "fsm_reach st \<Longrightarrow> fsm_inv st"
proof (induction rule: fsm_reach.induct)
  case fsm_init
  then show ?case by (simp add: fsm_inv_def)
qed (simp_all add: fsm_inv_register fsm_inv_mount fsm_inv_unmount)

lemma fs_init_loop_reach: "fsm_reach st \<Longrightarrow> fsm_reach (fs_init_loop alloc fss st)"
proof (induction fss arbitrary: st)
  case (Cons fs fss)
  then show ?case using fsm_mnt [OF Cons.prems, of alloc "''/''" "fsm_name fs" 0]
    by (auto split: prod.splits)
qed simp

lemma fs_init_reach: "fsm_reach st \<Longrightarrow> fsm_reach (fs_init alloc a b c st)"
  unfolding fs_init_def Let_def by (intro fs_init_loop_reach fsm_reg)

text \<open>A table with one registered driver, for the examples below.\<close>

definition sample_fs :: "u8 list filesystem" where
  "sample_fs = \<lparr>fs_addr = 0x1000, fs_name = ''fat32'', fs_mount_fn = (\<lambda>lba. Some [1, 2, 3]), fs_has_unmount = True,
     fs_ops = Some \<lparr>op_read_file = Some (\<lambda>d path buf n off. (int (length path), buf)), op_list_dir = None,
                    op_get_info = None, op_find_file = None\<rparr>\<rparr>"

definition sample_mounts :: "u8 list mount_point list" where
  "sample_mounts = [\<lparr>mp_path = ''/'', mp_fs = sample_fs, mp_private = None\<rparr>]"

lemma sample_mount:
  "fs_mount True True (Some ''/boot'') (Some ''fat32'') 64 sample_mounts =
     (0, \<lparr>mp_path = ''/boot'', mp_fs = sample_fs, mp_private = Some [1, 2, 3]\<rparr> # sample_mounts, [])"
  by (simp add: fs_mount_def sample_mounts_def sample_fs_def Let_def)

section \<open>Properties\<close>





text \<open>unmounting undoes mounting: after a successful mount, unmounting the same path succeeds, gives
  the private data back to the driver and restores the table, whatever was mounted before.\<close>

lemma mount_unmount_roundtrip:
  assumes "fs_mount True True (Some p) (Some t) lba mps = (0, mps', [])"
  shows "\<exists>d. fst (fs_unmount (Some p) mps') = 0 \<and> fst (snd (fs_unmount (Some p) mps')) = mps \<and>
     snd (snd (fs_unmount (Some p) mps')) \<in> {[], [Some d]} \<and>
     (\<exists>m\<in>set mps. fs_name (mp_fs m) = t \<and> fs_mount_fn (mp_fs m) lba = Some d)"
proof -
  obtain mp0 d where m: "find (\<lambda>mp. fs_name (mp_fs mp) = t) mps = Some mp0" "fs_mount_fn (mp_fs mp0) lba = Some d"
      "mps' = \<lparr>mp_path = p, mp_fs = mp_fs mp0, mp_private = Some d\<rparr> # mps"
    using assms(1) by (auto simp: fs_mount_def Let_def split: option.splits)
  have "fs_name (mp_fs mp0) = t" "mp0 \<in> set mps" using m(1) by (auto simp: find_Some_iff)
  with m(2,3) show ?thesis by (intro exI [of _ d]) (auto simp: fs_unmount_def)
qed

text \<open>a medium mounted at the root is unreachable: when every mount point is \<^verbatim>\<open>/\<close>, which is what
  registration and start-up leave, every operation on a path such as \<^verbatim>\<open>/boot\<close> reports -1 without
  consulting a driver, in both implementations.\<close>

lemma root_mount_unreachable:
  assumes "\<And>m. m \<in> set mps \<Longrightarrow> mp_path m = ''/''" and "\<And>m. m \<in> set (fsm_mounts st) \<Longrightarrow> fmp_path m = ''/''"
    and "\<not> is_sep x"
  shows "fs_read_file mps (Some (CHR ''/'' # x # r)) (Some buf) n off = (-1, Some buf) \<and>
     fs_find_file mps (Some (CHR ''/'' # x # r)) (Some i) = (-1, Some i) \<and>
     fs_read st (CHR ''/'' # x # r) buf n off = (-1, buf) \<and> fs_write st (CHR ''/'' # x # r) buf n off = -1"
proof -
  have "fs_find_mount_point (Some (CHR ''/'' # x # r)) mps = None"
    by (rule common.root_only) (use assms in \<open>auto simp: is_sep_def\<close>)
  moreover have "find_mount_point (fsm_mounts st) (CHR ''/'' # x # r) = None"
    by (rule fsm.root_only) (use assms in auto)
  ultimately show ?thesis by (simp add: fs_read_file_def fs_find_file_def fs_read_def fs_write_def)
qed


end
