(* ===== verification/Iso9660.thy ===== *)
theory Iso9660
  imports Fs_Mount Disk_Io
begin

text \<open>
  The ISO 9660 driver, \<^verbatim>\<open>fs/iso9660.c\<close>, with its structures of \<^verbatim>\<open>fs/iso9660.h\<close>. \<open>io\<close> is \<open>disk_read\<close>, \<open>km\<close>
  is \<open>kmalloc\<close>, and \<open>stk\<close> the content of a buffer on the stack before it is used.
\<close>

section \<open>Structures\<close>

record iso_volume_descriptor =
  pvd_type :: u8
  pvd_standard_id :: "u8 list"
  pvd_version :: u8
  pvd_system_id :: "u8 list"
  pvd_volume_id :: "u8 list"
  pvd_volume_space_size :: u32
  pvd_volume_set_size :: u16
  pvd_volume_sequence_number :: u16
  pvd_logical_block_size :: u16
  pvd_path_table_size :: u32
  pvd_path_table_l :: u32
  pvd_path_table_opt_l :: u32
  pvd_path_table_m :: u32
  pvd_path_table_opt_m :: u32
  pvd_root_directory_record :: "u8 list"

definition iso_pvd_of :: "u8 list \<Rightarrow> iso_volume_descriptor" where
  "iso_pvd_of b =
     \<lparr>pvd_type = b ! 0, pvd_standard_id = take 5 (drop 1 b), pvd_version = b ! 6, pvd_system_id = take 32 (drop 8 b),
      pvd_volume_id = take 32 (drop 40 b), pvd_volume_space_size = le32_at b 80, pvd_volume_set_size = le16_at b 116,
      pvd_volume_sequence_number = le16_at b 118, pvd_logical_block_size = le16_at b 120,
      pvd_path_table_size = le32_at b 122, pvd_path_table_l = le32_at b 126, pvd_path_table_opt_l = le32_at b 130,
      pvd_path_table_m = le32_at b 134, pvd_path_table_opt_m = le32_at b 138,
      pvd_root_directory_record = take 34 (drop 142 b)\<rparr>"

record iso9660_private =
  iso_lba :: u32
  iso_block_size :: u32
  iso_pvd :: iso_volume_descriptor
  iso_path_table :: "u8 list ptr"
  iso_path_table_size :: u32

section \<open>Blocks and volume descriptors\<close>

definition iso9660_read_blocks ::
  "disk_io \<Rightarrow> iso9660_private \<Rightarrow> u32 \<Rightarrow> u32 \<Rightarrow> u8 list \<Rightarrow> (int \<times> u8 list) cmem" where
  "iso9660_read_blocks io priv block n buf =
     disk_read io buf 0 (iso_lba priv + block * (iso_block_size priv div 512)) (n * (iso_block_size priv div 512))"

definition iso9660_read_block :: "disk_io \<Rightarrow> iso9660_private \<Rightarrow> u32 \<Rightarrow> u8 list \<Rightarrow> (int \<times> u8 list) cmem" where
  "iso9660_read_block io priv block_num buf = iso9660_read_blocks io priv block_num 1 buf"

definition iso_upper :: "u8 \<Rightarrow> u8" where
  "iso_upper c = (if 97 \<le> c \<and> c \<le> 122 then c - 32 else c)"

fun iso9660_stricmp :: "u8 list \<Rightarrow> u8 list \<Rightarrow> nat \<Rightarrow> int cmem" where
  "iso9660_stricmp a b 0 = Some 0"
| "iso9660_stricmp (x # a) (y # b) (Suc n) =
     (if iso_upper x \<noteq> iso_upper y then Some 1
      else if iso_upper x = 0 then Some 0
      else iso9660_stricmp a b n)"
| "iso9660_stricmp [] b (Suc n) = None"
| "iso9660_stricmp (x # a) [] (Suc n) = None"

text \<open>The loop over the sectors 16 to 47; \<open>Inl\<close> is the return code \<open>-1\<close>, \<open>Inr\<close> the updated private data.\<close>

fun iso_descriptor_loop :: "disk_io \<Rightarrow> iso9660_private \<Rightarrow> nat list \<Rightarrow> u8 list \<Rightarrow> (unit + iso9660_private) cmem" where
  "iso_descriptor_loop io priv [] buffer = Some (Inl ())"
| "iso_descriptor_loop io priv (i # is) buffer =
     (case disk_read io buffer 0 (iso_lba priv + of_nat i) 1 of
        None \<Rightarrow> None
      | Some (rc, b) \<Rightarrow>
          if rc \<noteq> 0 then Some (Inl ())
          else if b ! 0 = 1
          then Some (Inr (priv\<lparr>iso_pvd := iso_pvd_of b, iso_block_size := ucast (pvd_logical_block_size (iso_pvd_of b))\<rparr>))
          else if b ! 0 = 0xFF then Some (Inl ())
          else iso_descriptor_loop io priv is b)"

definition iso9660_read_volume_descriptor ::
  "disk_io \<Rightarrow> u8 list \<Rightarrow> iso9660_private \<Rightarrow> (unit + iso9660_private) cmem" where
  "iso9660_read_volume_descriptor io stk priv = iso_descriptor_loop io priv [16..<48] stk"

definition iso9660_read_path_table ::
  "disk_io \<Rightarrow> kmalloc \<Rightarrow> iso9660_private \<Rightarrow> (int \<times> iso9660_private) cmem" where
  "iso9660_read_path_table io km priv =
     (let p = priv\<lparr>iso_path_table_size := pvd_path_table_size (iso_pvd priv),
                   iso_path_table := km (pvd_path_table_size (iso_pvd priv))\<rparr>
      in case iso_path_table p of
           None \<Rightarrow> Some (-1, p)
         | Some t \<Rightarrow>
             if iso_block_size p = 0 then None
             else (case iso9660_read_blocks io p (pvd_path_table_l (iso_pvd p))
                          ((iso_path_table_size p + iso_block_size p - 1) div iso_block_size p) t of
                     None \<Rightarrow> None
                   | Some (rc, t') \<Rightarrow> Some (rc, p\<lparr>iso_path_table := Some t'\<rparr>)))"

section \<open>Detection and mounting\<close>

definition iso9660_detect :: "disk_io \<Rightarrow> u8 list \<Rightarrow> u32 \<Rightarrow> int cmem" where
  "iso9660_detect io stk lba = do {
     (rc, b) \<leftarrow> disk_read io stk 0 (lba + 16) 1;
     Some (if rc \<noteq> 0 then 0 else if take 6 b = [1, 67, 68, 48, 48, 49] then 1 else 0)
   }"

definition iso_empty :: "u32 \<Rightarrow> iso9660_private" where
  "iso_empty lba = \<lparr>iso_lba = lba, iso_block_size = 0, iso_pvd = iso_pvd_of (replicate 2034 0), iso_path_table = None,
     iso_path_table_size = 0\<rparr>"

definition iso9660_mount :: "disk_io \<Rightarrow> kmalloc \<Rightarrow> bool \<Rightarrow> u8 list \<Rightarrow> u32 \<Rightarrow> iso9660_private ptr cmem" where
  "iso9660_mount io km alloc stk lba =
     (if \<not> alloc then Some None
      else do {
        r \<leftarrow> iso9660_read_volume_descriptor io stk (iso_empty (lba + 16));
        case r of
          Inl e \<Rightarrow> Some None
        | Inr p \<Rightarrow> do {
            (rc, p') \<leftarrow> iso9660_read_path_table io km p;
            Some (Some (if rc \<noteq> 0 then p'\<lparr>iso_path_table := None\<rparr> else p'))
          }
      })"

section \<open>Directory records\<close>

definition rec_extent :: "u8 list \<Rightarrow> nat \<Rightarrow> u32" where
  "rec_extent dir off = le32_at dir (off + 2)"

definition rec_data_length :: "u8 list \<Rightarrow> nat \<Rightarrow> u32" where
  "rec_data_length dir off = le32_at dir (off + 10)"

definition rec_flags :: "u8 list \<Rightarrow> nat \<Rightarrow> u8" where
  "rec_flags dir off = dir ! (off + 25)"

definition rec_name_len :: "u8 list \<Rightarrow> nat \<Rightarrow> u8" where
  "rec_name_len dir off = dir ! (off + 32)"

definition rec_name :: "u8 list \<Rightarrow> nat \<Rightarrow> u8 list" where
  "rec_name dir off = drop (off + 33) dir"

text \<open>A record for the directory itself or its parent.\<close>

definition rec_is_dot :: "u8 list \<Rightarrow> nat \<Rightarrow> bool" where
  "rec_is_dot dir off \<longleftrightarrow> rec_name_len dir off = 1 \<and> (dir ! (off + 33) = 0 \<or> dir ! (off + 33) = 1)"

text \<open>The scan of one block: \<open>want_dir\<close> says that the path goes on behind the name.\<close>

function iso_scan :: "u8 list \<Rightarrow> nat \<Rightarrow> u8 list \<Rightarrow> bool \<Rightarrow> nat \<Rightarrow> (u32 \<times> u32) option cmem" where
  "iso_scan dir bs part want_dir off =
     (if bs \<le> off then Some None
      else if length dir \<le> off then None
      else if dir ! off = 0 then Some None
      else if length dir < off + 33 \<or> rec_name_len dir off = 1 \<and> length dir < off + 34 then None
      else if rec_is_dot dir off then iso_scan dir bs part want_dir (off + unat (dir ! off))
      else case (if unat (rec_name_len dir off) = length part
                 then iso9660_stricmp (rec_name dir off) part (length part) else Some 1) of
             None \<Rightarrow> None
           | Some c \<Rightarrow>
               if c = 0 \<and> (want_dir \<longrightarrow> rec_flags dir off AND 2 \<noteq> 0)
               then Some (Some (rec_extent dir off, rec_data_length dir off))
               else iso_scan dir bs part want_dir (off + unat (dir ! off)))"
  by pat_completeness auto
termination
  by (relation "measure (\<lambda>(dir, bs, part, want_dir, off). bs - off)")
    (auto simp: unat_gt_0 intro!: diff_less_mono2)

declare iso_scan.simps [simp del]

partial_function (option) iso_dir_loop ::
  "disk_io \<Rightarrow> iso9660_private \<Rightarrow> u32 \<Rightarrow> u32 \<Rightarrow> u8 list \<Rightarrow> bool \<Rightarrow> u8 list \<Rightarrow> u32 \<Rightarrow> (u32 \<times> u32) option cmem" where
  "iso_dir_loop io priv extent n part want_dir dir off =
     (if off < n then
        if iso_block_size priv = 0 then None
        else Option.bind (iso9660_read_block io priv (extent + off div iso_block_size priv) dir) (\<lambda>(rc, d).
          if rc \<noteq> 0 then Some None
          else Option.bind (iso_scan d (unat (iso_block_size priv)) part want_dir 0) (\<lambda>h.
            case h of
              Some r \<Rightarrow> Some (Some r)
            | None \<Rightarrow> iso_dir_loop io priv extent n part want_dir d (off + iso_block_size priv)))
      else Some None)"

text \<open>\<open>Some None\<close> is the return code \<open>-1\<close>; a path component of 256 bytes or more overruns the array
  \<open>part\<close>.\<close>

function iso9660_find_entry ::
  "disk_io \<Rightarrow> kmalloc \<Rightarrow> iso9660_private \<Rightarrow> u32 \<Rightarrow> u32 \<Rightarrow> u8 list \<Rightarrow> (u32 \<times> u32) option cmem" where
  "iso9660_find_entry io km priv extent n path =
     (let part = takeWhile (\<lambda>c. c \<noteq> 47) path; slash = dropWhile (\<lambda>c. c \<noteq> 47) path in
      if 256 \<le> length part then None
      else case km (iso_block_size priv) of
        None \<Rightarrow> Some None
      | Some dir \<Rightarrow>
          (case iso_dir_loop io priv extent n part (slash \<noteq> []) dir 0 of
             None \<Rightarrow> None
           | Some None \<Rightarrow> Some None
           | Some (Some (e, s)) \<Rightarrow>
               if slash \<noteq> [] then iso9660_find_entry io km priv e s (tl slash) else Some (Some (e, s))))"
  by pat_completeness auto
termination
proof (relation "measure (\<lambda>(io, km, priv, extent, n, path). length path)", goal_cases)
  case (2 io km priv extent n path part slash)
  have "length slash \<le> length path" "slash \<noteq> []" using 2 by (simp_all add: length_dropWhile_le)
  then show ?case by (cases slash) simp_all
qed simp

declare iso9660_find_entry.simps [simp del]

definition iso_find_root :: "disk_io \<Rightarrow> kmalloc \<Rightarrow> iso9660_private \<Rightarrow> u8 list \<Rightarrow> (u32 \<times> u32) option cmem" where
  "iso_find_root io km priv path =
     iso9660_find_entry io km priv (ucast (pvd_root_directory_record (iso_pvd priv) ! 2))
       (le32_at (pvd_root_directory_record (iso_pvd priv)) 10) path"

section \<open>Operations\<close>

definition iso9660_read_file ::
  "disk_io \<Rightarrow> kmalloc \<Rightarrow> iso9660_private ptr \<Rightarrow> u8 list \<Rightarrow> u8 list \<Rightarrow> u32 \<Rightarrow> u32 \<Rightarrow> (int \<times> u8 list) cmem" where
  "iso9660_read_file io km private_data path buf n offset =
     (case private_data of
        None \<Rightarrow> Some (-1, buf)
      | Some priv \<Rightarrow> do {
          r \<leftarrow> iso_find_root io km priv path;
          case r of
            None \<Rightarrow> Some (-1, buf)
          | Some (extent, file_size) \<Rightarrow>
              if file_size \<le> offset then Some (0, buf)
              else let m = (if file_size < offset + n then file_size - offset else n); bs = iso_block_size priv in
                if bs = 0 then None
                else let start_block = extent + offset div bs; end_block = extent + (offset + m - 1) div bs;
                         blocks_to_read = end_block - start_block + 1
                     in case km (blocks_to_read * bs) of
                          None \<Rightarrow> Some (-1, buf)
                        | Some block_buf \<Rightarrow> do {
                            (rc, b) \<leftarrow> iso9660_read_blocks io priv start_block blocks_to_read block_buf;
                            if rc \<noteq> 0 then Some (-1, buf)
                            else do {
                              out \<leftarrow> memcpy buf 0 b (unat (offset mod bs)) (unat m);
                              Some (sint m, out)
                            }
                          }
        })"

definition iso_put_entry :: "fs_dirent list \<Rightarrow> nat \<Rightarrow> u8 list \<Rightarrow> nat \<Rightarrow> fs_dirent list cmem" where
  "iso_put_entry entries k dir off =
     (if length entries \<le> k then None
      else let e = entries ! k; name_len = unat (rec_name_len dir off) in
        case memcpy (de_name e) 0 (take name_len (rec_name dir off) @ [0]) 0 (name_len + 1) of
          None \<Rightarrow> None
        | Some nm \<Rightarrow> Some (entries[k := e\<lparr>de_inode := rec_extent dir off, de_name := nm,
            de_name_len := rec_name_len dir off, de_file_type := (if rec_flags dir off AND 2 \<noteq> 0 then 2 else 1)\<rparr>]))"

text \<open>Without an entry array nothing is counted and the loop runs to the end of the block.\<close>

function iso_list_block ::
  "u8 list \<Rightarrow> nat \<Rightarrow> nat \<Rightarrow> nat \<Rightarrow> fs_dirent list ptr \<Rightarrow> nat \<Rightarrow> (fs_dirent list ptr \<times> nat) cmem" where
  "iso_list_block dir bs max_entries off entries k =
     (if bs \<le> off \<or> max_entries \<le> k then Some (entries, k)
      else if length dir \<le> off then None
      else if dir ! off = 0 then Some (entries, k)
      else if length dir < off + 33 \<or> rec_name_len dir off = 1 \<and> length dir < off + 34 then None
      else if rec_is_dot dir off then iso_list_block dir bs max_entries (off + unat (dir ! off)) entries k
      else case entries of
             None \<Rightarrow> iso_list_block dir bs max_entries (off + unat (dir ! off)) None k
           | Some es \<Rightarrow>
               (case iso_put_entry es k dir off of
                  None \<Rightarrow> None
                | Some es' \<Rightarrow> iso_list_block dir bs max_entries (off + unat (dir ! off)) (Some es') (k + 1)))"
  by pat_completeness auto
termination
  by (relation "measure (\<lambda>(dir, bs, max_entries, off, entries, k). bs - off)")
    (auto simp: unat_gt_0 intro!: diff_less_mono2)

declare iso_list_block.simps [simp del]

partial_function (option) iso_list_loop ::
  "disk_io \<Rightarrow> iso9660_private \<Rightarrow> u32 \<Rightarrow> u32 \<Rightarrow> u32 \<Rightarrow> u8 list \<Rightarrow> u32 \<Rightarrow> fs_dirent list ptr \<Rightarrow> nat \<Rightarrow>
   (int \<times> fs_dirent list ptr) cmem" where
  "iso_list_loop io priv extent n max_entries dir off entries k =
     (if off < n \<and> k < unat max_entries then
        if iso_block_size priv = 0 then None
        else Option.bind (iso9660_read_block io priv (extent + off div iso_block_size priv) dir) (\<lambda>(rc, d).
          if rc \<noteq> 0 then Some (-1, entries)
          else Option.bind (iso_list_block d (unat (iso_block_size priv)) (unat max_entries) 0 entries k) (\<lambda>(es, k').
            iso_list_loop io priv extent n max_entries d (off + iso_block_size priv) es k'))
      else Some (sint (of_nat k :: u32), entries))"

definition iso9660_list_dir ::
  "disk_io \<Rightarrow> kmalloc \<Rightarrow> iso9660_private ptr \<Rightarrow> u8 list \<Rightarrow> fs_dirent list ptr \<Rightarrow> u32 \<Rightarrow> (int \<times> fs_dirent list ptr) cmem" where
  "iso9660_list_dir io km private_data path entries max_entries =
     (case private_data of
        None \<Rightarrow> Some (-1, entries)
      | Some priv \<Rightarrow> do {
          r \<leftarrow> iso_find_root io km priv path;
          case r of
            None \<Rightarrow> Some (-1, entries)
          | Some (extent, n) \<Rightarrow>
              (case km (iso_block_size priv) of
                 None \<Rightarrow> Some (-1, entries)
               | Some dir \<Rightarrow> iso_list_loop io priv extent n max_entries dir 0 entries 0)
        })"

text \<open>The search for a record by extent and length at every byte of the block; a record takes 33 bytes.\<close>

fun iso_find_record :: "u8 list \<Rightarrow> u32 \<Rightarrow> u32 \<Rightarrow> nat list \<Rightarrow> nat option cmem" where
  "iso_find_record dir extent n [] = Some None"
| "iso_find_record dir extent n (i # is) =
     (if length dir < i + 14 then None
      else if dir ! i = 0 then Some None
      else if rec_extent dir i = extent \<and> rec_data_length dir i = n then Some (Some i)
      else iso_find_record dir extent n is)"

definition iso9660_get_info ::
  "disk_io \<Rightarrow> kmalloc \<Rightarrow> iso9660_private ptr \<Rightarrow> u8 list \<Rightarrow> fs_file_info ptr \<Rightarrow> (int \<times> fs_file_info ptr) cmem" where
  "iso9660_get_info io km private_data path info =
     (case (private_data, info) of
        (Some priv, Some old) \<Rightarrow> do {
          r \<leftarrow> iso_find_root io km priv path;
          case r of
            None \<Rightarrow> Some (-1, info)
          | Some (extent, n) \<Rightarrow>
              (case km (iso_block_size priv) of
                 None \<Rightarrow> Some (-1, info)
               | Some dir \<Rightarrow>
                   if iso_block_size priv div 256 = 0 then None
                   else do {
                     (rc, d) \<leftarrow> iso9660_read_block io priv (extent div (iso_block_size priv div 256)) dir;
                     if rc \<noteq> 0 then Some (-1, info)
                     else do {
                       f \<leftarrow> iso_find_record d extent n [0..<unat (iso_block_size priv) - 33];
                       case f of
                         None \<Rightarrow> Some (-1, info)
                       | Some i \<Rightarrow>
                           if length d \<le> i + 25 then None
                           else let isdir = rec_flags d i AND 2 \<noteq> 0 in
                             Some (0, Some \<lparr>fi_size = ucast n, fi_mode = (if isdir then 0x124 OR 0x49 else 0x124), fi_uid = 0,
                               fi_gid = 0, fi_atime = 0, fi_ctime = 0, fi_mtime = 0, fi_links = 0,
                               fi_type = (if isdir then 2 else 1)\<rparr>)
                     }
                   })
        }
      | _ \<Rightarrow> Some (-1, info))"

definition iso9660_find_file_fs ::
  "disk_io \<Rightarrow> kmalloc \<Rightarrow> iso9660_private ptr \<Rightarrow> u8 list \<Rightarrow> u32 ptr \<Rightarrow> (int \<times> u32 ptr) cmem" where
  "iso9660_find_file_fs io km private_data path inode_out =
     (case (private_data, inode_out) of
        (Some priv, Some old) \<Rightarrow> do {
          r \<leftarrow> iso_find_root io km priv path;
          Some (case r of None \<Rightarrow> (-1, inode_out) | Some (extent, n) \<Rightarrow> (0, Some extent))
        }
      | _ \<Rightarrow> Some (-1, inode_out))"

section \<open>Reading extents\<close>

text \<open>The bytes of a file: as many as its length from the start of its extent.\<close>

definition extent_bytes :: "disk \<Rightarrow> iso9660_private \<Rightarrow> u32 \<Rightarrow> u32 \<Rightarrow> u8 list" where
  "extent_bytes disk priv extent n =
     take (unat n) (sectors disk (iso_lba priv + extent * (iso_block_size priv div 512)) (unat n div 512 + 1))"

definition good_alloc :: "kmalloc \<Rightarrow> bool" where
  "good_alloc km \<longleftrightarrow> (\<forall>n. case km n of None \<Rightarrow> False | Some b \<Rightarrow> length b = unat n)"

definition iso_geometry :: "iso9660_private \<Rightarrow> bool" where
  "iso_geometry priv \<longleftrightarrow> 0 < iso_block_size priv \<and> iso_block_size priv < 65536 \<and> 512 dvd unat (iso_block_size priv)"

lemma good_allocE:
  assumes "good_alloc km"
  obtains b where "km n = Some b" "length b = unat n"
  using assms by (auto simp: good_alloc_def split: option.splits dest: spec [of _ n])

lemma take_sectors_le:
  assumes "sector_disk disk" and "a \<le> k * 512" and "a \<le> n * 512"
  shows "take a (sectors disk l k) = take a (sectors disk l n)"
proof -
  have *: "take a (sectors disk l k) = take a (sectors disk l n)" if "k \<le> n" "a \<le> k * 512" for k n
  proof -
    have "take a (take (k * 512) (sectors disk l n)) = take a (sectors disk l n)"
      using that(2) by (simp add: min_absorb1)
    then show ?thesis by (simp only: take_sectors [OF assms(1) that(1)])
  qed
  show ?thesis
  proof (cases "k \<le> n")
    case True
    then show ?thesis using assms(2) by (rule *)
  next
    case False
    then have "n \<le> k" by simp
    from * [OF this assms(3)] show ?thesis by (rule sym)
  qed
qed

lemma blocks_range:
  fixes B off m :: nat
  assumes "0 < B" and "0 < m"
  defines "q1 \<equiv> off div B" and "q2 \<equiv> (off + m - 1) div B"
  shows "q1 \<le> q2" "off mod B + m \<le> (q2 - q1 + 1) * B" "q1 * B + off mod B = off" "off + m \<le> (q2 + 1) * B"
    "(q2 - q1 + 1) * B \<le> off + m + B"
proof -
  show le: "q1 \<le> q2" unfolding q1_def q2_def using assms(2) by (intro div_le_mono) simp
  show e: "q1 * B + off mod B = off" by (simp add: q1_def)
  have "off + m - 1 < (q2 + 1) * B" unfolding q2_def using assms(1)
    by (metis add.commute dividend_less_div_times mult.commute mult_Suc Suc_eq_plus1)
  then show o: "off + m \<le> (q2 + 1) * B" by simp
  have s: "(q2 - q1 + 1) * B + q1 * B = (q2 + 1) * B" using le by (simp flip: add_mult_distrib)
  then show "off mod B + m \<le> (q2 - q1 + 1) * B" using e o by linarith
  have "q2 * B \<le> off + m - 1" unfolding q2_def by simp
  moreover have "(q2 + 1) * B = q2 * B + B" by simp
  ultimately show "(q2 - q1 + 1) * B \<le> off + m + B" using s by linarith
qed

lemma iso9660_read_blocks_serves:
  assumes "serves io disk" "sector_disk disk" "iso_geometry priv"
    and "length buf = k * unat (iso_block_size priv)" and "k * unat (iso_block_size priv) < 2 ^ 32" and "k = unat n"
  shows "iso9660_read_blocks io priv block n buf =
    Some (0, sectors disk (iso_lba priv + block * (iso_block_size priv div 512)) (k * (unat (iso_block_size priv) div 512)))"
proof -
  let ?B = "unat (iso_block_size priv)"
  have d: "?B div 512 * 512 = ?B" using assms(3) by (simp add: iso_geometry_def)
  have "?B div 512 \<le> ?B" by simp
  then have "k * (?B div 512) \<le> k * ?B" by (rule mult_le_mono2)
  from le_less_trans [OF this assms(5)] have "unat (n * (iso_block_size priv div 512)) = k * (?B div 512)"
    using assms(6) by (subst unat_mult_small) (simp_all add: unat_div)
  moreover have "k * (?B div 512) * 512 = k * ?B" using d by (simp only: mult.assoc)
  ultimately show ?thesis
    using disk_read_serves [OF assms(1,2), of buf 0] assms(4) by (simp add: iso9660_read_blocks_def d)
qed

text \<open>The number of blocks between two byte positions, computed with words.\<close>

lemma iso_block_count:
  fixes bs offset m' extent :: u32
  assumes B: "0 < unat bs" "unat bs < 65536" and m0: "0 < unat m'" and mb: "unat offset + unat m' < 2 ^ 31"
  defines "q1 \<equiv> unat offset div unat bs" and "q2 \<equiv> (unat offset + unat m' - 1) div unat bs"
    and "cnt \<equiv> extent + (offset + m' - 1) div bs - (extent + offset div bs) + 1"
  shows "unat cnt = q2 - q1 + 1" "unat (cnt * bs) = (q2 - q1 + 1) * unat bs" "(q2 - q1 + 1) * unat bs < 2 ^ 32"
    "offset div bs = of_nat q1"
proof -
  note rg = blocks_range [OF B(1) m0, of "unat offset", folded q1_def q2_def]
  have "unat (offset + m') = unat offset + unat m'" using mb by (subst unat_add_small) simp_all
  then have om: "unat (offset + m' - 1) = unat offset + unat m' - 1"
    using m0 by (subst unat_sub_small) simp_all
  have x: "unat (offset div bs) = q1" "unat ((offset + m' - 1) div bs) = q2"
    by (simp_all add: unat_div om q1_def q2_def)
  then show "offset div bs = of_nat q1" by (metis of_nat_unat ucast_id)
  show cB: "(q2 - q1 + 1) * unat bs < 2 ^ 32" using rg(5) mb B by simp
  have "(q2 - q1 + 1) * 1 \<le> (q2 - q1 + 1) * unat bs" using B(1) by (intro mult_le_mono2) simp
  from le_less_trans [OF this cB] have lt: "q2 - q1 + 1 < 2 ^ 32" by simp
  have "cnt = ((offset + m' - 1) div bs - offset div bs) + 1" by (simp add: cnt_def)
  moreover have "unat ((offset + m' - 1) div bs - offset div bs) = q2 - q1"
    using x rg(1) by (subst unat_sub_small) simp_all
  ultimately show cnt: "unat cnt = q2 - q1 + 1" using lt by (simp add: unat_add_small)
  show "unat (cnt * bs) = (q2 - q1 + 1) * unat bs" using cnt cB by (subst unat_mult_small) simp_all
qed

text \<open>The blocks from \<open>q1\<close> to \<open>q2\<close> of an extent hold the bytes wanted.\<close>

lemma extent_slice:
  assumes disk: "sector_disk disk" and B: "0 < B" "S * 512 = B" and m: "0 < m" "off + m \<le> n"
  defines "q1 \<equiv> off div B" and "q2 \<equiv> (off + m - 1) div B"
  shows "take m (drop (off mod B) (sectors disk (base + of_nat (q1 * S)) ((q2 - q1 + 1) * S))) =
    take m (drop off (take n (sectors disk base (n div 512 + 1))))"
proof -
  note rg = blocks_range [OF B(1) m(1), of off, folded q1_def q2_def]
  have a: "q1 * S \<le> (q2 + 1) * S" using rg(1) by (intro mult_le_mono1) simp
  have b: "(q2 + 1) * S - q1 * S = (q2 - q1 + 1) * S"
    using rg(1) diff_mult_distrib [of "q2 + 1" q1 S] by (simp add: Suc_diff_le)
  have c: "k * S * 512 = k * B" for k using B(2) by (simp only: mult.assoc)
  have sub: "sectors disk (base + of_nat (q1 * S)) ((q2 - q1 + 1) * S) = drop (q1 * B) (sectors disk base ((q2 + 1) * S))"
    using drop_sectors [OF disk a, of base] by (simp only: b c)
  have "take (off + m) (sectors disk base ((q2 + 1) * S)) = take (off + m) (sectors disk base (n div 512 + 1))"
    using rg(4) m(2) by (intro take_sectors_le [OF disk]) (simp_all only: c, simp)
  then have "drop off (take (off + m) (sectors disk base ((q2 + 1) * S))) =
      drop off (take (off + m) (take n (sectors disk base (n div 512 + 1))))"
    using m(2) by (simp add: min_absorb1)
  moreover have "min (m + off) n = m + off" "min m (n - off) = m" using m(2) by (simp_all add: min_def)
  ultimately show ?thesis unfolding sub using rg(3) by (simp add: drop_take add.commute)
qed

lemma memcpy_front:
  "m \<le> length buf \<Longrightarrow> k + m \<le> length d \<Longrightarrow> memcpy buf 0 d k m = Some (take m (drop k d) @ drop m buf)"
  by (simp add: memcpy_def)

lemma iso9660_read_file_range:
  assumes disk: "serves io disk" "sector_disk disk" and geo: "iso_geometry priv" and km: "good_alloc km"
    and find: "iso_find_root io km priv path = Some (Some (extent, file_size))"
    and lim: "unat offset + unat n < 2 ^ 31" and n: "0 < unat n" "unat n \<le> length buf" and off: "offset < file_size"
    and m: "m = min (unat n) (unat file_size - unat offset)"
  shows "iso9660_read_file io km (Some priv) path buf n offset =
    Some (int m, take m (drop (unat offset) (extent_bytes disk priv extent file_size)) @ drop m buf)"
proof -
  let ?bs = "iso_block_size priv"
  let ?B = "unat ?bs"
  let ?S = "?B div 512"
  define m' where "m' = (if file_size < offset + n then file_size - offset else n)"
  have "unat (offset + n) = unat offset + unat n" using lim by (intro unat_add_small) simp
  then have m': "unat m' = m"
    using off unat_sub_small [of offset file_size] m by (auto simp: m'_def word_less_nat_alt min_def)
  have m0: "0 < unat m'" and mb: "unat offset + unat m' < 2 ^ 31" and mf: "unat offset + m \<le> unat file_size"
    using m n off lim m' by (auto simp: word_less_nat_alt)
  have B: "0 < ?B" "?B < 65536" "?S * 512 = ?B" using geo by (simp_all add: iso_geometry_def word_less_nat_alt)
  define q1 q2 where "q1 = unat offset div ?B" and "q2 = (unat offset + m - 1) div ?B"
  define cnt where "cnt = extent + (offset + m' - 1) div ?bs - (extent + offset div ?bs) + 1"
  note c = iso_block_count(1,2) [OF B(1,2) m0 mb, of extent, folded cnt_def, unfolded m', folded q1_def q2_def]
  note q1 = iso_block_count(4) [OF B(1,2) m0 mb, folded q1_def]
  note cB = iso_block_count(3) [OF B(1,2) m0 mb, unfolded m', folded q1_def q2_def]
  note rg = blocks_range [OF B(1) m0 [unfolded m'], of "unat offset", folded q1_def q2_def]
  obtain bb where bb: "km (cnt * ?bs) = Some bb" "length bb = (q2 - q1 + 1) * ?B"
    using good_allocE [OF km, of "cnt * ?bs"] c(2) by metis
  let ?data = "sectors disk (iso_lba priv + extent * (?bs div 512) + of_nat (q1 * ?S)) ((q2 - q1 + 1) * ?S)"
  have "?bs div 512 = of_nat ?S" using arg_cong [OF unat_div [of ?bs 512], of "of_nat :: nat \<Rightarrow> u32"] by simp
  then have lba: "iso_lba priv + (extent + offset div ?bs) * (?bs div 512) =
      iso_lba priv + extent * (?bs div 512) + of_nat (q1 * ?S)"
    by (simp only: q1 distrib_right of_nat_mult add.assoc)
  have rd: "iso9660_read_blocks io priv (extent + offset div ?bs) cnt bb = Some (0, ?data)"
    using iso9660_read_blocks_serves [OF disk geo bb(2) cB c(1) [symmetric]] by (simp only: lba)
  have got: "take m (drop (unat offset mod ?B) ?data) = take m (drop (unat offset) (extent_bytes disk priv extent file_size))"
    unfolding extent_bytes_def q1_def q2_def using m0 m' mf by (intro extent_slice [OF disk(2) B(1,3)]) simp_all
  have "length ?data = (q2 - q1 + 1) * ?B" by (simp only: length_sectors [OF disk(2)] mult.assoc B(3))
  then have "memcpy buf 0 ?data (unat offset mod ?B) m =
      Some (take m (drop (unat offset) (extent_bytes disk priv extent file_size)) @ drop m buf)"
    using memcpy_front [of m buf "unat offset mod ?B" ?data] rg(2) n m got by (metis min.coboundedI1)
  moreover have "sint m' = int m" using m' mb by (simp add: sint_u32_small)
  moreover have cnt': "(offset + m' - 1) div ?bs - offset div ?bs + 1 = cnt" by (simp add: cnt_def)
  moreover have "\<not> file_size \<le> offset" "?bs \<noteq> 0" using off B by auto
  ultimately show ?thesis
    using find rd bb m' by (simp add: iso9660_read_file_def m'_def [symmetric] Let_def unat_mod)
qed

lemma iso9660_read_file_bytes:
  assumes "serves io disk" and "sector_disk disk" and "iso_geometry priv" and "good_alloc km"
    and "iso_find_root io km priv path = Some (Some (extent, file_size))"
    and "unat offset + unat n < 2 ^ 31" and "0 < unat n" and "unat n \<le> length buf"
    and "file = extent_bytes disk priv extent file_size" and "got = take (unat n) (drop (unat offset) file)"
  shows "iso9660_read_file io km (Some priv) path buf n offset =
    Some (int (length got), got @ drop (length got) buf)"
proof (cases "offset < file_size")
  case True
  define m where "m = min (unat n) (unat file_size - unat offset)"
  have len: "length file = unat file_size"
    using length_sectors [OF assms(2)] assms(9) by (simp add: extent_bytes_def)
  then have "length got = m" using assms(10) by (simp add: m_def)
  moreover have "got = take m (drop (unat offset) file)"
    using assms(10) len by (simp add: m_def min_def)
  ultimately show ?thesis
    using iso9660_read_file_range [OF assms(1-8) True m_def] assms(9) by simp
next
  case False
  then have "got = []" using assms(9,10) by (simp add: extent_bytes_def word_less_nat_alt)
  moreover have "file_size \<le> offset" using False by simp
  ultimately show ?thesis using assms(5) by (simp add: iso9660_read_file_def)
qed

section \<open>A sample volume\<close>

text \<open>Blocks of 512 bytes; sector 1 is the root directory with one record, for the file in sector 2.\<close>

definition iso_sample_disk :: disk where
  "iso_sample_disk s =
     (if s = 1 then
        [35, 0, 2, 0, 0, 0, 0, 0, 0, 2, 5, 0, 0, 0, 0, 0, 0, 5] @ replicate 14 0 @ [2, 65, 66] @ replicate 477 0
      else if s = 2 then [104, 101, 108, 108, 111] @ replicate 507 0
      else if s = 16 then [1, 67, 68, 48, 48, 49] @ replicate 506 0
      else replicate 512 0xFF)"

definition iso_sample_io :: disk_io where
  "iso_sample_io l n = (0, sectors iso_sample_disk l (unat n))"

definition iso_sample :: iso9660_private where
  "iso_sample = (iso_empty 0)\<lparr>iso_block_size := 512, iso_pvd := (iso_pvd_of (replicate 2034 0))\<lparr>
     pvd_root_directory_record := [34, 0, 1, 0, 0, 0, 0, 0, 0, 1, 0, 2, 0, 0] @ replicate 20 0\<rparr>\<rparr>"

definition iso_sample_km :: kmalloc where
  "iso_sample_km n = Some (replicate (unat n) 0)"

lemma iso_sample_ok: "serves iso_sample_io iso_sample_disk" "sector_disk iso_sample_disk" "iso_geometry iso_sample"
    "good_alloc iso_sample_km"
  by (simp_all add: serves_def iso_sample_io_def sector_disk_def iso_sample_disk_def iso_geometry_def iso_sample_def
      good_alloc_def iso_sample_km_def)

lemma iso_sample_find: "iso_find_root iso_sample_io iso_sample_km iso_sample [97, 98] = Some (Some (2, 5))"
proof -
  have scan: "iso_scan (iso_sample_disk 1) 512 [97, 98] False 0 = Some (Some (2, 5))" by code_simp
  have "sectors iso_sample_disk 1 1 = iso_sample_disk 1" by (simp add: sectors_def)
  then have rd: "iso9660_read_block iso_sample_io iso_sample 1 (replicate 512 0) = Some (0, iso_sample_disk 1)"
    using iso9660_read_blocks_serves [OF iso_sample_ok(1-3), of "replicate 512 0" 1 1 1]
    by (simp add: iso9660_read_block_def iso_sample_def iso_empty_def)
  have "iso_dir_loop iso_sample_io iso_sample 1 512 [97, 98] False (replicate 512 0) 0 = Some (Some (2, 5))"
    using rd scan by (subst iso_dir_loop.simps) (simp add: iso_sample_def)
  moreover have "pvd_root_directory_record (iso_pvd iso_sample) ! 2 = 1"
      "le32_at (pvd_root_directory_record (iso_pvd iso_sample)) 10 = 512" by code_simp+
  ultimately show ?thesis
    by (simp add: iso_find_root_def iso9660_find_entry.simps iso_sample_km_def iso_sample_def)
qed

section \<open>Properties\<close>

text \<open>C10: A read of at least one byte through a mounted volume returns exactly the bytes of the file found,
  from the offset on, as many as asked for or left; the blocks are read into a buffer of the right size and
  nothing outside the buffers is touched.\<close>

theorem iso9660_read_refines_file:
  assumes "serves io disk" and "sector_disk disk" and "iso_geometry priv" and "good_alloc km"
    and "iso_find_root io km priv path = Some (Some (extent, file_size))"
    and "unat offset + unat n < 2 ^ 31" and "0 < unat n" and "unat n \<le> length buf"
    and "file = extent_bytes disk priv extent file_size" and "got = take (unat n) (drop (unat offset) file)"
  shows "iso9660_read_file io km (Some priv) path buf n offset =
    Some (int (length got), got @ drop (length got) buf)"
  by (rule iso9660_read_file_bytes [OF assms])

theorem iso9660_read_refines_file_witness:
  "iso9660_read_file iso_sample_io iso_sample_km (Some iso_sample) [97, 98] [1, 2, 3, 4, 5] 3 1 =
     Some (3, [101, 108, 108, 4, 5])"
proof -
  have e: "extent_bytes iso_sample_disk iso_sample 2 5 = [104, 101, 108, 108, 111]" by code_simp
  show ?thesis
    using iso9660_read_refines_file [OF iso_sample_ok iso_sample_find, of 1 3 "[1, 2, 3, 4, 5]"
        "[104, 101, 108, 108, 111]" "[101, 108, 108]"] by (simp add: e)
qed

text \<open>The mount function skips the system area twice: a volume whose descriptor in sector 16 the driver
  recognises is refused as soon as sector 32 starts with the terminator byte, because only sectors from 32 on
  are searched.\<close>

lemma iso9660_mount_skips_descriptor:
  assumes "serves io disk" and "sector_disk disk" and "length stk = 2048"
    and "take 6 (disk (lba + 16)) = [1, 67, 68, 48, 48, 49]" and "disk (lba + 32) ! 0 = 0xFF"
  shows "iso9660_detect io stk lba = Some 1 \<and> iso9660_mount io km True stk lba = Some None"
proof -
  have one: "disk_read io stk 0 l 1 = Some (0, disk l @ drop 512 stk)" for l
    using disk_read_serves [OF assms(1,2), of stk 0 l 1] assms(3) by (simp add: sectors_def)
  have ne: "disk l \<noteq> []" for l using sector_diskD [OF assms(2), of l] by auto
  have "lba + 16 + 16 = lba + 32" by simp
  then have "iso_descriptor_loop io (iso_empty (lba + 16)) [16..<48] stk = Some (Inl ())"
    using one [of "lba + 32"] assms(5) ne
    by (simp add: upt_conv_Cons [of 16] iso_empty_def nth_append add.commute [of lba 32] del: upt_Suc)
  moreover have "take 6 (disk (lba + 16) @ drop 512 stk) = take 6 (disk (lba + 16))"
    using sector_diskD [OF assms(2), of "lba + 16"] by simp
  ultimately show ?thesis
    using one assms(4) by (simp add: iso9660_detect_def iso9660_mount_def iso9660_read_volume_descriptor_def)
qed

end
