(* ===== verification/Fs_Reader.thy ===== *)
theory Fs_Reader
  imports Fat32 Iso9660
begin

text \<open>
  The contract of the read operation that the file system drivers offer, as a locale, with the FAT32 and
  ISO 9660 drivers as its instances. The read operation of the ext2 driver is no instance: it ignores the
  offset.
\<close>

section \<open>The contract\<close>

text \<open>\<open>content\<close> is the file a valid \<open>s\<close> stands for; a read returns the number of bytes and the buffer.\<close>

locale file_reader =
  fixes valid :: "'s \<Rightarrow> bool"
    and content :: "'s \<Rightarrow> u8 list"
    and rd :: "'s \<Rightarrow> u8 list \<Rightarrow> u32 \<Rightarrow> u32 \<Rightarrow> (int \<times> u8 list) cmem"
  assumes read_bytes: "valid s \<Longrightarrow> 0 < unat n \<Longrightarrow> unat off + unat n < 2 ^ 31 \<Longrightarrow> unat n \<le> length buf \<Longrightarrow>
    got = take (unat n) (drop (unat off) (content s)) \<Longrightarrow>
    rd s buf n off = Some (int (length got), got @ drop (length got) buf)"
begin

lemma read_past_end:
  "valid s \<Longrightarrow> 0 < unat n \<Longrightarrow> unat off + unat n < 2 ^ 31 \<Longrightarrow> unat n \<le> length buf \<Longrightarrow>
   length (content s) \<le> unat off \<Longrightarrow> rd s buf n off = Some (0, buf)"
  using read_bytes [of s n off buf "[]"] by simp

lemma consecutive_reads:
  assumes "valid s" and "0 < unat n1" and "0 < unat n2" and "unat off + (unat n1 + unat n2) < 2 ^ 31"
    and "unat n1 \<le> length b1" and "unat n2 \<le> length b2" and "unat n1 + unat n2 \<le> length b"
  shows "\<exists>d1 d2. rd s b1 n1 off = Some (int (length d1), d1 @ drop (length d1) b1) \<and>
    rd s b2 n2 (off + n1) = Some (int (length d2), d2 @ drop (length d2) b2) \<and>
    rd s b (n1 + n2) off = Some (int (length (d1 @ d2)), (d1 @ d2) @ drop (length (d1 @ d2)) b)"
proof -
  define d1 d2 where "d1 = take (unat n1) (drop (unat off) (content s))"
    and "d2 = take (unat n2) (drop (unat off + unat n1) (content s))"
  have u: "unat (off + n1) = unat off + unat n1" "unat (n1 + n2) = unat n1 + unat n2"
    using assms(4) by (simp_all add: unat_add_small)
  have "take (unat n1 + unat n2) (drop (unat off) (content s)) = d1 @ d2"
    by (simp add: d1_def d2_def take_add add.commute)
  then have "rd s b (n1 + n2) off = Some (int (length (d1 @ d2)), (d1 @ d2) @ drop (length (d1 @ d2)) b)"
    using assms u by (intro read_bytes) simp_all
  moreover have "rd s b1 n1 off = Some (int (length d1), d1 @ drop (length d1) b1)"
    using assms by (intro read_bytes) (simp_all add: d1_def)
  moreover have "rd s b2 n2 (off + n1) = Some (int (length d2), d2 @ drop (length d2) b2)"
    using assms u by (intro read_bytes) (simp_all add: d2_def)
  ultimately show ?thesis by blast
qed

end

section \<open>The drivers\<close>

text \<open>A file of the root directory of a FAT32 volume, and a file of an ISO 9660 volume.\<close>

record fat_file =
  ff_disk :: disk
  ff_priv :: fat32_private
  ff_buf :: "u8 list"
  ff_root :: "u32 list"
  ff_name :: "u8 list"
  ff_cluster :: u32
  ff_size :: u32
  ff_chain :: "u32 list"

definition fat_file_valid :: "fat_file \<Rightarrow> bool" where
  "fat_file_valid f \<longleftrightarrow> sector_disk (ff_disk f) \<and> fat32_geometry (ff_priv f) \<and>
     length (ff_buf f) = unat (bytes_per_cluster (ff_priv f)) \<and>
     fat_chain (ff_disk f) (ff_priv f) (root_dir_first_cluster (ff_priv f)) (ff_root f) \<and>
     fat_component (ff_name f) \<and>
     root_lookup (ff_disk f) (ff_priv f) (ff_root f) (ff_name f) = Some (ff_cluster f, ff_size f) \<and>
     fat_chain (ff_disk f) (ff_priv f) (ff_cluster f) (ff_chain f) \<and>
     unat (ff_size f) \<le> length (chain_data (ff_disk f) (ff_priv f) (ff_chain f))"

definition fat_file_content :: "fat_file \<Rightarrow> u8 list" where
  "fat_file_content f = take (unat (ff_size f)) (chain_data (ff_disk f) (ff_priv f) (ff_chain f))"

definition fat_file_read :: "fat_file \<Rightarrow> u8 list \<Rightarrow> u32 \<Rightarrow> u32 \<Rightarrow> (int \<times> u8 list) cmem" where
  "fat_file_read f buf n off = fat32_read (ff_disk f) (Some (ff_buf f)) (ff_priv f) (47 # ff_name f) buf n off"

record iso_file =
  if_disk :: disk
  if_io :: disk_io
  if_km :: kmalloc
  if_priv :: iso9660_private
  if_path :: "u8 list"
  if_extent :: u32
  if_size :: u32

definition iso_file_valid :: "iso_file \<Rightarrow> bool" where
  "iso_file_valid f \<longleftrightarrow> serves (if_io f) (if_disk f) \<and> sector_disk (if_disk f) \<and> iso_geometry (if_priv f) \<and>
     good_alloc (if_km f) \<and>
     iso_find_root (if_io f) (if_km f) (if_priv f) (if_path f) = Some (Some (if_extent f, if_size f))"

definition iso_file_content :: "iso_file \<Rightarrow> u8 list" where
  "iso_file_content f = extent_bytes (if_disk f) (if_priv f) (if_extent f) (if_size f)"

definition iso_file_read :: "iso_file \<Rightarrow> u8 list \<Rightarrow> u32 \<Rightarrow> u32 \<Rightarrow> (int \<times> u8 list) cmem" where
  "iso_file_read f buf n off = iso9660_read_file (if_io f) (if_km f) (Some (if_priv f)) (if_path f) buf n off"

interpretation fat_reader: file_reader fat_file_valid fat_file_content fat_file_read
proof unfold_locales
  fix f :: fat_file and n off :: u32 and buf got :: "u8 list"
  assume v: "fat_file_valid f" and n: "0 < unat n" "unat off + unat n < 2 ^ 31" "unat n \<le> length buf"
    and got: "got = take (unat n) (drop (unat off) (fat_file_content f))"
  show "fat_file_read f buf n off = Some (int (length got), got @ drop (length got) buf)"
    using v n unfolding fat_file_read_def fat_file_valid_def
    by (intro fat32_read_file_bytes [where rcs = "ff_root f" and c = "ff_cluster f" and fsize = "ff_size f"
          and cs = "ff_chain f" and ?file = "fat_file_content f"]) (simp_all add: got fat_file_content_def)
qed

interpretation iso_reader: file_reader iso_file_valid iso_file_content iso_file_read
proof unfold_locales
  fix f :: iso_file and n off :: u32 and buf got :: "u8 list"
  assume v: "iso_file_valid f" and n: "0 < unat n" "unat off + unat n < 2 ^ 31" "unat n \<le> length buf"
    and got: "got = take (unat n) (drop (unat off) (iso_file_content f))"
  show "iso_file_read f buf n off = Some (int (length got), got @ drop (length got) buf)"
    using v n unfolding iso_file_read_def iso_file_valid_def
    by (intro iso9660_read_file_bytes [where disk = "if_disk f" and extent = "if_extent f" and file_size = "if_size f"
          and ?file = "iso_file_content f"]) (simp_all add: got iso_file_content_def)
qed

section \<open>Properties\<close>

text \<open>C26: Reading a file of a FAT32 or an ISO 9660 volume in two consecutive pieces stores the same bytes and
  returns the same total as reading it in one piece, also across the end of the file.\<close>

theorem drivers_read_in_pieces:
  assumes "fat_file_valid f" and "iso_file_valid g" and "0 < unat n1" and "0 < unat n2"
    and "unat off + (unat n1 + unat n2) < 2 ^ 31"
    and "unat n1 \<le> length b1" and "unat n2 \<le> length b2" and "unat n1 + unat n2 \<le> length b"
  shows "(\<exists>d1 d2. fat_file_read f b1 n1 off = Some (int (length d1), d1 @ drop (length d1) b1) \<and>
      fat_file_read f b2 n2 (off + n1) = Some (int (length d2), d2 @ drop (length d2) b2) \<and>
      fat_file_read f b (n1 + n2) off = Some (int (length (d1 @ d2)), (d1 @ d2) @ drop (length (d1 @ d2)) b)) \<and>
    (\<exists>d1 d2. iso_file_read g b1 n1 off = Some (int (length d1), d1 @ drop (length d1) b1) \<and>
      iso_file_read g b2 n2 (off + n1) = Some (int (length d2), d2 @ drop (length d2) b2) \<and>
      iso_file_read g b (n1 + n2) off = Some (int (length (d1 @ d2)), (d1 @ d2) @ drop (length (d1 @ d2)) b))"
  using fat_reader.consecutive_reads [OF assms(1,3-8)] iso_reader.consecutive_reads [OF assms(2,3-8)] by blast

theorem drivers_read_in_pieces_witness:
  "\<exists>f g. fat_file_valid f \<and> iso_file_valid g \<and>
    (\<exists>d1 d2. fat_file_read f [0, 0, 0] 3 0 = Some (int (length d1), d1 @ drop (length d1) [0, 0, 0]) \<and>
      fat_file_read f [0, 0, 0] 3 3 = Some (int (length d2), d2 @ drop (length d2) [0, 0, 0]))"
proof -
  let ?f = "\<lparr>ff_disk = sample_disk, ff_priv = sample_fat, ff_buf = replicate 512 0, ff_root = [2],
    ff_name = [97, 46, 116, 120, 116], ff_cluster = 3, ff_size = 5, ff_chain = [3]\<rparr>"
  let ?g = "\<lparr>if_disk = iso_sample_disk, if_io = iso_sample_io, if_km = iso_sample_km, if_priv = iso_sample,
    if_path = [97, 98], if_extent = 2, if_size = 5\<rparr>"
  have d: "chain_data sample_disk sample_fat [3] = [104, 101, 108, 108, 111] @ replicate 507 0" by code_simp
  have r: "root_dir_first_cluster sample_fat = 2" "bytes_per_cluster sample_fat = 512" by (simp_all add: sample_fat_def)
  have f: "fat_file_valid ?f"
    by (simp add: fat_file_valid_def sample_sector_disk sample_geometry sample_chains sample_lookup r d fat_component_def
        del: fat_chain.simps chain_data_simps)
  have g: "iso_file_valid ?g" by (simp add: iso_file_valid_def iso_sample_ok iso_sample_find)
  show ?thesis
    using drivers_read_in_pieces [OF f g, of 3 3 0 "[0, 0, 0]" "[0, 0, 0]" "[0, 0, 0, 0, 0, 0]"] f g
    by (intro exI [of _ ?f] exI [of _ ?g]) auto
qed

end
