(* ===== verification/Ext2.thy ===== *)
theory Ext2
  imports Fs_Mount Disk_Io
begin

text \<open>
  The ext2 driver, \<^verbatim>\<open>fs/ext2.c\<close>. The parameter \<open>io\<close> is \<open>disk_read\<close>: for a sector and a number of
  sectors its return code and the bytes it stores; \<open>km\<close> is \<open>kmalloc\<close>. As in the other theories
  \<^const>\<open>None\<close> is an access outside a buffer, a division by zero or a loop that does not end.
\<close>

section \<open>On-disk structures\<close>

record ext2_superblock =
  s_inodes_count :: u32
  s_blocks_count :: u32
  s_log_block_size :: u32
  s_blocks_per_group :: u32
  s_inodes_per_group :: u32
  s_magic :: u16
  s_rev_level :: u32
  s_first_ino :: u32
  s_inode_size :: u16

definition ext2_sb_of :: "u8 list \<Rightarrow> ext2_superblock" where
  "ext2_sb_of b =
     \<lparr>s_inodes_count = le32_at b 0, s_blocks_count = le32_at b 4, s_log_block_size = le32_at b 24,
      s_blocks_per_group = le32_at b 32, s_inodes_per_group = le32_at b 40, s_magic = le16_at b 56,
      s_rev_level = le32_at b 76, s_first_ino = le32_at b 84, s_inode_size = le16_at b 88\<rparr>"

record ext2_inode =
  i_mode :: u16
  i_uid :: u16
  i_size :: u32
  i_atime :: u32
  i_ctime :: u32
  i_mtime :: u32
  i_gid :: u16
  i_links_count :: u16
  i_block :: "u32 list"

text \<open>The inode in the 128 bytes of \<open>b\<close>.\<close>

definition ext2_inode_of :: "u8 list \<Rightarrow> ext2_inode" where
  "ext2_inode_of b =
     \<lparr>i_mode = le16_at b 0, i_uid = le16_at b 2, i_size = le32_at b 4, i_atime = le32_at b 8,
      i_ctime = le32_at b 12, i_mtime = le32_at b 16, i_gid = le16_at b 24, i_links_count = le16_at b 26,
      i_block = map (\<lambda>k. le32_at b (40 + 4 * k)) [0..<15]\<rparr>"

text \<open>\<open>e_gd\<close> is the memory of the group descriptors, 32 bytes each.\<close>

record ext2_private =
  e_lba :: u32
  e_sb :: ext2_superblock
  e_block_size :: u32
  e_inode_size :: u32
  e_blocks_per_group :: u32
  e_inodes_per_group :: u32
  e_inodes_per_block :: u32
  e_desc_per_block :: u32
  e_group_count :: u32
  e_gd :: "u8 list"

section \<open>Blocks\<close>

definition ext2_read_blocks ::
  "disk_io \<Rightarrow> ext2_private \<Rightarrow> u32 \<Rightarrow> u32 \<Rightarrow> u8 list \<Rightarrow> nat \<Rightarrow> (int \<times> u8 list) cmem" where
  "ext2_read_blocks io priv block n buf off =
     disk_read io buf off (e_lba priv + block * (e_block_size priv div 512)) (n * (e_block_size priv div 512))"

definition ext2_read_block :: "disk_io \<Rightarrow> ext2_private \<Rightarrow> u32 \<Rightarrow> u8 list \<Rightarrow> nat \<Rightarrow> (int \<times> u8 list) cmem" where
  "ext2_read_block io priv block_num buf off = ext2_read_blocks io priv block_num 1 buf off"

text \<open>The superblock of fresh private data, which is zero before the read.\<close>

definition ext2_read_superblock :: "disk_io \<Rightarrow> ext2_private \<Rightarrow> (int \<times> ext2_private) cmem" where
  "ext2_read_superblock io priv = do {
     (rc, b) \<leftarrow> disk_read io (replicate 1024 0) 0 (e_lba priv + 2) 2;
     Some (rc, priv\<lparr>e_sb := ext2_sb_of b\<rparr>)
   }"

definition ext2_read_group_descriptors :: "disk_io \<Rightarrow> kmalloc \<Rightarrow> ext2_private \<Rightarrow> (int \<times> ext2_private) cmem" where
  "ext2_read_group_descriptors io km priv =
     (if e_blocks_per_group priv = 0 \<or> e_block_size priv = 0 then None
      else let count = (s_blocks_count (e_sb priv) + e_blocks_per_group priv - 1) div e_blocks_per_group priv;
               gd_size = count * 32;
               gd_block = 1 + (if 1024 < e_block_size priv then 1 else 0)
           in case km gd_size of
                None \<Rightarrow> Some (-1, priv\<lparr>e_group_count := count\<rparr>)
              | Some gd \<Rightarrow> do {
                  (rc, gd') \<leftarrow> ext2_read_blocks io priv gd_block
                    ((gd_size + e_block_size priv - 1) div e_block_size priv) gd 0;
                  Some (rc, priv\<lparr>e_group_count := count, e_gd := gd'\<rparr>)
                })"

section \<open>Detection and mounting\<close>

definition ext2_detect :: "disk_io \<Rightarrow> u32 \<Rightarrow> int cmem" where
  "ext2_detect io lba = do {
     (rc, b) \<leftarrow> disk_read io (replicate 1024 0) 0 (lba + 2) 2;
     let sb = ext2_sb_of b;
     Some (if rc \<noteq> 0 then 0
           else if s_magic sb \<noteq> 0xEF53 then 0
           else if s_rev_level sb = 0 \<and> s_first_ino sb \<noteq> 11 then 0
           else 1)
   }"

definition ext2_empty :: "u32 \<Rightarrow> ext2_private" where
  "ext2_empty lba =
     \<lparr>e_lba = lba, e_sb = ext2_sb_of (replicate 1024 0), e_block_size = 0, e_inode_size = 0, e_blocks_per_group = 0,
      e_inodes_per_group = 0, e_inodes_per_block = 0, e_desc_per_block = 0, e_group_count = 0, e_gd = []\<rparr>"

text \<open>\<open>alloc\<close> says whether there is memory for the private data; a shift of 1024 by more than 20 bits
  leaves the range of \<open>int\<close>.\<close>

definition ext2_mount :: "disk_io \<Rightarrow> kmalloc \<Rightarrow> bool \<Rightarrow> u32 \<Rightarrow> ext2_private ptr cmem" where
  "ext2_mount io km alloc lba =
     (if \<not> alloc then Some None
      else do {
        (rc, p) \<leftarrow> ext2_read_superblock io (ext2_empty lba);
        let sb = e_sb p;
        if rc \<noteq> 0 then Some None
        else if s_magic sb \<noteq> 0xEF53 then Some None
        else if 20 < s_log_block_size sb then None
        else do {
          let bs = push_bit (unat (s_log_block_size sb)) 1024;
          let isize = (if s_inode_size sb < 128 then 128 else ucast (s_inode_size sb));
          (rc, p') \<leftarrow> ext2_read_group_descriptors io km
            (p\<lparr>e_block_size := bs, e_inode_size := isize, e_blocks_per_group := s_blocks_per_group sb,
               e_inodes_per_group := s_inodes_per_group sb, e_inodes_per_block := bs div isize,
               e_desc_per_block := bs div 32\<rparr>);
          Some (if rc \<noteq> 0 then None else Some p')
        }
      })"

section \<open>Inodes and file contents\<close>

text \<open>The value \<open>Some None\<close> is the return code \<open>-1\<close>.\<close>

definition ext2_read_inode :: "disk_io \<Rightarrow> kmalloc \<Rightarrow> ext2_private \<Rightarrow> u32 \<Rightarrow> ext2_inode option cmem" where
  "ext2_read_inode io km priv inode_num =
     (if inode_num = 0 then Some None
      else if e_inodes_per_group priv = 0 then None
      else let group = (inode_num - 1) div e_inodes_per_group priv in
        if e_group_count priv \<le> group then Some None
        else if length (e_gd priv) < 32 * unat group + 32 \<or> e_block_size priv = 0 then None
        else let inode_table_block = le32_at (e_gd priv) (32 * unat group + 8);
                 index = (inode_num - 1) mod e_inodes_per_group priv;
                 block_offset = (index * e_inode_size priv) div e_block_size priv;
                 inode_offset = (index * e_inode_size priv) mod e_block_size priv
             in case km (e_block_size priv) of
                  None \<Rightarrow> Some None
                | Some block \<Rightarrow> do {
                    (rc, b) \<leftarrow> ext2_read_block io priv (inode_table_block + block_offset) block 0;
                    if rc \<noteq> 0 then Some None
                    else if length b < unat inode_offset + 128 then None
                    else Some (Some (ext2_inode_of (take 128 (drop (unat inode_offset) b))))
                  })"

text \<open>The loop over the direct blocks; every block is read in full.\<close>

fun ext2_read_direct ::
  "disk_io \<Rightarrow> ext2_private \<Rightarrow> u32 \<Rightarrow> u32 list \<Rightarrow> u32 \<Rightarrow> u8 list \<Rightarrow> nat \<Rightarrow> (int \<times> u8 list) cmem" where
  "ext2_read_direct io priv to_read [] read_bytes buf pos = Some (0, buf)"
| "ext2_read_direct io priv to_read (b # bs) read_bytes buf pos =
     (if to_read \<le> read_bytes \<or> b = 0 then Some (0, buf)
      else let chunk = (if e_block_size priv < to_read - read_bytes then e_block_size priv else to_read - read_bytes)
           in case ext2_read_block io priv b buf (pos + unat read_bytes) of
                None \<Rightarrow> None
              | Some (rc, buf') \<Rightarrow>
                  if rc \<noteq> 0 then Some (-1, buf')
                  else ext2_read_direct io priv to_read bs (read_bytes + chunk) buf' pos)"

definition ext2_read_file ::
  "disk_io \<Rightarrow> kmalloc \<Rightarrow> ext2_private \<Rightarrow> u32 \<Rightarrow> u8 list \<Rightarrow> nat \<Rightarrow> u32 \<Rightarrow> (int \<times> u8 list) cmem" where
  "ext2_read_file io km priv inode_num buf pos max_size = do {
     ino \<leftarrow> ext2_read_inode io km priv inode_num;
     case ino of
       None \<Rightarrow> Some (-1, buf)
     | Some inode \<Rightarrow>
         let to_read = (if i_size inode < max_size then i_size inode else max_size)
         in ext2_read_direct io priv to_read (take 12 (i_block inode)) 0 buf pos
   }"

section \<open>Directories\<close>

definition dir_name :: "u8 list \<Rightarrow> nat \<Rightarrow> nat \<Rightarrow> u8 list" where
  "dir_name dir off n = takeWhile (\<lambda>c. c \<noteq> 0) (take n (drop (off + 8) dir))"

partial_function (option) ext2_find_loop :: "u8 list \<Rightarrow> u32 \<Rightarrow> u8 list \<Rightarrow> u32 \<Rightarrow> u32 option cmem" where
  "ext2_find_loop dir block_size filename offset =
     (if offset < block_size then
        let off = unat offset; inode_num = le32_at dir off; rec_len = le16_at dir (off + 4);
            name_len = unat (dir ! (off + 6))
        in if length dir < off + 8 + name_len then None
           else if inode_num \<noteq> 0 \<and> dir_name dir off name_len = filename then Some (Some inode_num)
           else if rec_len = 0 then Some None
           else ext2_find_loop dir block_size filename (offset + ucast rec_len)
      else Some None)"

text \<open>\<open>dir\<close> is the array of \<open>block_size\<close> bytes on the stack.\<close>

definition ext2_find_file :: "disk_io \<Rightarrow> kmalloc \<Rightarrow> ext2_private \<Rightarrow> u8 list \<Rightarrow> u8 list \<Rightarrow> u32 option cmem" where
  "ext2_find_file io km priv dir filename = do {
     root \<leftarrow> ext2_read_inode io km priv 2;
     case root of
       None \<Rightarrow> Some None
     | Some root_inode \<Rightarrow> do {
         (rc, d) \<leftarrow> ext2_read_block io priv (i_block root_inode ! 0) dir 0;
         if rc \<noteq> 0 then Some None else ext2_find_loop d (e_block_size priv) filename 0
       }
   }"

definition put_dirent :: "fs_dirent \<Rightarrow> u8 list \<Rightarrow> nat \<Rightarrow> fs_dirent cmem" where
  "put_dirent ent block off =
     (let name_len = block ! (off + 6) in
      case memcpy (de_name ent) 0 (take (unat name_len) (drop (off + 8) block) @ [0]) 0 (unat name_len + 1) of
        None \<Rightarrow> None
      | Some nm \<Rightarrow> Some (ent\<lparr>de_inode := le32_at block off, de_name_len := name_len,
                             de_file_type := block ! (off + 7), de_name := nm\<rparr>))"

definition put_entry :: "fs_dirent list ptr \<Rightarrow> nat \<Rightarrow> u8 list \<Rightarrow> nat \<Rightarrow> fs_dirent list ptr cmem" where
  "put_entry entries k block off =
     (case entries of
        None \<Rightarrow> Some None
      | Some es \<Rightarrow>
          if length es \<le> k then None
          else (case put_dirent (es ! k) block off of
                  None \<Rightarrow> None | Some e \<Rightarrow> Some (Some (es[k := e]))))"

partial_function (option) ext2_list_block ::
  "u8 list \<Rightarrow> u32 \<Rightarrow> u32 \<Rightarrow> u32 \<Rightarrow> fs_dirent list ptr \<Rightarrow> u32 \<Rightarrow> (fs_dirent list ptr \<times> u32) cmem" where
  "ext2_list_block block block_size max_entries offset entries entry_count =
     (if offset < block_size \<and> entry_count < max_entries then
        let off = unat offset; rec_len = le16_at block (off + 4) in
        if length block < off + 8 then None
        else if le32_at block off = 0
        then ext2_list_block block block_size max_entries (offset + ucast rec_len) entries entry_count
        else if length block < off + 8 + unat (block ! (off + 6)) then None
        else Option.bind (put_entry entries (unat entry_count) block off) (\<lambda>es.
          if rec_len = 0 then Some (es, entry_count + 1)
          else ext2_list_block block block_size max_entries (offset + ucast rec_len) es (entry_count + 1))
      else Some (entries, entry_count))"

fun ext2_list_blocks ::
  "disk_io \<Rightarrow> ext2_private \<Rightarrow> u32 \<Rightarrow> u32 list \<Rightarrow> u8 list \<Rightarrow> fs_dirent list ptr \<Rightarrow> u32 \<Rightarrow> (int \<times> fs_dirent list ptr) cmem" where
  "ext2_list_blocks io priv max_entries [] block entries entry_count = Some (sint entry_count, entries)"
| "ext2_list_blocks io priv max_entries (b # bs) block entries entry_count =
     (if b = 0 then Some (sint entry_count, entries)
      else case ext2_read_block io priv b block 0 of
             None \<Rightarrow> None
           | Some (rc, blk) \<Rightarrow>
               if rc \<noteq> 0 then Some (-1, entries)
               else (case ext2_list_block blk (e_block_size priv) max_entries 0 entries entry_count of
                       None \<Rightarrow> None
                     | Some (es, k) \<Rightarrow> ext2_list_blocks io priv max_entries bs blk es k))"

definition ext2_list_dir ::
  "disk_io \<Rightarrow> kmalloc \<Rightarrow> ext2_private \<Rightarrow> u8 list \<Rightarrow> u8 list \<Rightarrow> fs_dirent list ptr \<Rightarrow> u32 \<Rightarrow> (int \<times> fs_dirent list ptr) cmem" where
  "ext2_list_dir io km priv dir path entries max_entries = do {
     num \<leftarrow> (if path = [47] then Some (Some 2) else ext2_find_file io km priv dir path);
     case num of
       None \<Rightarrow> Some (-1, entries)
     | Some inode_num \<Rightarrow> do {
         ino \<leftarrow> ext2_read_inode io km priv inode_num;
         case ino of
           None \<Rightarrow> Some (-1, entries)
         | Some inode \<Rightarrow>
             if i_mode inode AND 0xF000 \<noteq> 0x4000 then Some (-1, entries)
             else (case km (e_block_size priv) of
                     None \<Rightarrow> Some (-1, entries)
                   | Some block \<Rightarrow>
                       ext2_list_blocks io priv max_entries (take 12 (i_block inode)) block entries 0)
       }
   }"

definition ext2_file_type :: "u16 \<Rightarrow> u8" where
  "ext2_file_type mode =
     (let t = mode AND 0xF000 in
      if t = 0x8000 then 1 else if t = 0x4000 then 2 else if t = 0xA000 then 3 else if t = 0x6000 then 4
      else if t = 0x2000 then 5 else if t = 0x1000 then 6 else if t = 0xC000 then 7 else 0)"

definition ext2_get_info ::
  "disk_io \<Rightarrow> kmalloc \<Rightarrow> ext2_private \<Rightarrow> u32 \<Rightarrow> fs_file_info ptr \<Rightarrow> (int \<times> fs_file_info ptr) cmem" where
  "ext2_get_info io km priv inode_num info =
     (case info of
        None \<Rightarrow> Some (-1, None)
      | Some i \<Rightarrow> do {
          ino \<leftarrow> ext2_read_inode io km priv inode_num;
          case ino of
            None \<Rightarrow> Some (-1, info)
          | Some inode \<Rightarrow> Some (0, Some
              (i\<lparr>fi_size := ucast (i_size inode), fi_mode := ucast (i_mode inode), fi_uid := ucast (i_uid inode),
                 fi_gid := ucast (i_gid inode), fi_atime := ucast (i_atime inode), fi_ctime := ucast (i_ctime inode),
                 fi_mtime := ucast (i_mtime inode), fi_links := ucast (i_links_count inode),
                 fi_type := ext2_file_type (i_mode inode)\<rparr>))
        })"

section \<open>The driver interface\<close>

partial_function (option) ext2_fs_read_loop ::
  "disk_io \<Rightarrow> kmalloc \<Rightarrow> ext2_private \<Rightarrow> u32 \<Rightarrow> u8 list \<Rightarrow> u32 \<Rightarrow> u32 \<Rightarrow> (int \<times> u8 list) cmem" where
  "ext2_fs_read_loop io km priv inode_num buf pos remaining =
     (if 0 < remaining then
        let to_read = (if e_block_size priv < remaining then e_block_size priv else remaining) in
        Option.bind (ext2_read_file io km priv inode_num buf (unat pos) to_read) (\<lambda>(rc, buf').
          if rc \<noteq> 0 then Some (-1, buf')
          else ext2_fs_read_loop io km priv inode_num buf' (pos + to_read) (remaining - to_read))
      else Some (sint pos, buf))"

definition ext2_fs_read_file ::
  "disk_io \<Rightarrow> kmalloc \<Rightarrow> ext2_private \<Rightarrow> u8 list \<Rightarrow> u8 list \<Rightarrow> u8 list \<Rightarrow> u32 \<Rightarrow> u32 \<Rightarrow> (int \<times> u8 list) cmem" where
  "ext2_fs_read_file io km priv dir path buf n offset = do {
     num \<leftarrow> ext2_find_file io km priv dir path;
     case num of
       None \<Rightarrow> Some (-1, buf)
     | Some inode_num \<Rightarrow> ext2_fs_read_loop io km priv inode_num buf 0 n
   }"

definition ext2_fs_get_info ::
  "disk_io \<Rightarrow> kmalloc \<Rightarrow> ext2_private \<Rightarrow> u8 list \<Rightarrow> u8 list \<Rightarrow> fs_file_info ptr \<Rightarrow> (int \<times> fs_file_info ptr) cmem" where
  "ext2_fs_get_info io km priv dir path info = do {
     num \<leftarrow> (if path = [47] then Some (Some 2) else ext2_find_file io km priv dir path);
     case num of
       None \<Rightarrow> Some (-1, info)
     | Some inode_num \<Rightarrow> ext2_get_info io km priv inode_num info
   }"

section \<open>Reading blocks\<close>

definition block_bytes :: "disk_io \<Rightarrow> ext2_private \<Rightarrow> u32 \<Rightarrow> u8 list" where
  "block_bytes io priv b = snd (io (e_lba priv + b * (e_block_size priv div 512)) (e_block_size priv div 512))"

text \<open>The disk returns every block of the volume without error and in full.\<close>

definition ext2_volume :: "disk_io \<Rightarrow> ext2_private \<Rightarrow> bool" where
  "ext2_volume io priv \<longleftrightarrow> 0 < e_block_size priv \<and>
     (\<forall>b. fst (io (e_lba priv + b * (e_block_size priv div 512)) (e_block_size priv div 512)) = 0 \<and>
          length (block_bytes io priv b) = unat (e_block_size priv))"

lemma ext2_volumeD:
  assumes "ext2_volume io priv"
  shows "length (block_bytes io priv b) = unat (e_block_size priv)" "0 < unat (e_block_size priv)"
  using assms by (auto simp: ext2_volume_def word_less_nat_alt)

lemma ext2_read_block_eq:
  assumes "ext2_volume io priv"
  shows "ext2_read_block io priv b buf off =
    (if off + unat (e_block_size priv) \<le> length buf
     then Some (0, take off buf @ block_bytes io priv b @ drop (off + unat (e_block_size priv)) buf) else None)"
proof -
  have "fst (io (e_lba priv + b * (e_block_size priv div 512)) (e_block_size priv div 512)) = 0"
    using assms by (simp add: ext2_volume_def)
  then show ?thesis
    using ext2_volumeD(1) [OF assms, of b]
    by (simp add: ext2_read_block_def ext2_read_blocks_def disk_read_def memcpy_def block_bytes_def)
qed

text \<open>The number of blocks that hold \<open>n\<close> bytes.\<close>

definition blocks_for :: "nat \<Rightarrow> nat \<Rightarrow> nat" where
  "blocks_for B n = (n + B - 1) div B"

lemma blocks_for_0 [simp]: "0 < B \<Longrightarrow> blocks_for B 0 = 0"
  by (simp add: blocks_for_def)

lemma blocks_for_step: "0 < B \<Longrightarrow> 0 < n \<Longrightarrow> blocks_for B n = Suc (blocks_for B (n - B))"
proof (cases "n \<le> B")
  case True
  assume "0 < B" "0 < n"
  with True have "(n + B - 1) div B = 1" by (intro div_nat_eqI) auto
  then show ?thesis using True \<open>0 < B\<close> by (simp add: blocks_for_def)
next
  case False
  assume "0 < B"
  have "(n + B - 1) div B = Suc ((n - 1) div B)" using False \<open>0 < B\<close> by (simp add: le_div_geq)
  moreover have "n - B + B - 1 = n - 1" using False by simp
  ultimately show ?thesis by (simp add: blocks_for_def)
qed

lemma blocks_for_mult: "0 < B \<Longrightarrow> blocks_for B (k * B) = k"
  by (induction k) (simp_all add: blocks_for_step)

lemma ext2_read_direct_eq:
  assumes vol: "ext2_volume io priv"
  defines "B \<equiv> unat (e_block_size priv)"
  shows "unat r \<le> unat t \<Longrightarrow> n = blocks_for B (unat t - unat r) \<Longrightarrow> n \<le> length (takeWhile (\<lambda>b. b \<noteq> 0) bs) \<Longrightarrow>
    pos + unat r \<le> length buf \<Longrightarrow>
    ext2_read_direct io priv t bs r buf pos =
      (if pos + unat r + n * B \<le> length buf
       then Some (0, take (pos + unat r) buf @ concat (map (block_bytes io priv) (take n bs)) @ drop (pos + unat r + n * B) buf)
       else None)"
proof (induction bs arbitrary: r buf n)
  case Nil
  then show ?case by simp
next
  case (Cons b bs)
  have B: "0 < B" "length (block_bytes io priv b) = B" using ext2_volumeD [OF vol] by (simp_all add: B_def)
  show ?case
  proof (cases "unat t \<le> unat r")
    case True
    then show ?thesis using Cons.prems B by (simp add: word_le_nat_alt)
  next
    case False
    then have rt: "\<not> t \<le> r" "unat (t - r) = unat t - unat r"
      by (simp_all add: word_le_nat_alt unat_sub_small)
    define k where "k = blocks_for B (unat t - unat r - B)"
    have n: "n = Suc k" using Cons.prems(2) blocks_for_step [OF B(1)] False by (simp add: k_def)
    have b: "b \<noteq> 0" "k \<le> length (takeWhile (\<lambda>b. b \<noteq> 0) bs)"
      using Cons.prems(3) n by (auto split: if_splits)
    define chunk where "chunk = (if e_block_size priv < t - r then e_block_size priv else t - r)"
    have ch: "unat chunk = min B (unat t - unat r)"
      using rt by (auto simp: chunk_def B_def word_less_nat_alt)
    have r': "unat (r + chunk) = unat r + unat chunk"
    proof (rule unat_add_small)
      have "unat r + unat chunk \<le> unat t" using ch False by simp
      from le_less_trans [OF this unat_u32_bound] show "unat r + unat chunk < 2 ^ LENGTH(32)" by simp
    qed
    show ?thesis
    proof (cases "pos + unat r + B \<le> length buf")
      case fits: False
      then show ?thesis using b rt n ext2_read_block_eq [OF vol, of b buf "pos + unat r"]
        by (simp add: B_def [symmetric])
    next
      case True
      let ?buf = "take (pos + unat r) buf @ block_bytes io priv b @ drop (pos + unat r + B) buf"
      have lb: "length ?buf = length buf" using B True by simp
      have step: "ext2_read_direct io priv t (b # bs) r buf pos = ext2_read_direct io priv t bs (r + chunk) ?buf pos"
        using b rt True ext2_read_block_eq [OF vol, of b buf "pos + unat r"]
        by (simp add: B_def [symmetric] chunk_def [symmetric] Let_def)
      show ?thesis
      proof (cases "k = 0")
        case True
        have "\<not> B < unat t - unat r" using True B by (auto simp: k_def blocks_for_step)
        then have "r + chunk = t" using ch r' False by (intro unat_eqI) simp
        then have "ext2_read_direct io priv t bs (r + chunk) ?buf pos = Some (0, ?buf)"
          by (cases bs) simp_all
        then show ?thesis using step n True \<open>pos + unat r + B \<le> length buf\<close> by simp
      next
        case nz: False
        have "k = 0" if "unat t - unat r \<le> B"
        proof -
          from that have "unat t - unat r - B = 0" by simp
          then show ?thesis using B(1) by (simp only: k_def blocks_for_0)
        qed
        then have c: "unat chunk = B" using nz ch by (cases "unat t - unat r \<le> B") simp_all
        have IH: "ext2_read_direct io priv t bs (r + chunk) ?buf pos =
          (if pos + unat (r + chunk) + k * B \<le> length ?buf
           then Some (0, take (pos + unat (r + chunk)) ?buf @ concat (map (block_bytes io priv) (take k bs)) @
             drop (pos + unat (r + chunk) + k * B) ?buf) else None)"
        proof (rule Cons.IH)
          show "unat (r + chunk) \<le> unat t" using r' ch False by simp
          show "k = blocks_for B (unat t - unat (r + chunk))" using r' c by (simp add: k_def)
          show "pos + unat (r + chunk) \<le> length ?buf" using lb r' c \<open>pos + unat r + B \<le> length buf\<close> by simp
        qed (rule b)
        have k': "pos + unat (r + chunk) + k * B = pos + unat r + n * B" using r' c n by simp
        have tk: "take (pos + unat (r + chunk)) ?buf = take (pos + unat r) buf @ block_bytes io priv b"
          using r' c B \<open>pos + unat r + B \<le> length buf\<close> by simp
        have dr: "drop (pos + unat r + n * B) ?buf = drop (pos + unat r + n * B) buf"
          using B n \<open>pos + unat r + B \<le> length buf\<close> by (simp add: ac_simps)
        have cc: "concat (map (block_bytes io priv) (take n (b # bs))) =
            block_bytes io priv b @ concat (map (block_bytes io priv) (take k bs))" by (simp add: n)
        show ?thesis by (simp only: step IH lb k' tk dr cc append_assoc)
      qed
    qed
  qed
qed

section \<open>The read loop of the driver interface\<close>

lemma ext2_read_file_eq:
  assumes vol: "ext2_volume io priv" and ino: "ext2_read_inode io km priv inode_num = Some (Some inode)"
    and n: "n = blocks_for (unat (e_block_size priv)) (min (unat (i_size inode)) (unat max_size))"
    and ptrs: "n \<le> length (takeWhile (\<lambda>b. b \<noteq> 0) (take 12 (i_block inode)))" and pos: "pos \<le> length buf"
  shows "ext2_read_file io km priv inode_num buf pos max_size =
    (if pos + n * unat (e_block_size priv) \<le> length buf
     then Some (0, take pos buf @ concat (map (block_bytes io priv) (take n (take 12 (i_block inode)))) @
            drop (pos + n * unat (e_block_size priv)) buf)
     else None)"
proof -
  define t where "t = (if i_size inode < max_size then i_size inode else max_size)"
  have "unat t = min (unat (i_size inode)) (unat max_size)" by (auto simp: t_def word_less_nat_alt)
  then show ?thesis
    using ext2_read_direct_eq [OF vol, of 0 t n "take 12 (i_block inode)" pos buf] n ptrs pos ino
    by (simp add: ext2_read_file_def t_def [symmetric] Let_def)
qed

lemma ext2_fs_read_loop_repeats:
  assumes vol: "ext2_volume io priv" and ino: "ext2_read_inode io km priv inode_num = Some (Some inode)"
    and size: "unat (e_block_size priv) \<le> unat (i_size inode)" and first: "i_block inode = b # bs" "b \<noteq> 0"
  defines "B \<equiv> unat (e_block_size priv)"
  shows "unat remaining = k * B \<Longrightarrow> unat pos + k * B < 2 ^ 31 \<Longrightarrow> unat pos + k * B \<le> length buf \<Longrightarrow>
    ext2_fs_read_loop io km priv inode_num buf pos remaining =
      Some (int (unat pos + k * B), take (unat pos) buf @ concat (replicate k (block_bytes io priv b)) @
        drop (unat pos + k * B) buf)"
proof (induction k arbitrary: remaining pos buf)
  case 0
  then have "remaining = 0" by (simp add: unat_eq_zero)
  then show ?case using 0 by (subst ext2_fs_read_loop.simps) (simp add: sint_u32_small)
next
  case (Suc k)
  have B: "0 < B" "length (block_bytes io priv b) = B" using ext2_volumeD [OF vol] by (simp_all add: B_def)
  have le: "e_block_size priv \<le> remaining" using Suc.prems(1) by (simp add: word_le_nat_alt B_def)
  then have to: "(if e_block_size priv < remaining then e_block_size priv else remaining) = e_block_size priv" by auto
  have "blocks_for B B = 1" using blocks_for_mult [OF B(1), of 1] by simp
  then have one: "1 = blocks_for (unat (e_block_size priv)) (min (unat (i_size inode)) (unat (e_block_size priv)))"
    using size by (simp add: B_def)
  let ?buf = "take (unat pos) buf @ block_bytes io priv b @ drop (unat pos + B) buf"
  have fit: "unat pos + B \<le> length buf" using Suc.prems(3) by simp
  have rd: "ext2_read_file io km priv inode_num buf (unat pos) (e_block_size priv) = Some (0, ?buf)"
    using ext2_read_file_eq [OF vol ino one, of "unat pos" buf] first fit by (simp add: B_def [symmetric])
  have rem: "unat (remaining - e_block_size priv) = k * B"
    using Suc.prems(1) unat_sub_small [of "e_block_size priv" remaining] by (simp add: B_def)
  have pos': "unat (pos + e_block_size priv) = unat pos + B"
    using Suc.prems(2) unat_add_small [of pos "e_block_size priv"] by (simp add: B_def)
  have "remaining \<noteq> 0" using Suc.prems(1) B(1) by auto
  then have "ext2_fs_read_loop io km priv inode_num buf pos remaining =
      ext2_fs_read_loop io km priv inode_num ?buf (pos + e_block_size priv) (remaining - e_block_size priv)"
    using rd to by (subst ext2_fs_read_loop.simps) (simp add: Let_def word_neq_0_conv)
  also have "\<dots> = Some (int (unat pos + B + k * B), take (unat pos + B) ?buf @
      concat (replicate k (block_bytes io priv b)) @ drop (unat pos + B + k * B) ?buf)"
    using Suc.IH [OF rem, of "pos + e_block_size priv" ?buf] Suc.prems pos' fit B by simp
  also have "take (unat pos + B) ?buf = take (unat pos) buf @ block_bytes io priv b" using fit B by simp
  also have "drop (unat pos + B + k * B) ?buf = drop (unat pos + B + k * B) buf" using fit B by (simp add: ac_simps)
  finally show ?case by (simp add: ac_simps)
qed

section \<open>Directory blocks\<close>

text \<open>A directory entry and its bytes.\<close>

record ext2_entry =
  x_inode :: u32
  x_type :: u8
  x_name :: "u8 list"
  x_pad :: "u8 list"

definition x_len :: "ext2_entry \<Rightarrow> nat" where
  "x_len e = 8 + length (x_name e) + length (x_pad e)"

definition dev_le16 :: "u16 \<Rightarrow> u8 list" where
  "dev_le16 w = [byte_at 0 w, byte_at 8 w]"

definition dev_le32 :: "u32 \<Rightarrow> u8 list" where
  "dev_le32 w = [byte_at 0 w, byte_at 8 w, byte_at 16 w, byte_at 24 w]"

definition entry_bytes :: "ext2_entry \<Rightarrow> u8 list" where
  "entry_bytes e = dev_le32 (x_inode e) @ dev_le16 (of_nat (x_len e)) @
     [of_nat (length (x_name e)), x_type e] @ x_name e @ x_pad e"

definition entry_ok :: "ext2_entry \<Rightarrow> bool" where
  "entry_ok e \<longleftrightarrow> length (x_name e) < 256 \<and> 0 \<notin> set (x_name e) \<and> x_len e < 65536"

definition dir_bytes :: "ext2_entry list \<Rightarrow> u8 list" where
  "dir_bytes es = concat (map entry_bytes es)"

lemma length_entry_bytes [simp]: "length (entry_bytes e) = x_len e"
  by (simp add: entry_bytes_def dev_le16_def dev_le32_def x_len_def)

lemma le16_of_bytes: "ucast (byte_at 0 w) OR push_bit 8 (ucast (byte_at 8 w)) = (w :: u16)"
  by (rule bit_word_eqI) (auto simp: bit_or_iff bit_push_bit_iff bit_ucast_iff bit_byte_at)

lemma entry_fields:
  assumes "entry_ok e" and d_def: "d = pre @ entry_bytes e @ post"
  shows "le32_at d (length pre) = x_inode e" "unat (le16_at d (length pre + 4)) = x_len e"
    "unat (d ! (length pre + 6)) = length (x_name e)" "d ! (length pre + 7) = x_type e"
    "take (length (x_name e)) (drop (length pre + 8) d) = x_name e"
    "dir_name d (length pre) (length (x_name e)) = x_name e"
proof -
  have nth: "d ! (length pre + i) = (entry_bytes e @ post) ! i" for i by (simp add: d_def nth_append)
  show "le32_at d (length pre) = x_inode e"
    using nth [of 0] nth [of 1] nth [of 2] nth [of 3]
    by (simp add: le32_at_def entry_bytes_def dev_le32_def be32_of_bytes)
  have "le16_at d (length pre + 4) = of_nat (x_len e)"
    using nth [of 4] nth [of 5]
    by (simp add: le16_at_def entry_bytes_def dev_le32_def dev_le16_def le16_of_bytes add.commute [of _ "length pre"])
  then show "unat (le16_at d (length pre + 4)) = x_len e"
    using assms(1) by (simp add: entry_ok_def unat_of_nat_small)
  show "unat (d ! (length pre + 6)) = length (x_name e)"
    using nth [of 6] assms(1) by (simp add: entry_bytes_def dev_le32_def dev_le16_def entry_ok_def unat_of_nat_small)
  show "d ! (length pre + 7) = x_type e"
    using nth [of 7] by (simp add: entry_bytes_def dev_le32_def dev_le16_def)
  have "drop (length pre + 8) d = x_name e @ x_pad e @ post"
    by (simp add: d_def entry_bytes_def dev_le32_def dev_le16_def)
  then show nm: "take (length (x_name e)) (drop (length pre + 8) d) = x_name e" by simp
  have "\<forall>c \<in> set (x_name e). c \<noteq> 0" using assms(1) by (auto simp: entry_ok_def)
  then show "dir_name d (length pre) (length (x_name e)) = x_name e"
    unfolding dir_name_def nm by simp
qed

definition find_entry :: "ext2_entry list \<Rightarrow> u8 list \<Rightarrow> u32 option" where
  "find_entry es name = map_option x_inode (find (\<lambda>e. x_inode e \<noteq> 0 \<and> x_name e = name) es)"

lemma ext2_find_loop_entries:
  assumes len: "length pre + length (dir_bytes es) = unat bs" "unat bs < 2 ^ 31"
    and ok: "\<forall>e \<in> set es. entry_ok e"
  shows "ext2_find_loop (pre @ dir_bytes es) bs name (of_nat (length pre)) = Some (find_entry es name)"
  using len(1) ok
proof (induction es arbitrary: pre)
  case Nil
  then have "(of_nat (length pre) :: u32) = bs" by (simp add: dir_bytes_def)
  then show ?case by (subst ext2_find_loop.simps) (simp add: find_entry_def)
next
  case (Cons e es)
  have d: "pre @ dir_bytes (e # es) = pre @ entry_bytes e @ dir_bytes es" by (simp add: dir_bytes_def)
  have e: "entry_ok e" using Cons.prems(2) by simp
  note f = entry_fields [OF e d]
  have lt: "length pre < unat bs" using Cons.prems(1) by (simp add: dir_bytes_def x_len_def)
  then have u: "unat (of_nat (length pre) :: u32) = length pre"
    using len(2) by (intro unat_of_nat_small) simp
  have lt': "(of_nat (length pre) :: u32) < bs" using lt u by (simp add: word_less_nat_alt)
  have rl: "ucast (le16_at (pre @ dir_bytes (e # es)) (length pre + 4)) = (of_nat (x_len e) :: u32)"
    using f(2) by (simp add: ucast_of_nat_unat)
  have nz: "le16_at (pre @ dir_bytes (e # es)) (length pre + 4) \<noteq> 0"
    using f(2) by (auto simp: x_len_def)
  have "ext2_find_loop (pre @ dir_bytes (e # es)) bs name (of_nat (length pre)) =
      (if x_inode e \<noteq> 0 \<and> x_name e = name then Some (Some (x_inode e))
       else ext2_find_loop (pre @ dir_bytes (e # es)) bs name (of_nat (length pre) + of_nat (x_len e)))"
  proof -
    have "length pre + 8 + length (x_name e) \<le> length (pre @ dir_bytes (e # es))"
      by (simp add: dir_bytes_def x_len_def)
    then show ?thesis
      using lt' f u rl nz by (subst ext2_find_loop.simps) (simp add: Let_def del: length_append)
  qed
  also have "ext2_find_loop (pre @ dir_bytes (e # es)) bs name (of_nat (length pre) + of_nat (x_len e)) =
      Some (find_entry es name)"
    using Cons.IH [of "pre @ entry_bytes e"] Cons.prems by (simp add: dir_bytes_def add.assoc)
  finally show ?case by (simp add: find_entry_def)
qed

section \<open>Unused entries of length zero\<close>

lemma ext2_list_block_diverges:
  assumes "unat off + 8 \<le> length block" and "off < bs" and "cnt < max_entries"
    and "le32_at block (unat off) = 0" and "le16_at block (unat off + 4) = 0"
  shows "ext2_list_block block bs max_entries off es cnt = None"
proof (rule ccontr)
  assume "ext2_list_block block bs max_entries off es cnt \<noteq> None"
  then obtain r where r: "ext2_list_block block bs max_entries off es cnt = Some r" by auto
  define P where "P = (\<lambda>(b :: u8 list) (s :: u32) (m :: u32) (o' :: u32) (e :: fs_dirent list ptr) (c :: u32) (r :: fs_dirent list ptr \<times> u32).
    b = block \<and> s = bs \<and> m = max_entries \<and> o' = off \<and> e = es \<and> c = cnt \<longrightarrow> False)"
  have "P block bs max_entries off es cnt r"
  proof (rule ext2_list_block.raw_induct [OF _ r, of P], goal_cases)
    case (1 listb b s m o' e c r)
    show ?case
    proof (unfold P_def, intro impI, elim conjE)
      assume eqs: "b = block" "s = bs" "m = max_entries" "o' = off" "e = es" "c = cnt"
      have "listb block bs max_entries off es cnt = Some r"
        using 1(2) eqs assms by (simp add: Let_def)
      from 1(1) [OF this] show False by (simp add: P_def)
    qed
  qed
  then show False by (simp add: P_def)
qed

section \<open>Group descriptors\<close>

lemma blocks_for_covers: "0 < B \<Longrightarrow> \<not> B dvd n \<Longrightarrow> n < blocks_for B n * B"
proof -
  assume B: "0 < B" and nd: "\<not> B dvd n"
  define q r where "q = n div B" and "r = n mod B"
  have n: "n = q * B + r" unfolding q_def r_def by (rule div_mult_mod_eq [symmetric])
  have r: "0 < r" "r < B" using nd B by (simp_all add: r_def dvd_eq_mod_eq_0)
  have e: "n + B - 1 = (r - 1) + (q + 1) * B" unfolding n using r by (simp add: algebra_simps)
  have "(n + B - 1) div B = (r - 1) div B + (q + 1)" unfolding e using B by (subst div_mult_self1) simp_all
  then have "blocks_for B n = q + 1" using r by (simp add: blocks_for_def)
  then show ?thesis using n r by simp
qed

section \<open>A sample volume\<close>

text \<open>Blocks of 1024 bytes: the inode table in block 5, the root directory in block 6, and a file
  \<open>k\<close> of two blocks in blocks 7 and 8.\<close>

definition sample_inode_bytes :: "u16 \<Rightarrow> u32 \<Rightarrow> u32 list \<Rightarrow> u8 list" where
  "sample_inode_bytes mode n ptrs =
     dev_le16 mode @ [0, 0] @ dev_le32 n @ replicate 32 0 @ concat (map dev_le32 ptrs) @
     replicate (88 - 4 * length ptrs) 0"

definition sample_dir :: "ext2_entry list" where
  "sample_dir = [\<lparr>x_inode = 3, x_type = 1, x_name = [107], x_pad = replicate 1015 0\<rparr>]"

definition sample_io :: disk_io where
  "sample_io lba n =
     (0, if lba = 10 then replicate 128 0 @ sample_inode_bytes 0x4000 1024 [6] @
             sample_inode_bytes 0x8000 2048 [7, 8] @ replicate 640 0
         else if lba = 12 then dir_bytes sample_dir
         else if lba = 14 then replicate 1024 65
         else replicate 1024 66)"

definition sample_ext2 :: ext2_private where
  "sample_ext2 = (ext2_empty 0)\<lparr>e_block_size := 1024, e_inode_size := 128, e_inodes_per_group := 8,
     e_group_count := 1, e_gd := replicate 8 0 @ [5, 0, 0, 0] @ replicate 20 0\<rparr>"

definition sample_km :: kmalloc where
  "sample_km n = Some (replicate (unat n) 0)"

lemma sample_volume: "ext2_volume sample_io sample_ext2"
  by (simp add: ext2_volume_def block_bytes_def sample_io_def sample_inode_bytes_def sample_ext2_def
      sample_dir_def dir_bytes_def dev_le16_def dev_le32_def x_len_def)

definition sample_inode3 :: ext2_inode where
  "sample_inode3 = \<lparr>i_mode = 0x8000, i_uid = 0, i_size = 2048, i_atime = 0, i_ctime = 0, i_mtime = 0, i_gid = 0,
     i_links_count = 0, i_block = [7, 8] @ replicate 13 0\<rparr>"

definition sample_inode2 :: ext2_inode where
  "sample_inode2 = \<lparr>i_mode = 0x4000, i_uid = 0, i_size = 1024, i_atime = 0, i_ctime = 0, i_mtime = 0, i_gid = 0,
     i_links_count = 0, i_block = [6] @ replicate 14 0\<rparr>"

lemma sample_inodes:
  "ext2_read_inode sample_io sample_km sample_ext2 3 = Some (Some sample_inode3)"
  "ext2_read_inode sample_io sample_km sample_ext2 2 = Some (Some sample_inode2)"
  by code_simp+

section \<open>Looking names up\<close>

lemma ext2_find_file_entries:
  assumes "ext2_volume io priv" and "ext2_read_inode io km priv 2 = Some (Some root)"
    and "block_bytes io priv (i_block root ! 0) = dir_bytes es" and "\<forall>e \<in> set es. entry_ok e"
    and "unat (e_block_size priv) < 2 ^ 31" and "length dir = unat (e_block_size priv)"
  shows "ext2_find_file io km priv dir name = Some (find_entry es name)"
proof -
  have "length (dir_bytes es) = unat (e_block_size priv)"
    using ext2_volumeD(1) [OF assms(1), of "i_block root ! 0"] assms(3) by simp
  then show ?thesis
    using ext2_find_loop_entries [of "[]" es "e_block_size priv" name] assms ext2_read_block_eq [OF assms(1)]
    by (simp add: ext2_find_file_def)
qed

lemma sample_dir_block:
  "block_bytes sample_io sample_ext2 (i_block sample_inode2 ! 0) = dir_bytes sample_dir"
  by (simp add: block_bytes_def sample_inode2_def sample_io_def sample_ext2_def ext2_empty_def)

lemma sample_find: "ext2_find_file sample_io sample_km sample_ext2 (replicate 1024 9) [107] = Some (Some 3)"
  using ext2_find_file_entries [OF sample_volume sample_inodes(2) sample_dir_block, of "replicate 1024 9" "[107]"]
  by (simp add: sample_ext2_def find_entry_def sample_dir_def entry_ok_def x_len_def)

section \<open>Properties\<close>

text \<open>Looking a name up in the root directory of a volume returns the inode number of the first used
  entry with that name, and an error exactly when the first directory block has none; the walk over the
  block ends and stays inside it.\<close>

lemma ext2_find_file_first_entry:
  assumes "ext2_volume io priv" and "ext2_read_inode io km priv 2 = Some (Some root)"
    and "block_bytes io priv (i_block root ! 0) = dir_bytes es" and "\<forall>e \<in> set es. entry_ok e"
    and "unat (e_block_size priv) < 2 ^ 31" and "length dir = unat (e_block_size priv)"
  shows "ext2_find_file io km priv dir name = Some (find_entry es name)"
  by (rule ext2_find_file_entries [OF assms])

text \<open>C30: \<open>ext2_read_file\<close> copies whole blocks: when the leading direct pointers cover the bytes wanted,
  it stores that many blocks of the file at the position given, and if the buffer does not hold the last
  block in full the read runs past its end, even when the bytes asked for would fit.\<close>

theorem ext2_read_file_whole_blocks:
  assumes "ext2_volume io priv" and "ext2_read_inode io km priv inode_num = Some (Some inode)"
    and "n = blocks_for (unat (e_block_size priv)) (min (unat (i_size inode)) (unat max_size))"
    and "n \<le> length (takeWhile (\<lambda>b. b \<noteq> 0) (take 12 (i_block inode)))" and "pos \<le> length buf"
  shows "ext2_read_file io km priv inode_num buf pos max_size =
    (if pos + n * unat (e_block_size priv) \<le> length buf
     then Some (0, take pos buf @ concat (map (block_bytes io priv) (take n (take 12 (i_block inode)))) @
            drop (pos + n * unat (e_block_size priv)) buf)
     else None)"
  by (rule ext2_read_file_eq [OF assms])

theorem ext2_read_file_whole_blocks_witness:
  "ext2_read_file sample_io sample_km sample_ext2 3 (replicate 1500 0) 0 1500 = None \<and>
   ext2_read_file sample_io sample_km sample_ext2 3 (replicate 2048 0) 0 1500 =
     Some (0, replicate 1024 65 @ replicate 1024 66)"
proof -
  have s: "e_block_size sample_ext2 = 1024" "e_lba sample_ext2 = 0" by (simp_all add: sample_ext2_def ext2_empty_def)
  have n: "2 = blocks_for (unat (e_block_size sample_ext2)) (min (unat (i_size sample_inode3)) (unat (1500 :: u32)))"
    by (simp add: s sample_inode3_def blocks_for_def)
  have p: "2 \<le> length (takeWhile (\<lambda>b. b \<noteq> 0) (take 12 (i_block sample_inode3)))"
    by (simp add: sample_inode3_def)
  note * = ext2_read_file_whole_blocks [OF sample_volume sample_inodes(1) n p, of 0]
  have d: "concat (map (block_bytes sample_io sample_ext2) (take 2 (i_block sample_inode3))) =
      replicate 1024 65 @ replicate 1024 66"
    by (simp add: sample_inode3_def block_bytes_def sample_io_def s)
  show ?thesis using * [of "replicate 1500 0"] * [of "replicate 2048 0"] by (simp add: s d)
qed

text \<open>The read operation that the driver registers ignores the offset and, for a request of \<open>k\<close> blocks
  of a file of at least one block, stores the first block \<open>k\<close> times instead of the first \<open>k\<close> blocks.\<close>

lemma ext2_fs_read_repeats_first_block:
  assumes "ext2_volume io priv" and "ext2_find_file io km priv dir path = Some (Some inode_num)"
    and "ext2_read_inode io km priv inode_num = Some (Some inode)"
    and "unat (e_block_size priv) \<le> unat (i_size inode)" and "i_block inode = b # bs" and "b \<noteq> 0"
    and "unat n = k * unat (e_block_size priv)" and "unat n < 2 ^ 31" and "unat n \<le> length buf"
  shows "ext2_fs_read_file io km priv dir path buf n offset =
    Some (int (unat n), concat (replicate k (block_bytes io priv b)) @ drop (unat n) buf)"
  using ext2_fs_read_loop_repeats [OF assms(1,3-6), of n k 0 buf] assms
  by (simp add: ext2_fs_read_file_def)

text \<open>With an allocator that returns exactly the bytes asked for, reading the group descriptors runs
  past the end of the buffer whenever their size is not a multiple of the block size.\<close>

lemma ext2_group_descriptors_overflow:
  assumes "\<And>m g. km m = Some g \<Longrightarrow> length g = unat m" and "\<And>l m. length (snd (io l m)) = 512 * unat m"
    and "e_blocks_per_group priv \<noteq> 0" and "e_block_size priv \<noteq> 0" and "512 dvd unat (e_block_size priv)"
    and "gd_size = (s_blocks_count (e_sb priv) + e_blocks_per_group priv - 1) div e_blocks_per_group priv * 32"
    and "km gd_size = Some gd" and "\<not> unat (e_block_size priv) dvd unat gd_size"
    and "unat gd_size + unat (e_block_size priv) < 2 ^ 31"
  shows "ext2_read_group_descriptors io km priv = None"
proof -
  let ?B = "unat (e_block_size priv)"
  have B: "0 < ?B" using assms(4) by (simp add: unat_gt_0)
  define c where "c = (gd_size + e_block_size priv - 1) div e_block_size priv"
  have "unat (gd_size + e_block_size priv) = unat gd_size + ?B"
    using assms(9) by (intro unat_add_small) simp
  then have "unat (gd_size + e_block_size priv - 1) = unat gd_size + ?B - 1"
    using B unat_sub_small [of 1 "gd_size + e_block_size priv"] by simp
  then have c: "unat c = blocks_for ?B (unat gd_size)" by (simp add: c_def unat_div blocks_for_def)
  have "unat c * ?B \<le> unat gd_size + ?B - 1" unfolding c blocks_for_def by (simp add: div_times_less_eq_dividend)
  then have cB: "unat c * ?B < 2 ^ 31" using assms(9) by simp
  have s: "unat (e_block_size priv div 512) * 512 = ?B" using assms(5) by (simp add: unat_div)
  then have "unat (e_block_size priv div 512) \<le> ?B" by linarith
  then have "unat c * unat (e_block_size priv div 512) \<le> unat c * ?B" by (rule mult_le_mono2)
  from le_less_trans [OF this cB] have "unat c * unat (e_block_size priv div 512) < 2 ^ 32" by simp
  then have u: "unat (c * (e_block_size priv div 512)) = unat c * unat (e_block_size priv div 512)"
    by (simp add: unat_word_ariths)
  have "unat gd_size < unat c * ?B" using blocks_for_covers [OF B assms(8)] c by simp
  also have "\<dots> = 512 * unat (c * (e_block_size priv div 512))" using s u by simp
  finally have "length gd < 512 * unat (c * (e_block_size priv div 512))" using assms(1) [OF assms(7)] by simp
  then show ?thesis using assms(2-4,7)
    by (simp add: ext2_read_group_descriptors_def assms(6) [symmetric] c_def [symmetric] Let_def
        ext2_read_blocks_def disk_read_def memcpy_def)
qed

end
