(* ===== verification/Boot_Secure.thy ===== *)
theory Boot_Secure
  imports BH_Prelude
begin

text \<open>
  Loading and verifying a kernel under UEFI, \<^verbatim>\<open>boot/secure.c\<close>. The firmware and the EDK2 libraries are the
  record \<open>efi_platform\<close>: hashing, signature verification, the variable services, the file reader and the
  image services. An EFI status is a 64-bit word whose top bit marks an error.
\<close>

section \<open>The platform\<close>

type_synonym efi_status = u64

definition EFI_ERROR :: "efi_status \<Rightarrow> bool" where
  "EFI_ERROR s \<longleftrightarrow> bit s 63"

definition EFI_SUCCESS :: efi_status where
  "EFI_SUCCESS = 0"

definition EFI_SECURITY_VIOLATION :: efi_status where
  "EFI_SECURITY_VIOLATION = push_bit 63 1 OR 26"

text \<open>\<open>get_variable\<close> takes the name and the size of the buffer and yields the status, the size it stores and
  the bytes it writes; \<open>read_file\<close> yields the status, the buffer and the size it stores.\<close>

record efi_platform =
  sha256_hash_all :: "u8 list \<Rightarrow> u8 list option"
  rsa_pkcs1_verify :: "u8 list \<Rightarrow> u8 list \<Rightarrow> u8 list \<Rightarrow> bool"
  get_variable :: "string \<Rightarrow> u64 \<Rightarrow> efi_status \<times> u64 \<times> u8 list"
  read_file :: "string \<Rightarrow> efi_status \<times> u8 list \<times> u64"
  load_image :: "u8 list \<Rightarrow> u64 \<Rightarrow> efi_status"
  has_loaded_image :: bool
  start_image :: efi_status

section \<open>Verification\<close>

definition VerifyImageSignature :: "efi_platform \<Rightarrow> u8 list \<Rightarrow> u64 \<Rightarrow> u8 list \<Rightarrow> efi_status cmem" where
  "VerifyImageSignature P ImageBuffer ImageSize PublicKey =
     (if ImageSize < 256 then Some EFI_SECURITY_VIOLATION
      else let DataSize = unat (ImageSize - 256) in
        if length ImageBuffer < DataSize + 256 then None
        else case sha256_hash_all P (take DataSize ImageBuffer) of
               None \<Rightarrow> Some EFI_SECURITY_VIOLATION
             | Some Hash \<Rightarrow>
                 if \<not> rsa_pkcs1_verify P PublicKey Hash (take 256 (drop DataSize ImageBuffer))
                 then Some EFI_SECURITY_VIOLATION
                 else Some EFI_SUCCESS)"

definition IsSecureBootEnabled :: "efi_platform \<Rightarrow> bool" where
  "IsSecureBootEnabled P =
     (let (Status, DataSize, bytes) = get_variable P ''SecureBoot'' 1;
          SecureBoot = (case bytes of [] \<Rightarrow> 0 | b # bs \<Rightarrow> b)
      in \<not> EFI_ERROR Status \<and> SecureBoot = 1)"

text \<open>What the caller sees: the status, the image with its size when the output parameters are set, and
  whether the buffer has been freed. \<open>stk\<close> is the array for the key before the call.\<close>

record kernel_result =
  kr_status :: efi_status
  kr_image :: "(u8 list \<times> u64) option"
  kr_freed :: bool

definition LoadAndVerifyKernel :: "efi_platform \<Rightarrow> u8 list \<Rightarrow> string \<Rightarrow> kernel_result cmem" where
  "LoadAndVerifyKernel P stk FileName =
     (let (Status, Buffer, Size) = read_file P FileName in
      if EFI_ERROR Status then Some \<lparr>kr_status = Status, kr_image = None, kr_freed = False\<rparr>
      else if IsSecureBootEnabled P then
        let (Status, PublicKeySize, bytes) = get_variable P ''PK'' 256 in
        if EFI_ERROR Status then Some \<lparr>kr_status = Status, kr_image = None, kr_freed = True\<rparr>
        else case memcpy stk 0 bytes 0 (length bytes) of
          None \<Rightarrow> None
        | Some PublicKey \<Rightarrow>
            (case VerifyImageSignature P Buffer Size (take (unat PublicKeySize) PublicKey) of
               None \<Rightarrow> None
             | Some Status \<Rightarrow>
                 if EFI_ERROR Status then Some \<lparr>kr_status = Status, kr_image = None, kr_freed = True\<rparr>
                 else Some \<lparr>kr_status = EFI_SUCCESS, kr_image = Some (Buffer, Size), kr_freed = False\<rparr>)
      else Some \<lparr>kr_status = EFI_SUCCESS, kr_image = Some (Buffer, Size), kr_freed = False\<rparr>)"

section \<open>Execution\<close>

text \<open>The firmware services a call uses, in order. The length of the options counts two bytes a character.\<close>

datatype image_event = Load_Image "u8 list" u64 | Set_Options string u64 | Start_Image | Unload_Image

definition ExecuteKernel :: "efi_platform \<Rightarrow> u8 list \<Rightarrow> u64 \<Rightarrow> string ptr \<Rightarrow> efi_status \<times> image_event list" where
  "ExecuteKernel P ImageBuffer ImageSize CmdLine =
     (let Status = load_image P ImageBuffer ImageSize; ev = [Load_Image ImageBuffer ImageSize] in
      if EFI_ERROR Status then (Status, ev)
      else let opts = (case CmdLine of
                         None \<Rightarrow> []
                       | Some c \<Rightarrow> if has_loaded_image P then [Set_Options c ((of_nat (length c) + 1) * 2)] else []);
               Status = start_image P
           in (Status, ev @ opts @ [Start_Image] @ (if EFI_ERROR Status then [Unload_Image] else [])))"

section \<open>Lemmas\<close>

lemma EFI_status_simps [simp]: "\<not> EFI_ERROR EFI_SUCCESS" "EFI_ERROR EFI_SECURITY_VIOLATION"
  by (simp_all add: EFI_ERROR_def EFI_SUCCESS_def EFI_SECURITY_VIOLATION_def bit_or_iff bit_push_bit_iff)

text \<open>What a valid signature means: the last 256 bytes of the image are accepted for the digest of the
  rest.\<close>

definition signed_by :: "efi_platform \<Rightarrow> u8 list \<Rightarrow> u8 list \<Rightarrow> u64 \<Rightarrow> bool" where
  "signed_by P key img n \<longleftrightarrow> 256 \<le> unat n \<and>
     (\<exists>h. sha256_hash_all P (take (unat n - 256) img) = Some h \<and>
          rsa_pkcs1_verify P key h (take 256 (drop (unat n - 256) img)))"

lemma VerifyImageSignature_eq:
  assumes "unat n \<le> length img"
  shows "VerifyImageSignature P img n key =
    Some (if signed_by P key img n then EFI_SUCCESS else EFI_SECURITY_VIOLATION)"
proof (cases "n < 256")
  case True
  then show ?thesis by (simp add: VerifyImageSignature_def signed_by_def word_less_nat_alt)
next
  case False
  then have "unat (n - 256) = unat n - 256" "256 \<le> unat n"
    by (simp_all add: unat_sub_small word_less_nat_alt)
  then show ?thesis using False assms
    by (simp add: VerifyImageSignature_def signed_by_def Let_def split: option.split)
qed

text \<open>A platform on which the digest is the first 32 bytes and a signature repeats the digest.\<close>

definition sample_platform :: efi_platform where
  "sample_platform =
     \<lparr>sha256_hash_all = (\<lambda>d. Some (take 32 d)), rsa_pkcs1_verify = (\<lambda>k h s. take 32 s = h),
      get_variable = (\<lambda>n m. (0, 1, [1])), read_file = (\<lambda>f. (0, replicate 512 7, 512)),
      load_image = (\<lambda>b n. 0), has_loaded_image = True, start_image = 0\<rparr>"

section \<open>Properties\<close>

text \<open>C1: After the file has been read, \<open>LoadAndVerifyKernel\<close> always returns, and with secure boot enabled it
  hands out the image only if its last 256 bytes are accepted as a signature of the digest of the rest under
  the key of the variable \<open>PK\<close>; otherwise it reports the error, frees the buffer and leaves the output
  parameters alone. When the state of secure boot cannot be read, or is off, the image is handed out
  unchecked.\<close>

theorem secure_boot_hands_out_signed_images:
  assumes "read_file P f = (s, img, n)" and "\<not> EFI_ERROR s" and "unat n \<le> length img"
    and "get_variable P ''PK'' 256 = (s', sz, bytes)" and "length bytes \<le> length stk"
  shows "LoadAndVerifyKernel P stk f = Some
    (if \<not> IsSecureBootEnabled P then \<lparr>kr_status = EFI_SUCCESS, kr_image = Some (img, n), kr_freed = False\<rparr>
     else if EFI_ERROR s' then \<lparr>kr_status = s', kr_image = None, kr_freed = True\<rparr>
     else if signed_by P (take (unat sz) (bytes @ drop (length bytes) stk)) img n
     then \<lparr>kr_status = EFI_SUCCESS, kr_image = Some (img, n), kr_freed = False\<rparr>
     else \<lparr>kr_status = EFI_SECURITY_VIOLATION, kr_image = None, kr_freed = True\<rparr>)"
  using assms by (simp add: LoadAndVerifyKernel_def memcpy_def VerifyImageSignature_eq)

theorem secure_boot_hands_out_signed_images_witness:
  "IsSecureBootEnabled sample_platform \<and>
   LoadAndVerifyKernel sample_platform (replicate 256 0) ''kernel'' =
     Some \<lparr>kr_status = EFI_SUCCESS, kr_image = Some (replicate 512 7, 512), kr_freed = False\<rparr>"
proof -
  have a: "read_file sample_platform ''kernel'' = (0, replicate 512 7, 512)"
      "get_variable sample_platform ''PK'' 256 = (0, 1, [1])" by (simp_all add: sample_platform_def)
  have e: "\<not> EFI_ERROR 0" by (simp add: EFI_ERROR_def)
  have sb: "IsSecureBootEnabled sample_platform"
    by (simp add: IsSecureBootEnabled_def sample_platform_def EFI_ERROR_def)
  have "signed_by sample_platform k (replicate 512 7) 512" for k
    by (simp add: signed_by_def sample_platform_def)
  then show ?thesis
    using secure_boot_hands_out_signed_images [OF a(1) e _ a(2), of "replicate 256 0"] sb e by simp
qed

end
