(* ===== verification/Libb.thy ===== *)
theory Libb
  imports BH_Prelude
begin

text \<open>
  The development library \<^verbatim>\<open>boot/libb/bloodhorn.c\<close>: number formatting and the default console, the system
  table with its dispatching wrappers, initialisation and its reference count, status codes, and the memory
  and string utilities. The console is the list of events written so far; what a boot loader puts into the
  system table is arbitrary functions on it.
\<close>

section \<open>Status codes\<close>

datatype bh_status =
    BH_SUCCESS | BH_PENDING | BH_TIMEOUT
  | BH_ERROR | BH_INVALID_ARGUMENT | BH_INVALID_HANDLE | BH_INVALID_OPERATION | BH_NOT_IMPLEMENTED
  | BH_NOT_SUPPORTED | BH_ACCESS_DENIED | BH_OUT_OF_MEMORY | BH_OUT_OF_RESOURCES | BH_DEVICE_ERROR | BH_IO_ERROR
  | BH_TIMED_OUT | BH_WOULD_BLOCK | BH_ALREADY_EXISTS | BH_NOT_FOUND | BH_BUFFER_TOO_SMALL
  | BH_PATH_NOT_FOUND | BH_PATH_ALREADY_EXISTS | BH_DIRECTORY_NOT_EMPTY | BH_IS_A_DIRECTORY | BH_NOT_A_DIRECTORY
  | BH_READ_ONLY_FILESYSTEM | BH_FILESYSTEM_FULL
  | BH_NETWORK_ERROR | BH_CONNECTION_REFUSED | BH_CONNECTION_RESET | BH_CONNECTION_ABORTED | BH_HOST_UNREACHABLE
  | BH_NETWORK_UNREACHABLE | BH_NETWORK_DOWN
  | BH_PERMISSION_DENIED | BH_AUTH_FAILED | BH_NOT_AUTHORIZED | BH_CERTIFICATE_ERROR
  | BH_HARDWARE_ERROR | BH_DEVICE_NOT_FOUND | BH_DEVICE_BUSY | BH_DEVICE_OFFLINE
  | BH_INTERNAL_ERROR | BH_ASSERTION_FAILED | BH_UNEXPECTED_ERROR | BH_UNKNOWN_ERROR

fun bh_status_to_string :: "bh_status \<Rightarrow> string" where
  "bh_status_to_string BH_SUCCESS = ''Success''"
| "bh_status_to_string BH_PENDING = ''Operation pending''"
| "bh_status_to_string BH_TIMEOUT = ''Operation timed out''"
| "bh_status_to_string BH_ERROR = ''Generic error''"
| "bh_status_to_string BH_INVALID_ARGUMENT = ''Invalid argument''"
| "bh_status_to_string BH_INVALID_HANDLE = ''Invalid handle''"
| "bh_status_to_string BH_INVALID_OPERATION = ''Invalid operation''"
| "bh_status_to_string BH_NOT_IMPLEMENTED = ''Not implemented''"
| "bh_status_to_string BH_NOT_SUPPORTED = ''Not supported''"
| "bh_status_to_string BH_ACCESS_DENIED = ''Access denied''"
| "bh_status_to_string BH_OUT_OF_MEMORY = ''Out of memory''"
| "bh_status_to_string BH_OUT_OF_RESOURCES = ''Out of resources''"
| "bh_status_to_string BH_DEVICE_ERROR = ''Device error''"
| "bh_status_to_string BH_IO_ERROR = ''I/O error''"
| "bh_status_to_string BH_TIMED_OUT = ''Timed out''"
| "bh_status_to_string BH_WOULD_BLOCK = ''Would block''"
| "bh_status_to_string BH_ALREADY_EXISTS = ''Already exists''"
| "bh_status_to_string BH_NOT_FOUND = ''Not found''"
| "bh_status_to_string BH_BUFFER_TOO_SMALL = ''Buffer too small''"
| "bh_status_to_string BH_PATH_NOT_FOUND = ''Path not found''"
| "bh_status_to_string BH_PATH_ALREADY_EXISTS = ''Path already exists''"
| "bh_status_to_string BH_DIRECTORY_NOT_EMPTY = ''Directory not empty''"
| "bh_status_to_string BH_IS_A_DIRECTORY = ''Is a directory''"
| "bh_status_to_string BH_NOT_A_DIRECTORY = ''Not a directory''"
| "bh_status_to_string BH_READ_ONLY_FILESYSTEM = ''Read-only filesystem''"
| "bh_status_to_string BH_FILESYSTEM_FULL = ''Filesystem full''"
| "bh_status_to_string BH_NETWORK_ERROR = ''Network error''"
| "bh_status_to_string BH_CONNECTION_REFUSED = ''Connection refused''"
| "bh_status_to_string BH_CONNECTION_RESET = ''Connection reset''"
| "bh_status_to_string BH_CONNECTION_ABORTED = ''Connection aborted''"
| "bh_status_to_string BH_HOST_UNREACHABLE = ''Host unreachable''"
| "bh_status_to_string BH_NETWORK_UNREACHABLE = ''Network unreachable''"
| "bh_status_to_string BH_NETWORK_DOWN = ''Network down''"
| "bh_status_to_string BH_PERMISSION_DENIED = ''Permission denied''"
| "bh_status_to_string BH_AUTH_FAILED = ''Authentication failed''"
| "bh_status_to_string BH_NOT_AUTHORIZED = ''Not authorized''"
| "bh_status_to_string BH_CERTIFICATE_ERROR = ''Certificate error''"
| "bh_status_to_string BH_HARDWARE_ERROR = ''Hardware error''"
| "bh_status_to_string BH_DEVICE_NOT_FOUND = ''Device not found''"
| "bh_status_to_string BH_DEVICE_BUSY = ''Device busy''"
| "bh_status_to_string BH_DEVICE_OFFLINE = ''Device offline''"
| "bh_status_to_string BH_INTERNAL_ERROR = ''Internal error''"
| "bh_status_to_string BH_ASSERTION_FAILED = ''Assertion failed''"
| "bh_status_to_string BH_UNEXPECTED_ERROR = ''Unexpected error''"
| "bh_status_to_string BH_UNKNOWN_ERROR = ''Unknown error''"

section \<open>Number formatting\<close>

text \<open>Division and remainder of C, rounding towards zero, for a positive divisor.\<close>

definition c_div :: "int \<Rightarrow> int \<Rightarrow> int" where
  "c_div a b = sgn a * (\<bar>a\<bar> div b)"

definition c_rem :: "int \<Rightarrow> int \<Rightarrow> int" where
  "c_rem a b = a - b * c_div a b"

definition digit_char :: "int \<Rightarrow> u8" where
  "digit_char d = (if d < 10 then of_int (48 + d) else of_int (97 + d - 10))"

lemma abs_c_div_less:
  assumes "2 \<le> b" and "a \<noteq> 0"
  shows "\<bar>c_div a b\<bar> < \<bar>a\<bar>"
proof -
  have "\<bar>a\<bar> div b < \<bar>a\<bar>" using assms by (intro int_div_less_self) simp_all
  moreover have "0 \<le> \<bar>a\<bar> div b" using assms by (simp add: pos_imp_zdiv_nonneg_iff)
  ultimately show ?thesis using assms(2) by (simp add: c_div_def abs_mult abs_sgn_eq)
qed

text \<open>The digits, the last one first. A base below 2 divides by zero or never ends.\<close>

function bh_itoa_digits :: "int \<Rightarrow> int \<Rightarrow> u8 list cmem" where
  "bh_itoa_digits base tmp_value =
     (if tmp_value = 0 then Some []
      else if base < 2 then None
      else case bh_itoa_digits base (c_div tmp_value base) of
             None \<Rightarrow> None
           | Some ds \<Rightarrow> Some (digit_char (c_rem tmp_value base) # ds))"
  by pat_completeness auto
termination
  by (relation "measure (\<lambda>(base, v). nat \<bar>v\<bar>)") (simp_all add: abs_c_div_less)

declare bh_itoa_digits.simps [simp del]

text \<open>The loop that reverses the characters between two positions.\<close>

function bh_reverse :: "u8 list \<Rightarrow> nat \<Rightarrow> nat \<Rightarrow> u8 list" where
  "bh_reverse str i j = (if i < j then bh_reverse (str[j := str ! i, i := str ! j]) (i + 1) (j - 1) else str)"
  by pat_completeness auto
termination
  by (relation "measure (\<lambda>(str, i, j). j - i)") auto

declare bh_reverse.simps [simp del]

text \<open>The count and the characters before the terminating zero; negating the least \<open>long long\<close>
  overflows.\<close>

definition bh_itoa :: "int \<Rightarrow> int \<Rightarrow> bool \<Rightarrow> (int \<times> u8 list) cmem" where
  "bh_itoa value base is_signed =
     (if value = 0 then Some (1, [48])
      else if is_signed \<and> value = - (2 ^ 63) then None
      else let neg = is_signed \<and> value < 0 in
        case bh_itoa_digits base (if neg then - value else value) of
          None \<Rightarrow> None
        | Some ds \<Rightarrow>
            let str = (if neg then [45] else []) @ ds in
            Some (int (length str),
                  bh_reverse str (if is_signed \<and> str ! 0 = 45 then 1 else 0) (length str - 1)))"

section \<open>The default console\<close>

datatype bh_event = Outb u8 | Int3 | Other nat

type_synonym bh_out = "bh_event list"

definition default_putc :: "u8 \<Rightarrow> bh_out \<Rightarrow> bh_out" where
  "default_putc c w = w @ [Outb c]"

definition default_puts :: "u8 list ptr \<Rightarrow> bh_out \<Rightarrow> bh_out" where
  "default_puts str w =
     (case str of None \<Rightarrow> w | Some s \<Rightarrow> default_putc 10 (fold default_putc s w))"

text \<open>The variable arguments; \<open>buffer\<close> has room for 64 characters.\<close>

datatype bh_arg = Arg_Int u32 | Arg_Ptr u64 | Arg_Str "u8 list ptr"

definition put_number :: "int \<Rightarrow> int \<Rightarrow> bool \<Rightarrow> (u8 \<Rightarrow> u8) \<Rightarrow> bh_out \<Rightarrow> bh_out cmem" where
  "put_number v base sg conv w =
     (case bh_itoa v base sg of
        None \<Rightarrow> None
      | Some (n, str) \<Rightarrow> if 64 < length str + 1 then None else Some (default_puts (Some (map conv str)) w))"

definition hex_upper :: "u8 \<Rightarrow> u8" where
  "hex_upper c = (if 97 \<le> c \<and> c \<le> 102 then c - 97 + 65 else c)"

text \<open>One format specifier; an argument that is missing or of another kind is undefined behaviour.\<close>

definition printf_spec :: "u8 \<Rightarrow> bh_arg list \<Rightarrow> bh_out \<Rightarrow> (bh_arg list \<times> bh_out) cmem" where
  "printf_spec c args w =
     (if c = 100 \<or> c = 105 then
        (case args of Arg_Int v # as \<Rightarrow> map_option (Pair as) (put_number (sint v) 10 True id w) | _ \<Rightarrow> None)
      else if c = 117 then
        (case args of Arg_Int v # as \<Rightarrow> map_option (Pair as) (put_number (uint v) 10 False id w) | _ \<Rightarrow> None)
      else if c = 120 then
        (case args of Arg_Int v # as \<Rightarrow> map_option (Pair as) (put_number (uint v) 16 False id w) | _ \<Rightarrow> None)
      else if c = 88 then
        (case args of Arg_Int v # as \<Rightarrow> map_option (Pair as) (put_number (uint v) 16 False hex_upper w) | _ \<Rightarrow> None)
      else if c = 112 then
        (case args of
           Arg_Ptr v # as \<Rightarrow>
             map_option (Pair as) (put_number (sint v) 16 False id (default_puts (Some [48, 120]) w))
         | _ \<Rightarrow> None)
      else if c = 115 then
        (case args of
           Arg_Str s # as \<Rightarrow>
             Some (as, case s of
                         Some str \<Rightarrow> fold default_putc str w
                       | None \<Rightarrow> default_puts (Some [40, 110, 117, 108, 108, 41]) w)
         | _ \<Rightarrow> None)
      else if c = 99 then
        (case args of Arg_Int v # as \<Rightarrow> Some (as, default_putc (ucast v) w) | _ \<Rightarrow> None)
      else if c = 37 then Some (args, default_putc 37 w)
      else Some (args, default_putc c (default_putc 37 w)))"

fun default_printf_loop :: "u8 list \<Rightarrow> bh_arg list \<Rightarrow> bh_out \<Rightarrow> bh_out cmem" where
  "default_printf_loop [] args w = Some w"
| "default_printf_loop [c] args w = Some (default_putc c w)"
| "default_printf_loop (c # s # fmt) args w =
     (if c = 37 then
        (case printf_spec s args w of
           None \<Rightarrow> None
         | Some (args', w') \<Rightarrow> default_printf_loop fmt args' w')
      else default_printf_loop (s # fmt) args (default_putc c w))"

definition default_printf :: "u8 list ptr \<Rightarrow> bh_arg list \<Rightarrow> bh_out \<Rightarrow> bh_out cmem" where
  "default_printf format args w =
     (case format of None \<Rightarrow> Some w | Some f \<Rightarrow> default_printf_loop f args w)"

section \<open>The system table\<close>

record bh_memory_descriptor =
  md_base_address :: u64
  md_length :: u32
  md_type :: u32
  md_attributes :: u32

record bh_graphics_info =
  gi_framebuffer :: u64
  gi_width :: u32
  gi_height :: u32
  gi_pixels_per_scanline :: u32
  gi_bpp :: u32
  gi_red_mask :: u32
  gi_green_mask :: u32
  gi_blue_mask :: u32

text \<open>The three output parameters of \<open>get_memory_map\<close>.\<close>

type_synonym bh_map_out = "bh_memory_descriptor list ptr \<times> u32 \<times> u32"

record bh_system_table =
  t_alloc :: "(u32 \<Rightarrow> bh_out \<Rightarrow> u64 \<times> bh_out) ptr"
  t_free :: "(u64 \<Rightarrow> bh_out \<Rightarrow> bh_out) ptr"
  t_putc :: "(u8 \<Rightarrow> bh_out \<Rightarrow> bh_out) ptr"
  t_puts :: "(u8 list ptr \<Rightarrow> bh_out \<Rightarrow> bh_out) ptr"
  t_printf :: "(u8 list ptr \<Rightarrow> bh_arg list \<Rightarrow> bh_out \<Rightarrow> bh_out cmem) ptr"
  t_get_memory_map :: "(bh_map_out \<Rightarrow> bh_status \<times> bh_map_out) ptr"
  t_get_graphics_info :: "(bh_graphics_info \<Rightarrow> bh_status \<times> bh_graphics_info) ptr"
  t_get_rsdp :: "(bh_out \<Rightarrow> u64) ptr"
  t_get_boot_device :: "(bh_out \<Rightarrow> u64) ptr"
  t_reboot :: "(bh_out \<Rightarrow> bh_out) ptr"
  t_shutdown :: "(bh_out \<Rightarrow> bh_out) ptr"
  t_debug_break :: "(bh_out \<Rightarrow> bh_out) ptr"

definition default_system_table :: bh_system_table where
  "default_system_table =
     \<lparr>t_alloc = Some (\<lambda>n w. (0, w)), t_free = Some (\<lambda>p w. w), t_putc = Some default_putc, t_puts = Some default_puts,
      t_printf = Some default_printf, t_get_memory_map = Some (\<lambda>m. (BH_ERROR, m)),
      t_get_graphics_info = Some (\<lambda>g. (BH_ERROR, g)), t_get_rsdp = Some (\<lambda>w. 0), t_get_boot_device = Some (\<lambda>w. 0),
      t_reboot = Some (\<lambda>w. w), t_shutdown = Some (\<lambda>w. w), t_debug_break = Some (\<lambda>w. w @ [Int3])\<rparr>"

record bh_state =
  g_system_table :: "bh_system_table ptr"
  g_initialized :: bool
  g_init_count :: u32
  g_out :: bh_out

definition bh_init_system_table :: "bh_system_table ptr \<Rightarrow> bh_state \<Rightarrow> bh_state" where
  "bh_init_system_table table st =
     (case table of
        Some t \<Rightarrow> if g_system_table st = None then st\<lparr>g_system_table := Some t\<rparr> else st
      | None \<Rightarrow> st\<lparr>g_system_table := Some default_system_table\<rparr>)"

text \<open>The member of the system table, if there is a table and the member is not NULL.\<close>

definition tbl_member :: "(bh_system_table \<Rightarrow> 'f ptr) \<Rightarrow> bh_state \<Rightarrow> 'f ptr" where
  "tbl_member sel st = (case g_system_table st of None \<Rightarrow> None | Some t \<Rightarrow> sel t)"

definition call_out :: "(bh_out \<Rightarrow> bh_out) ptr \<Rightarrow> bh_state \<Rightarrow> bh_state" where
  "call_out f st = (case f of None \<Rightarrow> st | Some g \<Rightarrow> st\<lparr>g_out := g (g_out st)\<rparr>)"

definition bh_malloc :: "u32 \<Rightarrow> bh_state \<Rightarrow> u64 \<times> bh_state" where
  "bh_malloc n st =
     (case tbl_member t_alloc st of
        None \<Rightarrow> (0, st)
      | Some f \<Rightarrow> (fst (f n (g_out st)), st\<lparr>g_out := snd (f n (g_out st))\<rparr>))"

definition bh_free :: "u64 \<Rightarrow> bh_state \<Rightarrow> bh_state" where
  "bh_free p st = call_out (map_option (\<lambda>f. f p) (tbl_member t_free st)) st"

definition bh_putc :: "u8 \<Rightarrow> bh_state \<Rightarrow> bh_state" where
  "bh_putc c st = call_out (map_option (\<lambda>f. f c) (tbl_member t_putc st)) st"

definition bh_puts :: "u8 list ptr \<Rightarrow> bh_state \<Rightarrow> bh_state" where
  "bh_puts s st = call_out (map_option (\<lambda>f. f s) (tbl_member t_puts st)) st"

text \<open>\<open>bh_printf\<close> opens and closes the argument list and prints nothing.\<close>

definition bh_printf :: "u8 list ptr \<Rightarrow> bh_arg list \<Rightarrow> bh_state \<Rightarrow> bh_state" where
  "bh_printf format args st = st"

definition bh_get_memory_map :: "bh_map_out \<Rightarrow> bh_state \<Rightarrow> bh_status \<times> bh_map_out" where
  "bh_get_memory_map m st = (case tbl_member t_get_memory_map st of None \<Rightarrow> (BH_ERROR, m) | Some f \<Rightarrow> f m)"

definition bh_get_graphics_info :: "bh_graphics_info \<Rightarrow> bh_state \<Rightarrow> bh_status \<times> bh_graphics_info" where
  "bh_get_graphics_info g st = (case tbl_member t_get_graphics_info st of None \<Rightarrow> (BH_ERROR, g) | Some f \<Rightarrow> f g)"

definition bh_get_rsdp :: "bh_state \<Rightarrow> u64" where
  "bh_get_rsdp st = (case tbl_member t_get_rsdp st of None \<Rightarrow> 0 | Some f \<Rightarrow> f (g_out st))"

definition bh_get_boot_device :: "bh_state \<Rightarrow> u64" where
  "bh_get_boot_device st = (case tbl_member t_get_boot_device st of None \<Rightarrow> 0 | Some f \<Rightarrow> f (g_out st))"

definition bh_reboot :: "bh_state \<Rightarrow> bh_state" where
  "bh_reboot st = call_out (tbl_member t_reboot st) st"

text \<open>The first of the two functions named \<open>bh_shutdown\<close>, which switches the machine off.\<close>

definition bh_shutdown_machine :: "bh_state \<Rightarrow> bh_state" where
  "bh_shutdown_machine st = call_out (tbl_member t_shutdown st) st"

definition bh_debug_break :: "bh_state \<Rightarrow> bh_state" where
  "bh_debug_break st = call_out (tbl_member t_debug_break st) st"

section \<open>Initialisation\<close>

definition c_text :: "string \<Rightarrow> u8 list" where
  "c_text s = map (\<lambda>c. of_nat (of_char c)) s"

definition bh_initialize :: "bh_system_table ptr \<Rightarrow> bh_state \<Rightarrow> bh_status \<times> bh_state" where
  "bh_initialize system_table st =
     (if g_initialized st then (BH_SUCCESS, st\<lparr>g_init_count := g_init_count st + 1\<rparr>)
      else let st1 = bh_init_system_table system_table st in
        if g_system_table st1 = None then (BH_ERROR, st1)
        else let st2 = st1\<lparr>g_initialized := True, g_init_count := 1\<rparr> in
          (BH_SUCCESS, bh_puts (Some (c_text ''BloodHorn library initialized successfully'')) st2))"

text \<open>The second \<open>bh_shutdown\<close>, which releases the library.\<close>

definition bh_shutdown :: "bh_state \<Rightarrow> bh_state" where
  "bh_shutdown st =
     (if \<not> g_initialized st then st
      else let st1 = st\<lparr>g_init_count := g_init_count st - 1\<rparr> in
        if 0 < g_init_count st1 then st1
        else (bh_puts (Some (c_text ''BloodHorn library shutting down'')) st1)\<lparr>g_initialized := False, g_init_count := 0\<rparr>)"

definition bh_is_initialized :: "bh_state \<Rightarrow> bool" where
  "bh_is_initialized st = g_initialized st"

definition bh_get_version :: "u32 ptr \<Rightarrow> u32 ptr \<Rightarrow> u32 ptr \<Rightarrow> u32 ptr \<times> u32 ptr \<times> u32 ptr" where
  "bh_get_version major minor patch =
     (map_option (\<lambda>x. 1) major, map_option (\<lambda>x. 0) minor, map_option (\<lambda>x. 0) patch)"

section \<open>Memory and strings\<close>

text \<open>Memory is one list of bytes, so that regions may overlap; a pointer is a position in it or NULL.\<close>

fun copy_bytes :: "nat list \<Rightarrow> u8 list \<Rightarrow> nat \<Rightarrow> nat \<Rightarrow> u8 list cmem" where
  "copy_bytes [] mem d s = Some mem"
| "copy_bytes (i # is) mem d s =
     (case peek mem (s + i) of
        None \<Rightarrow> None
      | Some v \<Rightarrow> (case poke mem (d + i) v of None \<Rightarrow> None | Some mem' \<Rightarrow> copy_bytes is mem' d s))"

definition bh_memory_copy :: "u8 list \<Rightarrow> nat ptr \<Rightarrow> nat ptr \<Rightarrow> u32 \<Rightarrow> (bh_status \<times> u8 list) cmem" where
  "bh_memory_copy mem dest src n =
     (case (dest, src) of
        (Some d, Some s) \<Rightarrow>
          if n = 0 then Some (BH_SUCCESS, mem)
          else if d < s then map_option (Pair BH_SUCCESS) (copy_bytes [0..<unat n] mem d s)
          else if s < d then map_option (Pair BH_SUCCESS) (copy_bytes (rev [0..<unat n]) mem d s)
          else Some (BH_SUCCESS, mem)
      | _ \<Rightarrow> Some (BH_INVALID_ARGUMENT, mem))"

fun set_bytes :: "nat list \<Rightarrow> u8 list \<Rightarrow> nat \<Rightarrow> u8 \<Rightarrow> u8 list cmem" where
  "set_bytes [] mem d v = Some mem"
| "set_bytes (i # is) mem d v = (case poke mem (d + i) v of None \<Rightarrow> None | Some mem' \<Rightarrow> set_bytes is mem' d v)"

definition bh_memory_set :: "u8 list \<Rightarrow> nat ptr \<Rightarrow> u32 \<Rightarrow> u32 \<Rightarrow> (bh_status \<times> u8 list) cmem" where
  "bh_memory_set mem dest v n =
     (case dest of
        None \<Rightarrow> Some (BH_INVALID_ARGUMENT, mem)
      | Some d \<Rightarrow>
          if n = 0 then Some (BH_SUCCESS, mem)
          else map_option (Pair BH_SUCCESS) (set_bytes [0..<unat n] mem d (ucast v)))"

text \<open>Characters compare as signed numbers.\<close>

fun compare_bytes :: "nat list \<Rightarrow> u8 list \<Rightarrow> nat \<Rightarrow> nat \<Rightarrow> int cmem" where
  "compare_bytes [] mem p q = Some 0"
| "compare_bytes (i # is) mem p q =
     (case (peek mem (p + i), peek mem (q + i)) of
        (Some a, Some b) \<Rightarrow>
          if sint a < sint b then Some (-1) else if sint b < sint a then Some 1 else compare_bytes is mem p q
      | _ \<Rightarrow> None)"

definition bh_memory_compare :: "u8 list \<Rightarrow> nat ptr \<Rightarrow> nat ptr \<Rightarrow> u32 \<Rightarrow> int ptr \<Rightarrow> (bh_status \<times> int ptr) cmem" where
  "bh_memory_compare mem p1 p2 n result =
     (case (p1, p2, result) of
        (Some p, Some q, Some old) \<Rightarrow>
          map_option (\<lambda>r. (BH_SUCCESS, Some r)) (compare_bytes [0..<unat n] mem p q)
      | _ \<Rightarrow> Some (BH_INVALID_ARGUMENT, result))"

text \<open>The length of the string in a buffer; a string that does not end runs out of it.\<close>

fun string_length_from :: "u8 list \<Rightarrow> nat \<Rightarrow> nat cmem" where
  "string_length_from [] len = None"
| "string_length_from (c # cs) len = (if c \<noteq> 0 then string_length_from cs (len + 1) else Some len)"

definition bh_string_length :: "u8 list ptr \<Rightarrow> nat cmem" where
  "bh_string_length str = (case str of None \<Rightarrow> Some 0 | Some s \<Rightarrow> string_length_from s 0)"

text \<open>The copying loop with \<open>k\<close> characters of room left; \<open>dest\<close> and \<open>src\<close> are separate buffers.\<close>

fun string_copy_loop :: "nat \<Rightarrow> nat \<Rightarrow> u8 list \<Rightarrow> u8 list \<Rightarrow> (nat \<times> u8 list) cmem" where
  "string_copy_loop 0 i dest src = Some (i, dest)"
| "string_copy_loop (Suc k) i dest src =
     (case peek src i of
        None \<Rightarrow> None
      | Some c \<Rightarrow>
          if c \<noteq> 0
          then (case poke dest i c of None \<Rightarrow> None | Some dest' \<Rightarrow> string_copy_loop k (i + 1) dest' src)
          else Some (i, dest))"

definition bh_string_copy :: "u8 list ptr \<Rightarrow> u8 list ptr \<Rightarrow> u32 \<Rightarrow> (bh_status \<times> u8 list ptr) cmem" where
  "bh_string_copy dest src dest_size =
     (case (dest, src) of
        (Some d, Some s) \<Rightarrow>
          if dest_size = 0 then Some (BH_BUFFER_TOO_SMALL, dest)
          else do {
            (i, d1) \<leftarrow> string_copy_loop (unat (dest_size - 1)) 0 d s;
            d2 \<leftarrow> poke d1 i 0;
            c \<leftarrow> peek s i;
            Some (if c = 0 then BH_SUCCESS else BH_BUFFER_TOO_SMALL, Some d2)
          }
      | _ \<Rightarrow> Some (BH_INVALID_ARGUMENT, dest))"

section \<open>Lemmas\<close>

subsection \<open>Numbers\<close>

text \<open>Reading a number back.\<close>

definition digit_val :: "u8 \<Rightarrow> int" where
  "digit_val c = (if unat c < 58 then int (unat c) - 48 else int (unat c) - 87)"

definition parse_digits :: "int \<Rightarrow> u8 list \<Rightarrow> int" where
  "parse_digits base ds = foldl (\<lambda>a d. a * base + digit_val d) 0 ds"

definition parse_num :: "int \<Rightarrow> u8 list \<Rightarrow> int" where
  "parse_num base str = (if hd str = 45 then - parse_digits base (tl str) else parse_digits base str)"

lemma digit_char_val:
  assumes "0 \<le> d" and "d < 36"
  shows "digit_val (digit_char d) = d" "digit_char d \<noteq> 45"
proof -
  have u: "unat (digit_char d) = (if d < 10 then nat (48 + d) else nat (87 + d))"
    using assms unat_of_int_small [of "48 + d", where 'a = 8] unat_of_int_small [of "97 + d - 10", where 'a = 8]
    by (simp add: digit_char_def)
  show "digit_val (digit_char d) = d" using assms by (auto simp: digit_val_def u nat_less_iff)
  have "unat (digit_char d) \<noteq> unat (45 :: u8)" using assms by (auto simp: u nat_eq_iff)
  then show "digit_char d \<noteq> 45" by metis
qed

lemma c_div_nonneg: "0 \<le> a \<Longrightarrow> c_div a b = a div b"
  by (cases "a = 0") (simp_all add: c_div_def)

lemma bh_itoa_digits_nonneg:
  assumes "2 \<le> base" and "base \<le> 36"
  shows "0 \<le> v \<Longrightarrow> \<exists>ds. bh_itoa_digits base v = Some ds \<and> parse_digits base (rev ds) = v \<and>
    45 \<notin> set ds \<and> (v = 0 \<longleftrightarrow> ds = []) \<and> (\<forall>n. v < base ^ n \<longrightarrow> length ds \<le> n)"
proof (induction "nat v" arbitrary: v rule: less_induct)
  case less
  show ?case
  proof (cases "v = 0")
    case True
    then show ?thesis by (simp add: bh_itoa_digits.simps parse_digits_def)
  next
    case False
    then have v: "0 < v" using less.prems by simp
    have d: "0 \<le> v div base" "v div base < v"
      using assms v by (simp_all add: pos_imp_zdiv_nonneg_iff int_div_less_self)
    have "nat (v div base) < nat v" using d v by simp
    from less.hyps [OF this d(1)] obtain ds where ds: "bh_itoa_digits base (v div base) = Some ds"
        "parse_digits base (rev ds) = v div base" "45 \<notin> set ds" "\<forall>n. v div base < base ^ n \<longrightarrow> length ds \<le> n"
      by blast
    have r: "c_rem v base = v mod base" using v by (simp add: c_rem_def c_div_nonneg minus_mult_div_eq_mod)
    have m: "0 \<le> v mod base" "v mod base < 36"
      using assms pos_mod_sign [of base v] pos_mod_bound [of base v] by linarith+
    have "bh_itoa_digits base v = Some (digit_char (v mod base) # ds)"
      using False assms v ds(1) r by (simp add: bh_itoa_digits.simps [of base v] c_div_nonneg)
    moreover have "parse_digits base (rev (digit_char (v mod base) # ds)) = v"
      using ds(2) digit_char_val(1) [OF m] by (simp add: parse_digits_def)
    moreover have "length ds < n" if "v < base ^ n" for n
    proof (cases n)
      case 0
      then show ?thesis using that v by simp
    next
      case (Suc k)
      have "v div base < base ^ k"
      proof (rule ccontr)
        assume "\<not> v div base < base ^ k"
        then have "base * base ^ k \<le> base * (v div base)" using assms by (intro mult_left_mono) simp_all
        also have "\<dots> \<le> v" using assms pos_mod_sign [of base v] mult_div_mod_eq [of base v] by linarith
        finally show False using that Suc by simp
      qed
      then show ?thesis using ds(4) Suc by (auto simp: less_Suc_eq_le)
    qed
    ultimately show ?thesis using ds(3) digit_char_val(2) [OF m] False by (auto simp: Suc_le_eq)
  qed
qed

text \<open>The swapping loop reverses the part between its positions.\<close>

lemma bh_reverse_segment:
  "bh_reverse (xs @ ys @ zs) (length xs) (length xs + length ys - 1) = xs @ rev ys @ zs"
proof (induction "length ys" arbitrary: xs ys zs rule: less_induct)
  case less
  show ?case
  proof (cases "length ys < 2")
    case True
    then have "ys = [] \<or> (\<exists>y. ys = [y])" by (cases ys) (auto simp: less_Suc_eq)
    then show ?thesis by (auto simp: bh_reverse.simps [of _ "length xs"])
  next
    case False
    then obtain a m b where ys: "ys = a # m @ [b]"
      by (cases ys; cases "tl ys" rule: rev_cases) auto
    let ?j = "length xs + length ys - 1"
    have "(xs @ ys @ zs)[?j := (xs @ ys @ zs) ! length xs, length xs := (xs @ ys @ zs) ! ?j] =
        (xs @ [b]) @ m @ ([a] @ zs)"
      by (simp add: ys list_update_append nth_append)
    moreover have "length xs < ?j" by (simp add: ys)
    moreover have "bh_reverse ((xs @ [b]) @ m @ ([a] @ zs)) (length (xs @ [b])) (length (xs @ [b]) + length m - 1) =
        (xs @ [b]) @ rev m @ ([a] @ zs)"
      by (rule less.hyps) (simp add: ys)
    ultimately show ?thesis by (simp add: bh_reverse.simps [of _ "length xs"] ys)
  qed
qed

lemma bh_itoa_eq:
  assumes b: "2 \<le> base" "base \<le> 36" and v: "- (2 ^ 63) < v" "0 \<le> v \<or> sg" and nz: "v \<noteq> 0"
  obtains ds where "bh_itoa_digits base \<bar>v\<bar> = Some ds" "45 \<notin> set ds" "ds \<noteq> []"
    "parse_digits base (rev ds) = \<bar>v\<bar>" "\<forall>n. \<bar>v\<bar> < base ^ n \<longrightarrow> length ds \<le> n"
    "bh_itoa v base sg = Some (int (length ds + (if v < 0 then 1 else 0)), (if v < 0 then [45] else []) @ rev ds)"
proof -
  obtain ds where ds: "bh_itoa_digits base \<bar>v\<bar> = Some ds" "45 \<notin> set ds" "ds \<noteq> []"
      "parse_digits base (rev ds) = \<bar>v\<bar>" "\<forall>n. \<bar>v\<bar> < base ^ n \<longrightarrow> length ds \<le> n"
    using bh_itoa_digits_nonneg [OF b, of "\<bar>v\<bar>"] nz by auto
  have "hd ds \<noteq> 45" "ds ! 0 \<noteq> 45" using ds(2,3) by (cases ds; auto)+
  then have "bh_itoa v base sg = Some (int (length ds + (if v < 0 then 1 else 0)), (if v < 0 then [45] else []) @ rev ds)"
    using bh_reverse_segment [of "[]" ds "[]"] bh_reverse_segment [of "[45]" ds "[]"] ds(1) v nz
    by (auto simp: bh_itoa_def Let_def abs_if)
  with ds that show thesis by blast
qed

subsection \<open>Copying memory\<close>

lemma nth_copied:
  "(take d m @ take n (drop s m) @ drop (d + n) m) ! k =
     (if d \<le> k \<and> k < d + n then m ! (s + (k - d)) else m ! k)"
  if "d + n \<le> length m" "s + n \<le> length m" "k < length m"
  using that by (auto simp: nth_append)

text \<open>Copying the indices of \<open>is\<close> moves the original bytes if no byte is overwritten before it is read.\<close>

lemma copy_bytes_moves:
  assumes "\<forall>i \<in> set is. s + i < length mem \<and> d + i < length mem" and "distinct is"
    and "\<forall>a < length is. \<forall>b < length is. a < b \<longrightarrow> d + is ! a \<noteq> s + is ! b"
  shows "\<exists>mem'. copy_bytes is mem d s = Some mem' \<and> length mem' = length mem \<and>
    (\<forall>k < length mem. mem' ! k = (if d \<le> k \<and> k - d \<in> set is then mem ! (s + (k - d)) else mem ! k))"
  using assms
proof (induction "is" arbitrary: mem)
  case Nil
  then show ?case by simp
next
  case (Cons i js)
  let ?m = "mem[d + i := mem ! (s + i)]"
  have ord: "\<forall>b < length js. d + i \<noteq> s + js ! b" using Cons.prems(3) by fastforce
  have "\<exists>mem'. copy_bytes js ?m d s = Some mem' \<and> length mem' = length ?m \<and>
    (\<forall>k < length ?m. mem' ! k = (if d \<le> k \<and> k - d \<in> set js then ?m ! (s + (k - d)) else ?m ! k))"
  proof (rule Cons.IH)
    show "\<forall>a < length js. \<forall>b < length js. a < b \<longrightarrow> d + js ! a \<noteq> s + js ! b"
    proof (intro allI impI)
      fix a b assume "a < length js" "b < length js" "a < b"
      then show "d + js ! a \<noteq> s + js ! b" using Cons.prems(3) [rule_format, of "Suc a" "Suc b"] by simp
    qed
  qed (use Cons.prems in auto)
  then obtain mem' where m': "copy_bytes js ?m d s = Some mem'" "length mem' = length mem"
      "\<forall>k < length mem. mem' ! k = (if d \<le> k \<and> k - d \<in> set js then ?m ! (s + (k - d)) else ?m ! k)"
    by auto
  have keep: "?m ! (s + j) = mem ! (s + j)" if "j \<in> set js" for j
    using that ord by (auto simp: in_set_conv_nth nth_list_update)
  have "mem' ! k = (if d \<le> k \<and> k - d \<in> set (i # js) then mem ! (s + (k - d)) else mem ! k)" if "k < length mem" for k
    using m'(3) that keep [of "k - d"] Cons.prems(1,2) by (auto simp: nth_list_update)
  then show ?case using m'(1,2) Cons.prems(1) by (simp add: peek_def poke_def)
qed

lemma copy_bytes_memmove:
  assumes "set is = {0..<n}" and "distinct is" and "d + n \<le> length mem" and "s + n \<le> length mem"
    and "\<forall>a < length is. \<forall>b < length is. a < b \<longrightarrow> d + is ! a \<noteq> s + is ! b"
  shows "copy_bytes is mem d s = Some (take d mem @ take n (drop s mem) @ drop (d + n) mem)"
proof -
  obtain mem' where m': "copy_bytes is mem d s = Some mem'" "length mem' = length mem"
      "\<forall>k < length mem. mem' ! k = (if d \<le> k \<and> k - d \<in> set is then mem ! (s + (k - d)) else mem ! k)"
    using copy_bytes_moves [of "is" s mem d] assms by fastforce
  have "mem' = take d mem @ take n (drop s mem) @ drop (d + n) mem"
  proof (rule nth_equalityI)
    show "length mem' = length (take d mem @ take n (drop s mem) @ drop (d + n) mem)" using m'(2) assms by simp
    fix k assume "k < length mem'"
    then show "mem' ! k = (take d mem @ take n (drop s mem) @ drop (d + n) mem) ! k"
      using m' assms(1,3,4) by (subst nth_copied) auto
  qed
  with m'(1) show ?thesis by simp
qed

lemma bh_memory_copy_memmove:
  assumes "d + unat n \<le> length mem" and "s + unat n \<le> length mem"
  shows "bh_memory_copy mem (Some d) (Some s) n =
    Some (BH_SUCCESS, take d mem @ take (unat n) (drop s mem) @ drop (d + unat n) mem)"
proof -
  have f: "copy_bytes [0..<unat n] mem d s = Some (take d mem @ take (unat n) (drop s mem) @ drop (d + unat n) mem)" if "d < s"
    using that assms by (intro copy_bytes_memmove) auto
  have r: "copy_bytes (rev [0..<unat n]) mem d s = Some (take d mem @ take (unat n) (drop s mem) @ drop (d + unat n) mem)"
    if "s < d" using that assms by (intro copy_bytes_memmove) (auto simp: rev_nth)
  have "take s mem @ take k (drop s mem) @ drop (s + k) mem = mem" for k
    by (metis append_take_drop_id drop_drop add.commute)
  then show ?thesis using f r by (auto simp: bh_memory_copy_def)
qed

subsection \<open>Reference counting\<close>

datatype bh_call = Initialize "bh_system_table ptr" | Shutdown

fun bh_run :: "bh_call list \<Rightarrow> bh_state \<Rightarrow> bh_state" where
  "bh_run [] st = st"
| "bh_run (Initialize t # cs) st = bh_run cs (snd (bh_initialize t st))"
| "bh_run (Shutdown # cs) st = bh_run cs (bh_shutdown st)"

text \<open>The contract: a counter of references.\<close>

fun ref_count :: "bh_call list \<Rightarrow> nat \<Rightarrow> nat" where
  "ref_count [] n = n"
| "ref_count (Initialize t # cs) n = ref_count cs (n + 1)"
| "ref_count (Shutdown # cs) n = ref_count cs (n - 1)"

definition counts :: "nat \<Rightarrow> bh_state \<Rightarrow> bool" where
  "counts n st \<longleftrightarrow> (g_initialized st \<longleftrightarrow> 0 < n) \<and> unat (g_init_count st) = n \<and>
     (0 < n \<longrightarrow> g_system_table st \<noteq> None)"

lemma puts_fields [simp]:
  "g_initialized (bh_puts s st) = g_initialized st" "g_init_count (bh_puts s st) = g_init_count st"
  "g_system_table (bh_puts s st) = g_system_table st"
  by (simp_all add: bh_puts_def call_out_def split: option.split)

lemma counts_initialize:
  assumes "counts n st" and "n + 1 < 2 ^ 32"
  shows "counts (n + 1) (snd (bh_initialize t st)) \<and> fst (bh_initialize t st) = BH_SUCCESS"
proof (cases "g_initialized st")
  case True
  have "unat (g_init_count st + 1) = n + 1" using assms by (subst unat_add_small) (simp_all add: counts_def)
  then show ?thesis using assms True by (simp add: bh_initialize_def counts_def)
next
  case False
  then have "n = 0" using assms by (simp add: counts_def)
  then show ?thesis using False by (auto simp: bh_initialize_def bh_init_system_table_def counts_def Let_def split: option.split)
qed

lemma counts_shutdown: "counts n st \<Longrightarrow> counts (n - 1) (bh_shutdown st)"
proof -
  assume c: "counts n st"
  show ?thesis
  proof (cases "g_initialized st")
    case True
    then have n: "0 < n" "unat (g_init_count st) = n" using c by (simp_all add: counts_def)
    then have "unat (g_init_count st - 1) = n - 1" by (subst unat_sub_small) simp_all
    moreover from this have "0 < g_init_count st - 1 \<longleftrightarrow> 1 < n" by (simp add: word_less_nat_alt)
    ultimately show ?thesis using c True n by (auto simp: bh_shutdown_def counts_def Let_def)
  next
    case False
    then show ?thesis using c by (simp add: bh_shutdown_def counts_def)
  qed
qed

lemma bh_run_counts: "counts n st \<Longrightarrow> n + length cs < 2 ^ 32 \<Longrightarrow> counts (ref_count cs n) (bh_run cs st)"
proof (induction cs arbitrary: n st)
  case Nil
  then show ?case by simp
next
  case (Cons c cs)
  show ?case
  proof (cases c)
    case (Initialize t)
    then show ?thesis using counts_initialize [OF Cons.prems(1), of t] Cons by simp
  next
    case Shutdown
    then show ?thesis using counts_shutdown [OF Cons.prems(1)] Cons by simp
  qed
qed

section \<open>Properties\<close>

text \<open>Formatting a number and reading the text back gives the number, for every base from 2 to 36 and
  every value except the least \<open>long long\<close> (negative ones only when the call is signed). The count returned
  is the length of the text, and with a base of at least 10 the text has at most 20 characters, so it fits the
  64-byte buffer of \<open>default_printf\<close>.\<close>

lemma bh_itoa_roundtrip:
  assumes "2 \<le> base" and "base \<le> 36" and "- (2 ^ 63) < v" and "v < 2 ^ 63" and "0 \<le> v \<or> sg"
  shows "\<exists>str. bh_itoa v base sg = Some (int (length str), str) \<and> parse_num base str = v \<and>
    (10 \<le> base \<longrightarrow> length str \<le> 20)"
proof (cases "v = 0")
  case True
  then show ?thesis by (simp add: bh_itoa_def parse_num_def parse_digits_def digit_val_def)
next
  case False
  obtain ds where ds: "45 \<notin> set ds" "ds \<noteq> []" "parse_digits base (rev ds) = \<bar>v\<bar>"
      "\<forall>n. \<bar>v\<bar> < base ^ n \<longrightarrow> length ds \<le> n"
      "bh_itoa v base sg = Some (int (length ds + (if v < 0 then 1 else 0)), (if v < 0 then [45] else []) @ rev ds)"
    using bh_itoa_eq [OF assms(1-3,5) False] by metis
  have "hd (rev ds) \<noteq> 45" using ds(1,2) by (metis hd_in_set rev_is_Nil_conv set_rev)
  then have "parse_num base ((if v < 0 then [45] else []) @ rev ds) = v"
    using ds(2,3) by (auto simp: parse_num_def)
  moreover have "length ds \<le> 19" if "10 \<le> base"
  proof -
    have "\<bar>v\<bar> < 10 ^ 19" using assms(3,4) by simp
    also have "(10 :: int) ^ 19 \<le> base ^ 19" using that by (intro power_mono) simp_all
    finally show ?thesis using ds(4) by blast
  qed
  ultimately show ?thesis using ds(5) by (auto intro!: exI [of _ "(if v < 0 then [45] else []) @ rev ds"])
qed

text \<open>C34: \<open>bh_memory_copy\<close> moves bytes correctly between regions that overlap in any way: the destination
  gets the bytes the source had before the call and the rest of memory is unchanged.\<close>

theorem bh_memory_copy_is_memmove:
  assumes "d + unat n \<le> length mem" and "s + unat n \<le> length mem"
  shows "bh_memory_copy mem (Some d) (Some s) n =
    Some (BH_SUCCESS, take d mem @ take (unat n) (drop s mem) @ drop (d + unat n) mem)"
  by (rule bh_memory_copy_memmove [OF assms])

theorem bh_memory_copy_is_memmove_witness:
  "bh_memory_copy [1, 2, 3, 4, 5] (Some 1) (Some 0) 3 = Some (BH_SUCCESS, [1, 1, 2, 3, 5])"
  using bh_memory_copy_is_memmove [of 1 3 "[1, 2, 3, 4, 5]" 0] by simp

text \<open>C16: Initialising and shutting the library down implements a reference counter: after any sequence of
  fewer than \<open>2 ^ 32\<close> calls from the fresh state the library is initialised exactly when more references
  have been taken than given back, where giving back without holding one has no effect; the count is that
  number, and while it is positive there is a system table.\<close>

theorem bh_library_counts_references:
  assumes "length cs < 2 ^ 32" and "\<not> g_initialized st" and "g_init_count st = 0"
  shows "bh_is_initialized (bh_run cs st) = (0 < ref_count cs 0) \<and>
    unat (g_init_count (bh_run cs st)) = ref_count cs 0 \<and>
    (0 < ref_count cs 0 \<longrightarrow> g_system_table (bh_run cs st) \<noteq> None)"
  using bh_run_counts [of 0 st cs] assms by (simp add: counts_def bh_is_initialized_def)

theorem bh_library_counts_references_witness:
  "let st = bh_run [Initialize None, Initialize None, Shutdown, Shutdown, Shutdown]
       \<lparr>g_system_table = None, g_initialized = False, g_init_count = 0, g_out = []\<rparr>
   in \<not> bh_is_initialized st \<and> g_init_count st = 0"
  using bh_library_counts_references [of "[Initialize None, Initialize None, Shutdown, Shutdown, Shutdown]"
      "\<lparr>g_system_table = None, g_initialized = False, g_init_count = 0, g_out = []\<rparr>"]
  by (simp add: Let_def unat_eq_zero del: bh_run.simps)

end
