(* ===== verification/Boot_Mem.thy ===== *)
theory Boot_Mem
  imports BH_Prelude
begin

text \<open>
  Physical memory as the boot protocols see it: a function from 64-bit addresses to bytes, with little-endian
  fields and zero-terminated strings, a file loader, and the outcome of a boot. Addresses that a protocol
  computes are named by their distance from a base address.
\<close>

section \<open>Memory\<close>

type_synonym mem = "u64 \<Rightarrow> u8"

definition le64_bytes :: "u64 \<Rightarrow> u8 list" where
  "le64_bytes w = map (\<lambda>i. byte_at (8 * i) w) [0..<8]"

definition wr :: "mem \<Rightarrow> u64 \<Rightarrow> u8 list \<Rightarrow> mem" where
  "wr m a bs = (\<lambda>x. let k = unat (x - a) in if k < length bs then bs ! k else m x)"

definition rd32 :: "mem \<Rightarrow> u64 \<Rightarrow> u32" where
  "rd32 m a = be32 (m (a + 3)) (m (a + 2)) (m (a + 1)) (m a)"

definition rd64 :: "mem \<Rightarrow> u64 \<Rightarrow> u64" where
  "rd64 m a = push_bit 32 (ucast (rd32 m (a + 4))) OR ucast (rd32 m a)"

definition wr64 :: "mem \<Rightarrow> u64 \<Rightarrow> u64 \<Rightarrow> mem" where
  "wr64 m a v = wr m a (le64_bytes v)"

definition wr32 :: "mem \<Rightarrow> u64 \<Rightarrow> u32 \<Rightarrow> mem" where
  "wr32 m a v = wr m a (le32_bytes v)"

text \<open>\<open>strlen\<close> on memory; a string without an end is never left.\<close>

partial_function (option) strlen_mem :: "mem \<Rightarrow> u64 \<Rightarrow> nat cmem" where
  "strlen_mem m a = (if m a = 0 then Some 0 else Option.bind (strlen_mem m (a + 1)) (\<lambda>n. Some (Suc n)))"

fun strnlen_mem :: "mem \<Rightarrow> u64 \<Rightarrow> nat \<Rightarrow> nat" where
  "strnlen_mem m a 0 = 0"
| "strnlen_mem m a (Suc n) = (if m a = 0 then 0 else Suc (strnlen_mem m (a + 1) n))"

text \<open>\<open>strcmp (a, s) == 0\<close> for a string \<open>s\<close> given by its characters.\<close>

fun streq_mem :: "mem \<Rightarrow> u64 \<Rightarrow> u8 list \<Rightarrow> bool" where
  "streq_mem m a [] = (m a = 0)"
| "streq_mem m a (c # cs) = (m a = c \<and> streq_mem m (a + 1) cs)"

definition strcpy_mem :: "mem \<Rightarrow> u64 \<Rightarrow> u8 list \<Rightarrow> mem" where
  "strcpy_mem m a s = wr m a (s @ [0])"

section \<open>Loading files and starting kernels\<close>

text \<open>\<open>load_file\<close> is declared \<open>extern\<close>: for a path the buffer and the size it stores, or nothing when it
  reports an error. A loader either returns a code or jumps: the entry point, its arguments and the memory at
  that moment.\<close>

type_synonym file_loader = "u8 list \<Rightarrow> (u8 list \<times> u32) option"

datatype boot_outcome = Boot_Failed int | Boot_Jump u64 "u64 list" mem

definition peek32 :: "u8 list \<Rightarrow> nat \<Rightarrow> u32 cmem" where
  "peek32 b i = (if i + 4 \<le> length b then Some (le32_at b i) else None)"

text \<open>\<open>memcpy\<close> from a buffer into memory.\<close>

definition copy_in :: "mem \<Rightarrow> u64 \<Rightarrow> u8 list \<Rightarrow> nat \<Rightarrow> nat \<Rightarrow> mem cmem" where
  "copy_in m a src soff n = (if soff + n \<le> length src then Some (wr m a (take n (drop soff src))) else None)"

text \<open>\<^verbatim>\<open>cmdline && strlen(cmdline) > 0\<close>.\<close>

fun has_text :: "u8 list ptr \<Rightarrow> bool" where
  "has_text None = False"
| "has_text (Some s) = (s \<noteq> [])"

section \<open>Views of memory\<close>

definition addr :: "u64 \<Rightarrow> nat \<Rightarrow> u64" where
  "addr b p = b + of_nat p"

lemma addr_add: "addr b p + of_nat k = addr b (p + k)"
  by (simp add: addr_def add.assoc)

lemma addr_add_num [simp]: "addr b p + numeral k = addr b (p + numeral k)" "addr b p + 1 = addr b (p + 1)"
  by (simp_all add: addr_def add.assoc)

lemma wr_addr:
  assumes "p < 2 ^ 62" and "q < 2 ^ 62" and "length bs < 2 ^ 62"
  shows "wr m (addr b q) bs (addr b p) = (if q \<le> p \<and> p < q + length bs then bs ! (p - q) else m (addr b p))"
proof (cases "q \<le> p")
  case True
  then have "addr b p - addr b q = of_nat (p - q)" by (simp add: addr_def of_nat_diff)
  moreover have "unat (of_nat (p - q) :: u64) = p - q" using assms(1) by (intro unat_of_nat_small) simp
  ultimately show ?thesis using True by (auto simp: wr_def Let_def)
next
  case False
  have "addr b p - addr b q = - of_nat (q - p)" using False by (simp add: addr_def of_nat_diff)
  also have "\<dots> = of_nat (2 ^ 64 - (q - p))"
  proof -
    have "(of_nat (q - p) :: u64) + of_nat (2 ^ 64 - (q - p)) = of_nat (2 ^ 64)"
      using assms(2) by (simp only: of_nat_add [symmetric]) simp
    also have "(of_nat (2 ^ 64) :: u64) = 0" by simp
    finally show ?thesis by (rule minus_unique)
  qed
  finally have eq: "addr b p - addr b q = of_nat (2 ^ 64 - (q - p))" .
  have "unat (of_nat (2 ^ 64 - (q - p)) :: u64) = 2 ^ 64 - (q - p)"
    using False assms(2) by (intro unat_of_nat_small) simp
  then have "unat (addr b p - addr b q) = 2 ^ 64 - (q - p)" by (simp only: eq)
  then have "\<not> unat (addr b p - addr b q) < length bs" using assms by simp
  then show ?thesis using False by (simp add: wr_def Let_def)
qed

lemma rd32_addr: "rd32 m (addr b p) = be32 (m (addr b (p + 3))) (m (addr b (p + 2))) (m (addr b (p + 1))) (m (addr b p))"
  by (simp add: rd32_def)

lemma rd64_addr: "rd64 m (addr b p) = push_bit 32 (ucast (rd32 m (addr b (p + 4)))) OR ucast (rd32 m (addr b p))"
  by (simp add: rd64_def)

lemma rd32_cong:
  assumes "\<And>i. i < 4 \<Longrightarrow> m (addr b (p + i)) = m' (addr b (p + i))"
  shows "rd32 m (addr b p) = rd32 m' (addr b p)"
  using assms [of 0] assms [of 1] assms [of 2] assms [of 3] by (simp add: rd32_addr)

lemma rd64_cong: "(\<And>i. i < 8 \<Longrightarrow> m (addr b (p + i)) = m' (addr b (p + i))) \<Longrightarrow> rd64 m (addr b p) = rd64 m' (addr b p)"
  unfolding rd64_addr by (intro arg_cong2 [where f = "(OR)"] arg_cong [where f = "\<lambda>x. push_bit 32 (ucast x)"]
      arg_cong [where f = ucast] rd32_cong) (simp_all add: add.assoc)

lemma le64_nth:
  "le64_bytes v = [byte_at 0 v, byte_at 8 v, byte_at 16 v, byte_at 24 v, byte_at 32 v, byte_at 40 v, byte_at 48 v, byte_at 56 v]"
  by (simp add: le64_bytes_def upt_conv_Cons)

lemma length_le64_bytes [simp]: "length (le64_bytes v) = 8"
  by (simp add: le64_nth)

lemma le64_value:
  "push_bit 32 (ucast (be32 (byte_at 56 v) (byte_at 48 v) (byte_at 40 v) (byte_at 32 v))) OR
     ucast (be32 (byte_at 24 v) (byte_at 16 v) (byte_at 8 v) (byte_at 0 v)) = (v :: u64)"
  by (rule bit_word_eqI) (auto simp: bit_or_iff bit_push_bit_iff bit_ucast_iff bit_be32 bit_byte_at)

lemma rd64_wr64 [simp]: "p < 2 ^ 61 \<Longrightarrow> rd64 (wr64 m (addr b p) v) (addr b p) = v"
  by (simp add: rd64_addr rd32_addr wr64_def wr_addr le64_nth le64_value)

text \<open>Strings in memory.\<close>

definition holds_str :: "mem \<Rightarrow> u64 \<Rightarrow> u8 list \<Rightarrow> bool" where
  "holds_str m a s \<longleftrightarrow> 0 \<notin> set s \<and> (\<forall>i \<le> length s. m (a + of_nat i) = (s @ [0]) ! i)"

lemma all_le_Suc: "(\<forall>i \<le> Suc n. P i) \<longleftrightarrow> P 0 \<and> (\<forall>i \<le> n. P (Suc i))"
  using All_less_Suc2 [of "Suc n" P] by (simp add: less_Suc_eq_le)

lemma holds_str_Cons: "holds_str m a (c # s) \<longleftrightarrow> c \<noteq> 0 \<and> m a = c \<and> holds_str m (a + 1) s"
  by (auto simp: holds_str_def all_le_Suc add.assoc)

lemma holds_str_Nil: "holds_str m a [] \<longleftrightarrow> m a = 0"
  by (simp add: holds_str_def)

lemma strlen_holds: "holds_str m a s \<Longrightarrow> strlen_mem m a = Some (length s)"
proof (induction s arbitrary: a)
  case Nil
  then show ?case by (subst strlen_mem.simps) (simp add: holds_str_def)
next
  case (Cons c s)
  then show ?case by (subst strlen_mem.simps) (simp add: holds_str_Cons)
qed

lemma streq_holds: "holds_str m a s \<Longrightarrow> 0 \<notin> set t \<Longrightarrow> streq_mem m a t \<longleftrightarrow> t = s"
proof (induction t arbitrary: a s)
  case Nil
  then show ?case by (cases s) (auto simp: holds_str_Cons holds_str_Nil)
next
  case (Cons c t)
  then show ?case by (cases s) (auto simp: holds_str_Cons holds_str_Nil)
qed

section \<open>Reading back what was written\<close>

lemma rd32_wr32 [simp]: "p < 2 ^ 61 \<Longrightarrow> rd32 (wr32 m (addr b p) v) (addr b p) = v"
  by (simp add: rd32_addr wr32_def wr_addr le32_bytes_def be32_of_bytes)

lemma wr_byte_other:
  "p < 2 ^ 61 \<Longrightarrow> q < 2 ^ 61 \<Longrightarrow> length bs < 2 ^ 61 \<Longrightarrow> p < q \<or> q + length bs \<le> p \<Longrightarrow>
   wr m (addr b q) bs (addr b p) = m (addr b p)"
  by (auto simp: wr_addr)

lemma rd32_wr_other:
  "p < 2 ^ 60 \<Longrightarrow> q < 2 ^ 60 \<Longrightarrow> length bs < 2 ^ 60 \<Longrightarrow> p + 4 \<le> q \<or> q + length bs \<le> p \<Longrightarrow>
   rd32 (wr m (addr b q) bs) (addr b p) = rd32 m (addr b p)"
  by (rule rd32_cong, rule wr_byte_other) auto

lemma rd32_wr32_other [simp]:
  "p < 2 ^ 60 \<Longrightarrow> q < 2 ^ 60 \<Longrightarrow> p + 4 \<le> q \<or> q + 4 \<le> p \<Longrightarrow> rd32 (wr32 m (addr b q) v) (addr b p) = rd32 m (addr b p)"
  by (simp add: wr32_def rd32_wr_other)

lemma rd32_wr64_other [simp]:
  "p < 2 ^ 60 \<Longrightarrow> q < 2 ^ 60 \<Longrightarrow> p + 4 \<le> q \<or> q + 8 \<le> p \<Longrightarrow> rd32 (wr64 m (addr b q) v) (addr b p) = rd32 m (addr b p)"
  by (simp add: wr64_def rd32_wr_other)

text \<open>A run of bytes in memory, and strings as such runs.\<close>

definition holds :: "mem \<Rightarrow> u64 \<Rightarrow> nat \<Rightarrow> u8 list \<Rightarrow> bool" where
  "holds m b p bs \<longleftrightarrow> (\<forall>i < length bs. m (addr b (p + i)) = bs ! i)"

lemma holds_str_iff: "holds_str m (addr b p) s \<longleftrightarrow> 0 \<notin> set s \<and> holds m b p (s @ [0])"
  by (simp add: holds_str_def holds_def addr_add less_Suc_eq_le)

lemma holds_append: "holds m b p (xs @ ys) \<longleftrightarrow> holds m b p xs \<and> holds m b (p + length xs) ys"
proof
  assume l: "holds m b p (xs @ ys)"
  have "m (addr b (p + length xs + i)) = ys ! i" if "i < length ys" for i
    using l [unfolded holds_def, rule_format, of "length xs + i"] that by (simp add: add.assoc)
  moreover have "m (addr b (p + i)) = xs ! i" if "i < length xs" for i
    using l [unfolded holds_def, rule_format, of i] that by (simp add: nth_append)
  ultimately show "holds m b p xs \<and> holds m b (p + length xs) ys" by (simp add: holds_def)
next
  assume r: "holds m b p xs \<and> holds m b (p + length xs) ys"
  have "m (addr b (p + i)) = (xs @ ys) ! i" if "i < length xs + length ys" for i
  proof (cases "i < length xs")
    case True
    then show ?thesis using r by (simp add: holds_def nth_append)
  next
    case False
    then obtain j where j: "i = length xs + j" using le_Suc_ex [of "length xs" i] by auto
    then have "j < length ys" using that by simp
    then have "m (addr b (p + length xs + j)) = ys ! j" using r by (simp add: holds_def)
    then show ?thesis by (simp add: j nth_append add.assoc)
  qed
  then show "holds m b p (xs @ ys)" by (simp add: holds_def)
qed

lemma holds_wr [simp]:
  "p + length bs < 2 ^ 60 \<Longrightarrow> holds (wr m (addr b p) bs) b p bs"
  by (simp add: holds_def wr_addr)

lemma holds_wr_other:
  "p + length xs < 2 ^ 60 \<Longrightarrow> q < 2 ^ 60 \<Longrightarrow> length bs < 2 ^ 60 \<Longrightarrow> p + length xs \<le> q \<or> q + length bs \<le> p \<Longrightarrow>
   holds (wr m (addr b q) bs) b p xs \<longleftrightarrow> holds m b p xs"
  by (auto simp: holds_def wr_byte_other)

lemma holds_wr32_other [simp]:
  "p + length xs < 2 ^ 60 \<Longrightarrow> q < 2 ^ 60 \<Longrightarrow> p + length xs \<le> q \<or> q + 4 \<le> p \<Longrightarrow>
   holds (wr32 m (addr b q) v) b p xs \<longleftrightarrow> holds m b p xs"
  by (simp add: wr32_def holds_wr_other)

lemma holds_wr64_other [simp]:
  "p + length xs < 2 ^ 60 \<Longrightarrow> q < 2 ^ 60 \<Longrightarrow> p + length xs \<le> q \<or> q + 8 \<le> p \<Longrightarrow>
   holds (wr64 m (addr b q) v) b p xs \<longleftrightarrow> holds m b p xs"
  by (simp add: wr64_def holds_wr_other)

lemma holds_strcpy [simp]: "p + length s < 2 ^ 59 \<Longrightarrow> holds (strcpy_mem m (addr b p) s) b p (s @ [0])"
  unfolding strcpy_mem_def by (rule holds_wr) auto

lemma holds_wr32 [simp]: "p < 2 ^ 59 \<Longrightarrow> holds (wr32 m (addr b p) v) b p (le32_bytes v)"
  unfolding wr32_def by (rule holds_wr) simp

lemma holds_strcpy_prefix:
  assumes "p + length s < 2 ^ 59"
  shows "holds (strcpy_mem m (addr b p) s) b p (take k s)"
proof -
  have "s @ [0] = take k s @ (drop k s @ [0])" by simp
  then show ?thesis using holds_strcpy [OF assms, of m b] by (metis holds_append)
qed

lemma rd32_strcpy_other [simp]:
  "p < 2 ^ 60 \<Longrightarrow> q + length s < 2 ^ 59 \<Longrightarrow> p + 4 \<le> q \<or> q + length s < p \<Longrightarrow>
   rd32 (strcpy_mem m (addr b q) s) (addr b p) = rd32 m (addr b p)"
  unfolding strcpy_mem_def by (rule rd32_wr_other) auto

text \<open>A field written over a string: when its second byte is zero, it ends the string.\<close>

lemma holds_str_clobbered:
  assumes "holds m b p t" and "0 \<notin> set t" and "c \<noteq> 0" and "p + length t < 2 ^ 58" and "length cs < 2 ^ 58"
  shows "holds_str (wr m (addr b (p + length t)) (c # 0 # cs)) (addr b p) (t @ [c])"
proof -
  have "holds (wr m (addr b (p + length t)) (c # 0 # cs)) b (p + length t) ([c, 0] @ cs)"
    using assms holds_wr [of "p + length t" "c # 0 # cs"] by simp
  then have "holds (wr m (addr b (p + length t)) (c # 0 # cs)) b (p + length t) [c, 0]"
    by (simp only: holds_append)
  moreover have "holds (wr m (addr b (p + length t)) (c # 0 # cs)) b p t"
    using assms by (subst holds_wr_other) auto
  ultimately have "holds (wr m (addr b (p + length t)) (c # 0 # cs)) b p (t @ [c, 0])"
    by (simp only: holds_append)
  then show ?thesis using assms(2,3) by (simp add: holds_str_iff)
qed

lemma addr_zero: "addr 0 n = of_nat n"
  by (simp add: addr_def)

lemma holds_strcpy_other:
  "p + length xs < 2 ^ 60 \<Longrightarrow> q + length s < 2 ^ 59 \<Longrightarrow> p + length xs \<le> q \<or> q + length s < p \<Longrightarrow>
   holds (strcpy_mem m (addr b q) s) b p xs \<longleftrightarrow> holds m b p xs"
  unfolding strcpy_mem_def by (rule holds_wr_other) auto

lemma rd32_wr64 [simp]: "p < 2 ^ 59 \<Longrightarrow> rd32 (wr64 m (addr b p) v) (addr b p) = ucast v"
  by (simp add: rd32_addr wr64_def wr_addr le64_nth)
    (rule bit_word_eqI, auto simp: bit_be32 bit_byte_at bit_ucast_iff)

end
