(* ===== verification/Arch64_Boot.thy ===== *)
theory Arch64_Boot
  imports Boot_Mem
begin

text \<open>
  The loaders for 64-bit ARM, RISC-V and LoongArch kernels, \<^verbatim>\<open>boot/Arch32/aarch64.c\<close>, \<^verbatim>\<open>riscv64.c\<close> and
  \<^verbatim>\<open>loongarch64.c\<close>. The three files have the same code with other addresses, which the record \<open>arch64\<close> collects.
\<close>

section \<open>The platforms\<close>

text \<open>Offset and value of the magic number; where the kernel goes and where the device tree is supposed to be,
  which depends on the size of the kernel on ARM; the gap before the ram disk; the address and the size of the
  parameters, the values of its last fields.\<close>

record arch64 =
  magic_off :: nat
  magic_val :: u32
  load_at :: u64
  dtb_at :: "u64 \<Rightarrow> u64"
  initrd_gap :: u64
  params_at :: u64
  params_len :: nat
  mem_start :: u64
  mem_size :: u64
  last_fields :: "u64 \<Rightarrow> u64 list"

text \<open>On ARM the address of the parameters is computed on a pointer to a structure of 72 bytes.\<close>

definition aarch64 :: arch64 where
  "aarch64 = \<lparr>magic_off = 56, magic_val = 0x644D5241, load_at = 0x40000000, dtb_at = (\<lambda>n. 0x40000000 + n), initrd_gap = 0x10000,
     params_at = 0x40000000 - 0x1000 * 72, params_len = 72, mem_start = 0x40000000, mem_size = 0x80000000,
     last_fields = (\<lambda>dtb. [])\<rparr>"

definition riscv64 :: arch64 where
  "riscv64 = \<lparr>magic_off = 64, magic_val = 0x56435352, load_at = 0x80200000, dtb_at = (\<lambda>n. 0x82000000), initrd_gap = 0x100000,
     params_at = 0x80000000, params_len = 88, mem_start = 0x80000000, mem_size = 0x80000000,
     last_fields = (\<lambda>dtb. [0, dtb])\<rparr>"

definition loongarch64 :: arch64 where
  "loongarch64 = \<lparr>magic_off = 64, magic_val = 0x4C4F4F4E, load_at = 0x9000000000200000, dtb_at = (\<lambda>n. 0x9000000000300000),
     initrd_gap = 0x100000, params_at = 0x9000000000100000, params_len = 88, mem_start = 0x9000000000000000,
     mem_size = 0x800000000, last_fields = (\<lambda>dtb. [0, 0])\<rparr>"

section \<open>The loader\<close>

fun wr64s :: "mem \<Rightarrow> u64 \<Rightarrow> u64 list \<Rightarrow> mem" where
  "wr64s m a [] = m"
| "wr64s m a (v # vs) = wr64s (wr64 m a v) (a + 8) vs"

definition arch64_params ::
  "arch64 \<Rightarrow> mem \<Rightarrow> u64 \<Rightarrow> u64 \<times> u64 \<Rightarrow> u64 \<times> u64 \<Rightarrow> u64 \<Rightarrow> mem" where
  "arch64_params A m dtb initrd cmd n =
     wr64s (wr m (params_at A) (replicate (params_len A) 0)) (params_at A)
       ([dtb, fst initrd, snd initrd, fst cmd, snd cmd, load_at A, n, mem_start A, mem_size A] @ last_fields A dtb)"

definition arch64_initrd :: "file_loader \<Rightarrow> mem \<Rightarrow> u8 list ptr \<Rightarrow> u64 \<Rightarrow> ((u64 \<times> u64) \<times> mem) cmem" where
  "arch64_initrd load_file m initrd_path a =
     (if has_text initrd_path then
        (case load_file (the initrd_path) of
           None \<Rightarrow> Some ((0, 0), m)
         | Some (d, n) \<Rightarrow> map_option (Pair (a, ucast n)) (copy_in m a d 0 (unat n)))
      else Some ((0, 0), m))"

definition arch64_cmdline :: "mem \<Rightarrow> u8 list ptr \<Rightarrow> u64 \<Rightarrow> (u64 \<times> u64) \<times> mem" where
  "arch64_cmdline m cmdline a =
     (if has_text cmdline then ((a, of_nat (length (the cmdline)) + 1), strcpy_mem m a (the cmdline)) else ((0, 0), m))"

definition arch64_boot_linux ::
  "arch64 \<Rightarrow> file_loader \<Rightarrow> mem \<Rightarrow> u8 list \<Rightarrow> u64 \<Rightarrow> u8 list ptr \<Rightarrow> u8 list ptr \<Rightarrow> boot_outcome cmem" where
  "arch64_boot_linux A load_file m data n initrd_path cmdline =
     (let dtb = dtb_at A n in
      case arch64_initrd load_file m initrd_path (dtb + initrd_gap A) of
        None \<Rightarrow> None
      | Some (initrd, m1) \<Rightarrow>
          let (cmd, m2) = arch64_cmdline m1 cmdline (fst initrd + snd initrd + 0x1000) in
          (case copy_in m2 (load_at A) data 0 (unat n) of
             None \<Rightarrow> None
           | Some m3 \<Rightarrow>
               if length data < 16 then None
               else Some (Boot_Jump (load_at A + (push_bit 32 (ucast (le32_at data 12)) OR ucast (le32_at data 8)))
                      [0, dtb, params_at A] (arch64_params A m3 dtb initrd cmd n))))"

text \<open>The variant for a kernel with its own firmware interface: no ram disk, and the kernel is entered at its
  first byte.\<close>

definition arch64_boot_firmware :: "arch64 \<Rightarrow> mem \<Rightarrow> u8 list \<Rightarrow> u64 \<Rightarrow> u8 list ptr \<Rightarrow> boot_outcome cmem" where
  "arch64_boot_firmware A m data n cmdline =
     (let dtb = dtb_at A n; (cmd, m1) = arch64_cmdline m cmdline (dtb + initrd_gap A) in
      case copy_in m1 (load_at A) data 0 (unat n) of
        None \<Rightarrow> None
      | Some m2 \<Rightarrow> Some (Boot_Jump (load_at A) [0, dtb, params_at A] (arch64_params A m2 dtb (0, 0) cmd n)))"

definition arch64_load_kernel ::
  "arch64 \<Rightarrow> file_loader \<Rightarrow> mem \<Rightarrow> u8 list \<Rightarrow> u8 list ptr \<Rightarrow> u8 list ptr \<Rightarrow> boot_outcome cmem" where
  "arch64_load_kernel A load_file m kernel_path initrd_path cmdline =
     (case load_file kernel_path of
        None \<Rightarrow> Some (Boot_Failed (-1))
      | Some (data, size32) \<Rightarrow> do {
          magic \<leftarrow> peek32 data (magic_off A);
          if magic = magic_val A then arch64_boot_linux A load_file m data (ucast size32) initrd_path cmdline
          else Some (Boot_Failed (-1))
        })"

definition arch64_verify_kernel :: "arch64 \<Rightarrow> file_loader \<Rightarrow> u8 list \<Rightarrow> int cmem" where
  "arch64_verify_kernel A load_file kernel_path =
     (case load_file kernel_path of
        None \<Rightarrow> Some (-1)
      | Some (data, n) \<Rightarrow> map_option (\<lambda>w. if w = magic_val A then 0 else -1) (peek32 data (magic_off A)))"

section \<open>The three loaders\<close>

definition aarch64_load_kernel where "aarch64_load_kernel = arch64_load_kernel aarch64"
definition aarch64_boot_linux where "aarch64_boot_linux = arch64_boot_linux aarch64"
definition aarch64_boot_uefi where "aarch64_boot_uefi = arch64_boot_firmware aarch64"
definition aarch64_verify_kernel where "aarch64_verify_kernel = arch64_verify_kernel aarch64"

definition riscv64_load_kernel where "riscv64_load_kernel = arch64_load_kernel riscv64"
definition riscv64_boot_linux where "riscv64_boot_linux = arch64_boot_linux riscv64"
definition riscv64_boot_opensbi where "riscv64_boot_opensbi = arch64_boot_firmware riscv64"
definition riscv64_verify_kernel where "riscv64_verify_kernel = arch64_verify_kernel riscv64"

definition loongarch64_load_kernel where "loongarch64_load_kernel = arch64_load_kernel loongarch64"
definition loongarch64_boot_linux where "loongarch64_boot_linux = arch64_boot_linux loongarch64"
definition loongarch64_boot_uefi where "loongarch64_boot_uefi = arch64_boot_firmware loongarch64"
definition loongarch64_verify_kernel where "loongarch64_verify_kernel = arch64_verify_kernel loongarch64"

section \<open>The parameters\<close>

lemma wr64s_other_byte:
  "p + 8 * length vs < 2 ^ 58 \<Longrightarrow> q < 2 ^ 58 \<Longrightarrow> q < p \<or> p + 8 * length vs \<le> q \<Longrightarrow>
   wr64s m (addr b p) vs (addr b q) = m (addr b q)"
proof (induction vs arbitrary: m p)
  case (Cons v vs)
  have "wr64s (wr64 m (addr b p) v) (addr b (p + 8)) vs (addr b q) = wr64 m (addr b p) v (addr b q)"
    using Cons.prems by (intro Cons.IH) auto
  moreover have "wr64 m (addr b p) v (addr b q) = m (addr b q)"
    unfolding wr64_def using Cons.prems by (intro wr_byte_other) auto
  ultimately show ?case by simp
qed simp

lemma holds_wr64s_other [simp]:
  "p + 8 * length vs < 2 ^ 58 \<Longrightarrow> q + length xs < 2 ^ 58 \<Longrightarrow> p + 8 * length vs \<le> q \<Longrightarrow>
   holds (wr64s m (addr b p) vs) b q xs \<longleftrightarrow> holds m b q xs"
  by (simp add: holds_def wr64s_other_byte)

lemma rd64_wr64s:
  "i < length vs \<Longrightarrow> p + 8 * length vs < 2 ^ 58 \<Longrightarrow> rd64 (wr64s m (addr b p) vs) (addr b (p + 8 * i)) = vs ! i"
proof (induction vs arbitrary: m p i)
  case (Cons v vs)
  show ?case
  proof (cases i)
    case 0
    have "rd64 (wr64s (wr64 m (addr b p) v) (addr b (p + 8)) vs) (addr b p) = rd64 (wr64 m (addr b p) v) (addr b p)"
      using Cons.prems by (intro rd64_cong wr64s_other_byte) auto
    then show ?thesis using 0 Cons.prems by simp
  next
    case (Suc j)
    then show ?thesis using Cons.IH [of j "p + 8" "wr64 m (addr b p) v"] Cons.prems by (simp add: algebra_simps)
  qed
qed simp

declare wr64s.simps [simp del]

section \<open>Layout\<close>

text \<open>Where kernel and ram disk are, as distances from the parameters.\<close>

locale arch64_layout =
  fixes A :: arch64 and K :: nat and I :: "nat \<Rightarrow> nat"
  assumes load: "load_at A = addr (params_at A) K"
    and ramdisk: "n < 2 ^ 32 \<Longrightarrow> dtb_at A (of_nat n) + initrd_gap A = addr (params_at A) (I n)"
    and fields: "params_len A = 8 * (9 + length (last_fields A dtb))"
    and room: "params_len A \<le> K" "K < 2 ^ 40" "n < 2 ^ 32 \<Longrightarrow> params_len A \<le> I n" "n < 2 ^ 32 \<Longrightarrow> I n < 2 ^ 40"
begin

lemma params_keep:
  assumes "params_len A \<le> q" and "q + length xs < 2 ^ 50"
  shows "holds (arch64_params A m dtb initrd cmd n) (params_at A) q xs \<longleftrightarrow> holds m (params_at A) q xs"
proof -
  have a: "params_at A = addr (params_at A) 0" by (simp add: addr_def)
  have "params_len A < 2 ^ 40" using room(1,2) by simp
  then show ?thesis
    unfolding arch64_params_def using assms fields [of dtb]
    by (subst (1 2) a) (simp add: holds_wr_other)
qed

lemma params_field:
  assumes "i < 9"
  shows "rd64 (arch64_params A m dtb initrd cmd n) (addr (params_at A) (8 * i)) =
    [dtb, fst initrd, snd initrd, fst cmd, snd cmd, load_at A, n, mem_start A, mem_size A] ! i"
proof -
  define hs where "hs = [dtb, fst initrd, snd initrd, fst cmd, snd cmd, load_at A, n, mem_start A, mem_size A]"
  have hs: "length hs = 9" by (simp add: hs_def)
  have "params_len A < 2 ^ 40" using room(1,2) by simp
  then have "rd64 (wr64s m' (addr (params_at A) 0) (hs @ last_fields A dtb)) (addr (params_at A) (0 + 8 * i)) = (hs @ last_fields A dtb) ! i" for m'
    using assms fields [of dtb] hs by (intro rd64_wr64s) simp_all
  then show ?thesis using assms hs by (simp add: arch64_params_def hs_def [symmetric] addr_def nth_append)
qed

lemma boot_eq:
  assumes "lf ip = Some (d, of_nat (length d))" and "ip \<noteq> []" and "s \<noteq> []" and "16 \<le> length data"
    and "length data < 2 ^ 32" and "length d < 2 ^ 32"
  shows "arch64_boot_linux A lf m data (of_nat (length data)) (Some ip) (Some s) =
    Some (Boot_Jump (load_at A + (push_bit 32 (ucast (le32_at data 12)) OR ucast (le32_at data 8)))
      [0, dtb_at A (of_nat (length data)), params_at A]
      (arch64_params A (wr (strcpy_mem (wr m (addr (params_at A) (I (length data))) d) (addr (params_at A) (I (length data) + length d + 0x1000)) s)
          (addr (params_at A) K) data) (dtb_at A (of_nat (length data)))
        (addr (params_at A) (I (length data)), of_nat (length d)) (addr (params_at A) (I (length data) + length d + 0x1000), of_nat (length s) + 1)
        (of_nat (length data))))"
proof -
  have n: "unat (of_nat (length data) :: u64) = length data" using assms(5) by (intro unat_of_nat_small) simp
  have d: "unat (of_nat (length d) :: u32) = length d" using assms(6) by (intro unat_of_nat_small) simp
  have c: "(ucast (of_nat (length d) :: u32) :: u64) = of_nat (length d)" by (simp only: ucast_of_nat_unat d)
  have e: "addr (params_at A) (I (length data)) + of_nat (length d) + 0x1000 = addr (params_at A) (I (length data) + length d + 0x1000)"
    by (simp add: addr_def)
  show ?thesis
    unfolding arch64_boot_linux_def Let_def ramdisk [OF assms(5)]
    using assms(1-4) n d c e
    by (simp add: arch64_initrd_def arch64_cmdline_def copy_in_def load)
qed

lemma placed:
  assumes "lf ip = Some (d, of_nat (length d))" and "ip \<noteq> []" and "s \<noteq> []" and "16 \<le> length data"
    and "length data < 2 ^ 32" and "length d < 2 ^ 32" and "length s < 2 ^ 40" and "0 \<notin> set s"
    and "K + length data \<le> I (length data)"
  shows "\<exists>m'. arch64_boot_linux A lf m data (of_nat (length data)) (Some ip) (Some s) =
      Some (Boot_Jump (load_at A + (push_bit 32 (ucast (le32_at data 12)) OR ucast (le32_at data 8)))
        [0, dtb_at A (of_nat (length data)), params_at A] m') \<and>
    holds m' (params_at A) K data \<and> holds m' (params_at A) (I (length data)) d \<and>
    holds_str m' (rd64 m' (addr (params_at A) 24)) s \<and> rd64 m' (addr (params_at A) 8) = addr (params_at A) (I (length data)) \<and>
    rd64 m' (addr (params_at A) 16) = of_nat (length d)"
proof -
  let ?b = "params_at A" and ?i = "I (length data)" let ?c = "?i + length d + 0x1000"
  let ?m = "wr (strcpy_mem (wr m (addr ?b ?i) d) (addr ?b ?c) s) (addr ?b K) data"
  note r = room(1,2) room(3,4) [OF assms(5)]
  have k: "holds ?m ?b K data" using assms(5) r by (intro holds_wr) simp
  have "holds (wr m (addr ?b ?i) d) ?b ?i d" using assms(6) r by (intro holds_wr) simp
  then have d: "holds ?m ?b ?i d" using assms r by (simp add: holds_wr_other holds_strcpy_other)
  have "holds (strcpy_mem (wr m (addr ?b ?i) d) (addr ?b ?c) s) ?b ?c (s @ [0])" using assms r by (intro holds_strcpy) simp
  then have s: "holds ?m ?b ?c (s @ [0])" using assms r by (subst holds_wr_other) simp_all
  let ?m' = "arch64_params A ?m (dtb_at A (of_nat (length data))) (addr ?b ?i, of_nat (length d)) (addr ?b ?c, of_nat (length s) + 1) (of_nat (length data))"
  have "holds ?m' ?b K data" "holds ?m' ?b ?i d" "holds_str ?m' (addr ?b ?c) s"
    using k d s assms r by (simp_all add: params_keep holds_str_iff)
  then show ?thesis
    unfolding boot_eq [of lf ip d s data, OF assms(1-6)] using params_field [of 1] params_field [of 2] params_field [of 3] by simp
qed

lemma overwritten:
  assumes "lf ip = Some (d, of_nat (length d))" and "ip \<noteq> []" and "s \<noteq> []" and "16 \<le> length data"
    and "length data < 2 ^ 32" and "length d < 2 ^ 32" and "K \<le> I (length data)" and "I (length data) \<le> K + length data"
  shows "\<exists>m'. arch64_boot_linux A lf m data (of_nat (length data)) (Some ip) (Some s) =
      Some (Boot_Jump (load_at A + (push_bit 32 (ucast (le32_at data 12)) OR ucast (le32_at data 8)))
        [0, dtb_at A (of_nat (length data)), params_at A] m') \<and>
    rd64 m' (addr (params_at A) 8) = addr (params_at A) (I (length data)) \<and>
    holds m' (params_at A) (I (length data)) (drop (I (length data) - K) data)"
proof -
  let ?b = "params_at A" and ?i = "I (length data)" let ?c = "?i + length d + 0x1000" and ?j = "I (length data) - K"
  let ?m = "wr (strcpy_mem (wr m (addr ?b ?i) d) (addr ?b ?c) s) (addr ?b K) data"
  note r = room(1,2) room(3,4) [OF assms(5)]
  have "holds ?m ?b K (take ?j data @ drop ?j data)" using assms(5) r by (simp only: append_take_drop_id) (intro holds_wr, simp)
  moreover have "K + length (take ?j data) = ?i" using assms(7,8) by simp
  ultimately have "holds ?m ?b ?i (drop ?j data)" by (simp only: holds_append)
  then have "holds (arch64_params A ?m dtb x y n) ?b ?i (drop ?j data)" for dtb x y n
    using r assms(5) by (simp add: params_keep)
  then show ?thesis unfolding boot_eq [of lf ip d s data, OF assms(1-6)] using params_field [of 1] by simp
qed

end

interpretation arm: arch64_layout aarch64 "0x48000" "\<lambda>n. 0x48000 + n + 0x10000"
  by unfold_locales (simp_all add: aarch64_def addr_def)

interpretation rv: arch64_layout riscv64 "0x200000" "\<lambda>n. 0x2100000"
  by unfold_locales (simp_all add: riscv64_def addr_def)

interpretation loong: arch64_layout loongarch64 "0x100000" "\<lambda>n. 0x300000"
  by unfold_locales (simp_all add: loongarch64_def addr_def)


section \<open>Properties\<close>



text \<open>The loader for LoongArch copies the kernel after the initial ram disk, which it puts two megabytes
  behind the start of the kernel. When the kernel is longer than that, its bytes replace those of the ram disk,
  and the parameters still give that address.\<close>

lemma loongarch64_kernel_overwrites_initrd:
  assumes "lf ip = Some (d, of_nat (length d))" and "ip \<noteq> []" and "s \<noteq> []"
    and "0x200000 \<le> length data" and "length data < 2 ^ 32" and "length d < 2 ^ 32"
  shows "\<exists>m'. loongarch64_boot_linux lf m data (of_nat (length data)) (Some ip) (Some s) =
      Some (Boot_Jump (0x9000000000200000 + (push_bit 32 (ucast (le32_at data 12)) OR ucast (le32_at data 8))) [0, 0x9000000000300000, 0x9000000000100000] m') \<and>
    rd64 m' (addr 0x9000000000100000 8) = 0x9000000000400000 \<and>
    holds m' 0x9000000000100000 0x300000 (drop 0x200000 data)"
  using loong.overwritten [of lf ip d s data m] assms by (simp add: loongarch64_boot_linux_def loongarch64_def addr_def)

end
