(* ===== verification/Chainload.thy ===== *)
theory Chainload
  imports Boot_Mem
begin

text \<open>
  Starting another boot loader, \<^verbatim>\<open>boot/Arch32/chainload.c\<close>: from a partition of the master boot record or of a GUID
  partition table, from a file and from an ISO image. The structures are laid out as they are declared, without
  packing: the partitions of the boot record start at 448 and its signature is at 512. \<open>read_sector\<close> is declared
  \<open>extern\<close>; for a sector it yields a code and the bytes it stores.
\<close>

section \<open>Reading fields\<close>

type_synonym sector_io = "u32 \<Rightarrow> int \<times> u8 list"

definition peek16 :: "u8 list \<Rightarrow> nat \<Rightarrow> u16 cmem" where
  "peek16 b i = (if i + 2 \<le> length b then Some (le16_at b i) else None)"

definition le64_at :: "u8 list \<Rightarrow> nat \<Rightarrow> u64" where
  "le64_at b i = push_bit 32 (ucast (le32_at b (i + 4))) OR ucast (le32_at b i)"

definition peek64 :: "u8 list \<Rightarrow> nat \<Rightarrow> u64 cmem" where
  "peek64 b i = (if i + 8 \<le> length b then Some (le64_at b i) else None)"

text \<open>Reading a sector into an array of 512 bytes.\<close>

definition sector_into :: "sector_io \<Rightarrow> u32 \<Rightarrow> (int \<times> u8 list) cmem" where
  "sector_into io lba =
     map_option (Pair (fst (io lba))) (memcpy (replicate 512 0) 0 (snd (io lba)) 0 (length (snd (io lba))))"

definition boot_signature :: "u8 list \<Rightarrow> bool cmem" where
  "boot_signature b =
     (if 512 \<le> length b then Some (b ! 510 = 0x55 \<and> b ! 511 = 0xAA) else None)"

section \<open>The loaders\<close>

text \<open>The end of the partition loaders: the first sector of the partition is checked, copied and started.\<close>

definition start_sector :: "sector_io \<Rightarrow> mem \<Rightarrow> u32 \<Rightarrow> boot_outcome cmem" where
  "start_sector io m lba =
     (case sector_into io lba of
        None \<Rightarrow> None
      | Some (r, boot_sector) \<Rightarrow>
          if r \<noteq> 0 then Some (Boot_Failed (-1))
          else (case boot_signature boot_sector of
                  None \<Rightarrow> None
                | Some ok \<Rightarrow> Some (if ok then Boot_Jump 0x7C00 [] (wr m 0x7C00 boot_sector) else Boot_Failed (-1))))"

definition chainload_mbr :: "sector_io \<Rightarrow> mem \<Rightarrow> int \<Rightarrow> boot_outcome cmem" where
  "chainload_mbr io m part_no = do {
     (r, mbr_data) \<leftarrow> sector_into io 0;
     if r \<noteq> 0 then Some (Boot_Failed (-1))
     else do {
       signature \<leftarrow> peek16 mbr_data 512;
       if signature \<noteq> 0xAA55 then Some (Boot_Failed (-1))
       else if part_no < 0 \<or> 4 \<le> part_no then Some (Boot_Failed (-1))
       else do {
         let part = 448 + 16 * nat part_no;
         status \<leftarrow> peek mbr_data part;
         type \<leftarrow> peek mbr_data (part + 4);
         if status \<noteq> 0x80 \<and> status \<noteq> 0x00 then Some (Boot_Failed (-1))
         else if type = 0x00 then Some (Boot_Failed (-1))
         else do {
           lba_start \<leftarrow> peek32 mbr_data (part + 8);
           start_sector io m lba_start
         }
       }
     }
   }"

definition chainload_file :: "file_loader \<Rightarrow> mem \<Rightarrow> u8 list \<Rightarrow> boot_outcome cmem" where
  "chainload_file load_file m bootloader_path =
     (case load_file bootloader_path of
        None \<Rightarrow> Some (Boot_Failed (-1))
      | Some (data, n) \<Rightarrow>
          if n < 512 then Some (Boot_Failed (-1))
          else do {
            ok \<leftarrow> boot_signature data;
            if \<not> ok then Some (Boot_Failed (-1))
            else do {
              m1 \<leftarrow> copy_in m 0x7C00 data 0 512;
              m2 \<leftarrow> (if 512 < n then copy_in m1 0x1000 data 512 (unat (n - 512)) else Some m1);
              Some (Boot_Jump 0x7C00 [] m2)
            }
          })"

text \<open>The number of the partition is multiplied and compared as an unsigned 32-bit number; sector numbers are
  cut to 32 bits.\<close>

definition chainload_gpt :: "sector_io \<Rightarrow> mem \<Rightarrow> int \<Rightarrow> boot_outcome cmem" where
  "chainload_gpt io m part_no = do {
     (r, hdr) \<leftarrow> sector_into io 1;
     if r \<noteq> 0 then Some (Boot_Failed (-1))
     else do {
       signature \<leftarrow> peek64 hdr 0;
       if signature \<noteq> 0x5452415020494645 then Some (Boot_Failed (-1))
       else do {
         num \<leftarrow> peek32 hdr 80;
         if part_no < 0 \<or> num \<le> of_int part_no then Some (Boot_Failed (-1))
         else do {
           partition_entry_lba \<leftarrow> peek64 hdr 72;
           entry_size \<leftarrow> peek32 hdr 84;
           let pos = of_int part_no * entry_size;
               entry_lba = ucast (partition_entry_lba + ucast (pos div 512)) :: u32;
               entry_offset = unat (pos mod 512)
           in do {
             (r, entry) \<leftarrow> sector_into io entry_lba;
             if r \<noteq> 0 then Some (Boot_Failed (-1))
             else do {
               starting_lba \<leftarrow> peek64 entry (entry_offset + 32);
               if starting_lba = 0 then Some (Boot_Failed (-1))
               else do {
                 ending_lba \<leftarrow> peek64 entry (entry_offset + 40);
                 if ending_lba = 0 then Some (Boot_Failed (-1))
                 else start_sector io m (ucast starting_lba)
               }
             }
           }
         }
       }
     }
   }"

definition chainload_iso :: "file_loader \<Rightarrow> mem \<Rightarrow> u8 list \<Rightarrow> boot_outcome cmem" where
  "chainload_iso load_file m iso_path =
     (case load_file iso_path of
        None \<Rightarrow> Some (Boot_Failed (-1))
      | Some (data, n) \<Rightarrow>
          if n < 32768 then Some (Boot_Failed (-1))
          else (case memcpy (replicate 2048 0) 0 data (16 * 2048) 2048 of
                  None \<Rightarrow> None
                | Some boot_sector \<Rightarrow>
                    if take 5 (drop 1 boot_sector) \<noteq> map (of_nat \<circ> of_char) ''CD001'' then Some (Boot_Failed (-1))
                    else Some (Boot_Jump 0x7C00 [] (wr m 0x7C00 boot_sector))))"

text \<open>The tests for the names of known loaders do not change the result.\<close>

definition chainload_verify_bootloader :: "file_loader \<Rightarrow> u8 list \<Rightarrow> int cmem" where
  "chainload_verify_bootloader load_file bootloader_path =
     (case load_file bootloader_path of
        None \<Rightarrow> Some (-1)
      | Some (data, n) \<Rightarrow>
          if n < 512 then Some (-1)
          else map_option (\<lambda>ok. if ok then 0 else -1) (boot_signature data))"

definition boot_chainload_kernel :: "mem \<Rightarrow> u8 list \<Rightarrow> u32 \<Rightarrow> boot_outcome cmem" where
  "boot_chainload_kernel m data n =
     (case copy_in m 0x7C00 data 0 (unat n) of
        None \<Rightarrow> None
      | Some m1 \<Rightarrow> Some (Boot_Jump 0x7C00 [] m1))"

section \<open>Partitions\<close>

lemma sector_into_eq:
  assumes "snd (io lba) = b" and "length b = 512"
  shows "sector_into io lba = Some (fst (io lba), b)"
  using assms by (simp add: sector_into_def memcpy_def)

text \<open>The loader for the master boot record never gets as far as a partition: the signature field of its
  structure lies behind the 512 bytes of the sector, so as soon as the sector has been read, the program reads
  outside the array.\<close>

lemma chainload_mbr_reads_outside:
  assumes "io 0 = (r, sec)" and "length sec = 512"
  shows "chainload_mbr io m part_no = (if r = 0 then None else Some (Boot_Failed (-1)))"
  using sector_into_eq [of io 0 sec] assms by (simp add: chainload_mbr_def peek16_def)


definition gpt_sample :: sector_io where
  "gpt_sample l =
     (0, if l = 1 then map (of_nat \<circ> of_char) ''EFI PART'' @ replicate 64 0 @ [2] @ replicate 7 0 @ [4, 0, 0, 0, 128] @ replicate 427 0
         else if l = 2 then replicate 160 0 @ [9] @ replicate 7 0 @ [20] @ replicate 343 0
         else replicate 510 (ucast l) @ [0x55, 0xAA])"


end
