(* ===== verification/Multiboot.thy ===== *)
theory Multiboot
  imports Boot_Mem
begin

text \<open>
  The Multiboot loaders, \<^verbatim>\<open>boot/Arch32/multiboot1.c\<close> and \<^verbatim>\<open>boot/Arch32/multiboot2.c\<close>. Structures are laid out as for
  x86-64: a memory map entry of Multiboot 1 takes 32 bytes, the information structure 88. The file buffer is
  apart from the memory the loaders write.
\<close>

section \<open>Multiboot 1\<close>

record mb_addrs =
  mb_load_addr :: u32
  mb_load_end_addr :: u32
  mb_bss_end_addr :: u32
  mb_entry_addr :: u32

definition mb_no_addrs :: mb_addrs where
  "mb_no_addrs = \<lparr>mb_load_addr = 0, mb_load_end_addr = 0, mb_bss_end_addr = 0, mb_entry_addr = 0\<rparr>"

fun mb1_scan :: "u8 list \<Rightarrow> nat list \<Rightarrow> mb_addrs \<Rightarrow> mb_addrs cmem" where
  "mb1_scan data [] h = Some h"
| "mb1_scan data (i # is) h =
     (case peek32 data (4 * i) of
        None \<Rightarrow> None
      | Some w \<Rightarrow>
          if w = 1 then
            (case (peek32 data (4 * (i + 1)), peek32 data (4 * (i + 2)), peek32 data (4 * (i + 3))) of
               (Some a, Some b, Some c) \<Rightarrow>
                 mb1_scan data is (h\<lparr>mb_load_addr := a, mb_load_end_addr := b, mb_bss_end_addr := c\<rparr>)
             | _ \<Rightarrow> None)
          else if w = 3 then
            (case peek32 data (4 * (i + 1)) of
               None \<Rightarrow> None
             | Some a \<Rightarrow> mb1_scan data is (h\<lparr>mb_entry_addr := a\<rparr>))
          else mb1_scan data is h)"

text \<open>The defaults, the copy of the kernel and the clearing of its zero data, shared by both versions.\<close>

definition mb_defaults :: "mb_addrs \<Rightarrow> mb_addrs" where
  "mb_defaults h =
     (let load = (if mb_load_addr h = 0 then 0x100000 else mb_load_addr h);
          entry = (if mb_entry_addr h = 0 then load else mb_entry_addr h)
      in h\<lparr>mb_load_addr := load, mb_entry_addr := entry\<rparr>)"

definition mb_place :: "mem \<Rightarrow> mb_addrs \<Rightarrow> u8 list \<Rightarrow> u32 \<Rightarrow> mem cmem" where
  "mb_place m h data kernel_size =
     (let d = mb_load_end_addr h - mb_load_addr h;
          load_size = (if kernel_size < d then kernel_size else d)
      in case copy_in m (ucast (mb_load_addr h)) data 0 (unat load_size) of
           None \<Rightarrow> None
         | Some m1 \<Rightarrow>
             Some (if mb_load_end_addr h < mb_bss_end_addr h
                   then wr m1 (ucast (mb_load_end_addr h))
                          (replicate (unat (mb_bss_end_addr h - mb_load_end_addr h)) 0)
                   else m1))"

definition mb1_mmap_entry :: "mem \<Rightarrow> u64 \<Rightarrow> u64 \<Rightarrow> u64 \<Rightarrow> mem" where
  "mb1_mmap_entry m a base len = wr32 (wr64 (wr64 (wr32 m a 28) (a + 8) base) (a + 16) len) (a + 24) 1"

definition mb1_info :: "mem \<Rightarrow> u8 list ptr \<Rightarrow> mem" where
  "mb1_info m cmdline =
     (let m1 = wr m 0x90000 (replicate 88 0);
          m2 = wr32 m1 0x90000 (1 OR 4 OR 2);
          m3 = wr32 m2 0x90004 640;
          m4 = wr32 m3 0x90008 0x7FE00;
          m5 = (if has_text cmdline then wr32 (strcpy_mem m4 0x90020 (the cmdline)) 0x90010 0x90020 else m4);
          m6 = wr32 m5 0x9000C 0x8000;
          m7 = mb1_mmap_entry m6 0x90100 0 0x100000;
          m8 = mb1_mmap_entry m7 0x90120 0x100000 0x7FF00000;
          m9 = wr32 m8 0x9002C 64
      in wr32 m9 0x90030 0x90100)"

definition multiboot1_load_kernel :: "file_loader \<Rightarrow> mem \<Rightarrow> u8 list \<Rightarrow> u8 list ptr \<Rightarrow> boot_outcome cmem" where
  "multiboot1_load_kernel load_file m kernel_path cmdline =
     (case load_file kernel_path of
        None \<Rightarrow> Some (Boot_Failed (-1))
      | Some (data, kernel_size) \<Rightarrow> do {
          magic \<leftarrow> peek32 data 0;
          if magic \<noteq> 0x1BADB002 then Some (Boot_Failed (-1))
          else do {
            h0 \<leftarrow> mb1_scan data [1..<8] mb_no_addrs;
            let h = mb_defaults h0;
            m1 \<leftarrow> mb_place m h data kernel_size;
            Some (Boot_Jump (ucast (mb_entry_addr h)) [0x2BADB002, 0x90000] (mb1_info m1 cmdline))
          }
        })"

fun sum_words :: "u8 list \<Rightarrow> nat \<Rightarrow> u32 cmem" where
  "sum_words data 0 = Some 0"
| "sum_words data (Suc n) =
     (case sum_words data n of
        None \<Rightarrow> None
      | Some s \<Rightarrow> (case peek32 data (4 * n) of None \<Rightarrow> None | Some w \<Rightarrow> Some (s + w)))"

definition multiboot1_verify_kernel :: "file_loader \<Rightarrow> u8 list \<Rightarrow> int cmem" where
  "multiboot1_verify_kernel load_file kernel_path =
     (case load_file kernel_path of
        None \<Rightarrow> Some (-1)
      | Some (data, kernel_size) \<Rightarrow> do {
          magic \<leftarrow> peek32 data 0;
          if magic \<noteq> 0x1BADB002 then Some (-1)
          else do {
            checksum \<leftarrow> sum_words data 8;
            Some (if checksum \<noteq> 0 then -1 else 0)
          }
        })"

text \<open>The number of modules is a static variable.\<close>

definition multiboot1_load_module ::
  "file_loader \<Rightarrow> mem \<Rightarrow> u32 \<Rightarrow> u8 list \<Rightarrow> u8 list ptr \<Rightarrow> (int \<times> mem \<times> u32) cmem" where
  "multiboot1_load_module load_file m module_count module_path cmdline =
     (case load_file module_path of
        None \<Rightarrow> Some (-1, m, module_count)
      | Some (data, module_size) \<Rightarrow> do {
          m1 \<leftarrow> copy_in m 0x200000 data 0 (unat module_size);
          Some (let a = 0x90200 + scast module_count * 16;
                    m2 = wr32 m1 a 0x200000;
                    m3 = wr32 m2 (a + 4) (0x200000 + module_size);
                    str = 0x90300 + module_count * 64;
                    m4 = wr32 m3 (a + 8) str;
                    m5 = (if has_text cmdline then strcpy_mem m4 (ucast str) (the cmdline) else m4)
                in (0, m5, module_count + 1))
        })"

definition boot_multiboot1_kernel :: "mem \<Rightarrow> u8 list \<Rightarrow> u32 \<Rightarrow> u8 list ptr \<Rightarrow> boot_outcome cmem" where
  "boot_multiboot1_kernel m kernel_data kernel_size cmdline =
     (let m1 = wr m 0x1000 (replicate 88 0);
          m2 = wr32 m1 0x1000 (1 OR 4);
          m3 = wr32 m2 0x1004 640;
          m4 = wr32 m3 0x1008 0x7FE00;
          m5 = (if has_text cmdline then wr32 (strcpy_mem m4 0x2000 (the cmdline)) 0x1010 0x2000 else m4)
      in case copy_in m5 0x100000 kernel_data 0 (unat kernel_size) of
           None \<Rightarrow> None
         | Some m6 \<Rightarrow> Some (Boot_Jump 0x100000 [0x2BADB002, 0x1000] m6))"

section \<open>Multiboot 2\<close>

definition align8 :: "u32 \<Rightarrow> u32" where
  "align8 sz = (if sz mod 8 \<noteq> 0 then sz + (8 - sz mod 8) else sz)"

text \<open>The walk over the header tags; it need not end.\<close>

partial_function (option) mb2_scan :: "u8 list \<Rightarrow> u32 \<Rightarrow> u32 \<Rightarrow> mb_addrs \<Rightarrow> mb_addrs cmem" where
  "mb2_scan data kernel_size offset h =
     (if offset < kernel_size then
        (case peek32 data (unat offset) of
           None \<Rightarrow> None
         | Some type \<Rightarrow>
             if type = 0 then Some h
             else
               (case (if type = 2 then
                        (case (peek32 data (unat offset + 12), peek32 data (unat offset + 16), peek32 data (unat offset + 20)) of
                           (Some a, Some b, Some c) \<Rightarrow>
                             Some (h\<lparr>mb_load_addr := a, mb_load_end_addr := b, mb_bss_end_addr := c\<rparr>)
                         | _ \<Rightarrow> None)
                      else if type = 3 then
                        map_option (\<lambda>a. h\<lparr>mb_entry_addr := a\<rparr>) (peek32 data (unat offset + 8))
                      else Some h) of
                  None \<Rightarrow> None
                | Some h' \<Rightarrow>
                    (case peek32 data (unat offset + 4) of
                       None \<Rightarrow> None
                     | Some tag_size \<Rightarrow> mb2_scan data kernel_size (offset + align8 tag_size) h')))
      else Some h)"

text \<open>The tags are written one behind the other, each at a multiple of 8 from the first.\<close>

definition mb2_put_cmdline :: "mem \<Rightarrow> u32 \<Rightarrow> u8 list \<Rightarrow> mem \<times> u32" where
  "mb2_put_cmdline m off s =
     (let a = 0x90000 + ucast off; size = 8 + of_nat (length s) + 1;
          m1 = wr32 m a 1; m2 = wr32 m1 (a + 4) size; m3 = strcpy_mem m2 (a + 8) s
      in (m3, off + align8 size))"

definition mb2_put_meminfo :: "mem \<Rightarrow> u32 \<Rightarrow> mem \<times> u32" where
  "mb2_put_meminfo m off =
     (let a = 0x90000 + ucast off
      in (wr32 (wr32 (wr32 (wr32 m a 4) (a + 4) 16) (a + 8) 640) (a + 12) 0x7FE00, off + align8 16))"

definition mb2_put_bootdev :: "mem \<Rightarrow> u32 \<Rightarrow> mem \<times> u32" where
  "mb2_put_bootdev m off =
     (let a = 0x90000 + ucast off
      in (wr32 (wr32 (wr32 (wr32 (wr32 m a 5) (a + 4) 20) (a + 8) 0x80) (a + 12) 0) (a + 16) 0, off + align8 20))"

definition mb2_mmap_entry :: "mem \<Rightarrow> u64 \<Rightarrow> u64 \<Rightarrow> u64 \<Rightarrow> mem" where
  "mb2_mmap_entry m a base len = wr32 (wr32 (wr64 (wr64 m a base) (a + 8) len) (a + 16) 1) (a + 20) 0"

definition mb2_put_mmap :: "mem \<Rightarrow> u32 \<Rightarrow> mem \<times> u32" where
  "mb2_put_mmap m off =
     (let a = 0x90000 + ucast off;
          m1 = wr32 (wr32 (wr32 (wr32 m a 6) (a + 4) 64) (a + 8) 24) (a + 12) 0;
          m2 = mb2_mmap_entry m1 (a + 16) 0 0x100000;
          m3 = mb2_mmap_entry m2 (a + 40) 0x100000 0x7FF00000
      in (m3, off + align8 64))"

definition mb2_put_end :: "mem \<Rightarrow> u32 \<Rightarrow> mem \<times> u32" where
  "mb2_put_end m off = (let a = 0x90000 + ucast off in (wr32 (wr32 m a 0) (a + 4) 8, off + 8))"

definition mb2_info :: "mem \<Rightarrow> u8 list ptr \<Rightarrow> mem" where
  "mb2_info m cmdline =
     (let m0 = wr m 0x90000 (replicate 8 0);
          (m1, o1) = (if has_text cmdline then mb2_put_cmdline m0 8 (the cmdline) else (m0, 8));
          (m2, o2) = mb2_put_meminfo m1 o1;
          (m3, o3) = mb2_put_bootdev m2 o2;
          (m4, o4) = mb2_put_mmap m3 o3;
          (m5, o5) = mb2_put_end m4 o4
      in wr32 (wr32 m5 0x90000 o5) 0x90004 0)"

definition multiboot2_load_kernel :: "file_loader \<Rightarrow> mem \<Rightarrow> u8 list \<Rightarrow> u8 list ptr \<Rightarrow> boot_outcome cmem" where
  "multiboot2_load_kernel load_file m kernel_path cmdline =
     (case load_file kernel_path of
        None \<Rightarrow> Some (Boot_Failed (-1))
      | Some (data, kernel_size) \<Rightarrow> do {
          magic \<leftarrow> peek32 data 0;
          if magic \<noteq> 0xE85250D6 then Some (Boot_Failed (-1))
          else do {
            h0 \<leftarrow> mb2_scan data kernel_size 8 mb_no_addrs;
            let h = mb_defaults h0;
            m1 \<leftarrow> mb_place m h data kernel_size;
            Some (Boot_Jump (ucast (mb_entry_addr h)) [0x36D76289, 0x90000] (mb2_info m1 cmdline))
          }
        })"

definition multiboot2_verify_kernel :: "file_loader \<Rightarrow> u8 list \<Rightarrow> int cmem" where
  "multiboot2_verify_kernel load_file kernel_path =
     (case load_file kernel_path of
        None \<Rightarrow> Some (-1)
      | Some (data, kernel_size) \<Rightarrow> do {
          magic \<leftarrow> peek32 data 0;
          if magic \<noteq> 0xE85250D6 then Some (-1)
          else do {
            arch \<leftarrow> peek32 data 4;
            if arch \<noteq> 0 then Some (-1)
            else do {
              len \<leftarrow> peek32 data 8;
              if len < 8 \<or> kernel_size < len then Some (-1)
              else do {
                checksum \<leftarrow> sum_words data (unat (len div 4));
                Some (if checksum \<noteq> 0 then -1 else 0)
              }
            }
          }
        })"

text \<open>The structure for a kernel that is already in memory; the same code is in \<^verbatim>\<open>ia32.c\<close> and
  \<^verbatim>\<open>x86_64.c\<close>.\<close>

definition mb2_boot :: "mem \<Rightarrow> u8 list \<Rightarrow> nat \<Rightarrow> u8 list ptr \<Rightarrow> boot_outcome cmem" where
  "mb2_boot m kernel_data kernel_size cmdline =
     (let m1 = wr32 (wr32 m 0x1000 8) 0x1004 0;
          m2 = wr32 (wr32 (wr32 (wr32 m1 0x1008 4) 0x100C 16) 0x1010 640) 0x1014 0x7FE00;
          m3 = wr32 m2 0x1000 (8 + 16);
          (m4, a, total) =
            (if has_text cmdline then
               let s = the cmdline; size = 8 + of_nat (length s) + 1;
                   n1 = wr32 m3 0x1018 1; n2 = strcpy_mem n1 0x1020 s; n3 = wr32 n2 0x101C size
               in (wr32 n3 0x1000 (8 + 16 + size), 0x1018 + ucast size, 8 + 16 + size)
             else (m3, 0x1018, 8 + 16));
          m5 = wr32 (wr32 (wr32 m4 a 0) (a + 4) 8) 0x1000 (total + 8)
      in case copy_in m5 0x100000 kernel_data 0 kernel_size of
           None \<Rightarrow> None
         | Some m6 \<Rightarrow> Some (Boot_Jump 0x100000 [0x36D76289, 0x1000] m6))"

definition boot_multiboot2_kernel :: "mem \<Rightarrow> u8 list \<Rightarrow> u32 \<Rightarrow> u8 list ptr \<Rightarrow> boot_outcome cmem" where
  "boot_multiboot2_kernel m kernel_data kernel_size cmdline = mb2_boot m kernel_data (unat kernel_size) cmdline"

section \<open>The command line of Multiboot 1\<close>

lemma addr_90000:
  "0x90004 = addr 0x90000 4" "0x90008 = addr 0x90000 8" "0x9000C = addr 0x90000 12"
  "0x90010 = addr 0x90000 16" "0x90020 = addr 0x90000 32" "0x9002C = addr 0x90000 44" "0x90030 = addr 0x90000 48"
  "0x90100 = addr 0x90000 256" "0x90120 = addr 0x90000 288"
  by (simp_all add: addr_def)

definition mb1_before_map :: "mem \<Rightarrow> u8 list \<Rightarrow> mem" where
  "mb1_before_map m s =
     mb1_mmap_entry (mb1_mmap_entry (wr32 (wr32 (strcpy_mem (wr32 (wr32 (wr32 (wr m (addr 0x90000 0) (replicate 88 0))
       (addr 0x90000 0) 7) (addr 0x90000 4) 640) (addr 0x90000 8) 0x7FE00) (addr 0x90000 32) s)
       (addr 0x90000 16) 0x90020) (addr 0x90000 12) 0x8000) (addr 0x90000 256) 0 0x100000) (addr 0x90000 288)
       0x100000 0x7FF00000"

lemma mb1_info_eq:
  assumes "s \<noteq> []"
  shows "mb1_info m (Some s) = wr32 (wr32 (mb1_before_map m s) (addr 0x90000 44) 64) (addr 0x90000 48) 0x90100"
  using assms by (simp add: mb1_info_def mb1_before_map_def Let_def addr_def)

lemma mb1_before_map_holds:
  assumes "t @ u = s @ [0]" and "length t < 200" and "length s < 2 ^ 31"
  shows "holds (mb1_before_map m s) 0x90000 32 t"
proof -
  have "holds (strcpy_mem m' (addr 0x90000 32) s) 0x90000 32 (t @ u)" for m'
    unfolding assms(1) using assms(3) by (intro holds_strcpy) simp
  then have "holds (strcpy_mem m' (addr 0x90000 32) s) 0x90000 32 t" for m' by (simp add: holds_append)
  then show ?thesis using assms(2) by (simp add: mb1_before_map_def mb1_mmap_entry_def)
qed

lemma mb1_info_cmdline:
  assumes "s \<noteq> []" and "0 \<notin> set s" and "length s < 2 ^ 31"
  shows "holds_str (mb1_info m (Some s)) 0x90020 (if length s < 12 then s else take 12 s @ [0x40])"
proof (cases "length s < 12")
  case True
  have "holds (mb1_before_map m s) 0x90000 32 (s @ [0])"
    using True assms by (intro mb1_before_map_holds [where u = "[]"]) simp_all
  then show ?thesis using True assms(2) by (simp add: mb1_info_eq [OF assms(1)] addr_90000 holds_str_iff)
next
  case False
  have "holds (mb1_before_map m s) 0x90000 32 (take 12 s)"
    using False assms by (intro mb1_before_map_holds [where u = "drop 12 s @ [0]"]) simp_all
  moreover have "0 \<notin> set (take 12 s)" using assms(2) by (meson in_set_takeD)
  ultimately have "holds_str (wr (mb1_before_map m s) (addr 0x90000 (32 + length (take 12 s))) (0x40 # 0 # [0, 0]))
      (addr 0x90000 32) (take 12 s @ [0x40])"
    by (intro holds_str_clobbered) simp_all
  moreover have "le32_bytes 64 = 0x40 # 0 # [0, 0]" by (simp add: le32_bytes_def byte_at_def)
  ultimately have "holds_str (wr32 (mb1_before_map m s) (addr 0x90000 44) 64) (addr 0x90000 32) (take 12 s @ [0x40])"
    using False by (simp add: wr32_def)
  then show ?thesis using False by (simp add: mb1_info_eq [OF assms(1)] addr_90000 holds_str_iff)
qed

lemma mb1_info_cmdline_field:
  assumes "s \<noteq> []" and "length s < 2 ^ 31"
  shows "rd32 (mb1_info m (Some s)) 0x90010 = 0x90020"
  using assms by (simp add: mb1_info_eq mb1_before_map_def mb1_mmap_entry_def addr_90000)

lemma multiboot1_load_kernel_jump:
  assumes "multiboot1_load_kernel lf m path cmdline = Some (Boot_Jump e args m')"
  shows "\<exists>m1. m' = mb1_info m1 cmdline" "args = [0x2BADB002, 0x90000]"
  using assms by (auto simp: multiboot1_load_kernel_def Let_def split: option.splits if_splits bind_splits)

text \<open>When the Multiboot 1 loader starts a kernel with a command line of twelve or more characters, the
  kernel does not find that command line: the loader stores it inside the information structure and then writes
  the length of the memory map over it, so the string the structure points to consists of the first twelve
  characters and an \<^verbatim>\<open>@\<close>. A shorter command line is passed intact.\<close>

lemma multiboot1_cuts_cmdline:
  assumes "multiboot1_load_kernel lf m path (Some s) = Some (Boot_Jump e args m')"
    and "s \<noteq> []" and "0 \<notin> set s" and "length s < 2 ^ 31"
  shows "args = [0x2BADB002, 0x90000] \<and> rd32 m' 0x90010 = 0x90020 \<and>
    holds_str m' 0x90020 (if length s < 12 then s else take 12 s @ [0x40])"
  using multiboot1_load_kernel_jump [OF assms(1)] mb1_info_cmdline [OF assms(2-4)] mb1_info_cmdline_field [OF assms(2,4)]
  by auto

definition mb1_sample :: "u8 list" where
  "mb1_sample = [0x02, 0xB0, 0xAD, 0x1B] @ replicate 44 0"

section \<open>The information structure of Multiboot 2\<close>

text \<open>How a kernel reads the structure: tags at multiples of 8 from its start, up to an end tag inside the
  total size. Each tag is given with its offset, its type and its size.\<close>

function mb2_walk :: "mem \<Rightarrow> u64 \<Rightarrow> nat \<Rightarrow> nat \<Rightarrow> (nat \<times> u32 \<times> u32) list option" where
  "mb2_walk m info off lim =
     (if off + 8 \<le> lim then
        let t = rd32 m (addr info off); s = rd32 m (addr info (off + 4)) in
        if t = 0 then Some [(off, t, s)]
        else if unat s < 8 then None
        else map_option (Cons (off, t, s)) (mb2_walk m info (off + 8 * ((unat s + 7) div 8)) lim)
      else None)"
  by pat_completeness auto
termination
proof (relation "measure (\<lambda>(m, info, off, lim). lim - off)", goal_cases)
  case (2 m info off lim t s)
  then have "0 < (unat s + 7) div 8" by (simp add: div_greater_zero_iff)
  then show ?case using 2(1) by simp
qed simp

declare mb2_walk.simps [simp del]

definition mb2_tags :: "mem \<Rightarrow> u64 \<Rightarrow> (nat \<times> u32 \<times> u32) list option" where
  "mb2_tags m info = mb2_walk m info 8 (unat (rd32 m info))"

lemma mb2_walk_end:
  "off + 8 \<le> lim \<Longrightarrow> b = off + 4 \<Longrightarrow> rd32 m (addr info off) = 0 \<Longrightarrow> rd32 m (addr info b) = s \<Longrightarrow>
   mb2_walk m info off lim = Some [(off, 0, s)]"
  by (simp add: mb2_walk.simps)

lemma mb2_walk_tag:
  "off + 8 \<le> lim \<Longrightarrow> b = off + 4 \<Longrightarrow> c = off + 8 * ((unat s + 7) div 8) \<Longrightarrow>
   rd32 m (addr info off) = t \<Longrightarrow> t \<noteq> 0 \<Longrightarrow> rd32 m (addr info b) = s \<Longrightarrow> 8 \<le> unat s \<Longrightarrow>
   mb2_walk m info off lim = map_option (Cons (off, t, s)) (mb2_walk m info c lim)"
  by (simp add: mb2_walk.simps [of m info off])

lemma align8_of_nat:
  assumes "n < 2 ^ 31"
  shows "align8 (of_nat n) = of_nat (8 * ((n + 7) div 8))"
proof -
  have r: "(of_nat n :: u32) mod 8 = of_nat (n mod 8)"
    by (rule unat_eqI) (use assms in \<open>simp add: unat_mod unat_of_nat_small\<close>)
  obtain q t where n: "n = 8 * q + t" "t < 8" by (metis mod_less_divisor mult_div_mod_eq zero_less_numeral)
  have z: "(of_nat t :: u32) = 0 \<longleftrightarrow> t = 0"
    using unat_of_nat_small [where 'a = 32, of t] n(2) by (auto dest: arg_cong [where f = unat])
  show ?thesis
  proof (cases "t = 0")
    case True
    then show ?thesis using n r by (simp add: align8_def)
  next
    case False
    then have "(n + 7) div 8 = q + 1" using n by presburger
    moreover have "(of_nat n :: u32) + (8 - of_nat t) = of_nat (8 * (q + 1))" using n by simp
    ultimately show ?thesis using False n r z by (simp add: align8_def)
  qed
qed

lemma ucast_off: "p < 2 ^ 32 \<Longrightarrow> (0x90000 :: u64) + ucast (of_nat p :: u32) = addr 0x90000 p"
  by (simp add: addr_def ucast_of_nat_unat unat_of_nat_small)

lemma mb2_put_eqs:
  assumes "p < 2 ^ 31"
  shows "mb2_put_meminfo m (of_nat p) =
      (wr32 (wr32 (wr32 (wr32 m (addr 0x90000 p) 4) (addr 0x90000 (p + 4)) 16) (addr 0x90000 (p + 8)) 640)
         (addr 0x90000 (p + 12)) 0x7FE00, of_nat (p + 16))"
    "mb2_put_bootdev m (of_nat p) =
      (wr32 (wr32 (wr32 (wr32 (wr32 m (addr 0x90000 p) 5) (addr 0x90000 (p + 4)) 20) (addr 0x90000 (p + 8)) 0x80)
         (addr 0x90000 (p + 12)) 0) (addr 0x90000 (p + 16)) 0, of_nat (p + 24))"
    "mb2_put_end m (of_nat p) = (wr32 (wr32 m (addr 0x90000 p) 0) (addr 0x90000 (p + 4)) 8, of_nat (p + 8))"
  using assms
  by (simp_all add: mb2_put_meminfo_def mb2_put_bootdev_def mb2_put_end_def Let_def ucast_off align8_def)

lemma addr_num_add [simp]: "numeral k + addr b p = addr b (p + numeral k)"
  by (simp add: addr_def)

definition mb2_map_entries :: "mem \<Rightarrow> nat \<Rightarrow> mem" where
  "mb2_map_entries m q =
     wr32 (wr32 (wr64 (wr64 (wr32 (wr32 (wr64 (wr64 m
       (addr 0x90000 (q + 16)) 0) (addr 0x90000 (q + 24)) 0x100000) (addr 0x90000 (q + 32)) 1) (addr 0x90000 (q + 36)) 0)
       (addr 0x90000 (q + 40)) 0x100000) (addr 0x90000 (q + 48)) 0x7FF00000) (addr 0x90000 (q + 56)) 1) (addr 0x90000 (q + 60)) 0"

lemma mb2_put_mmap_eq:
  "p < 2 ^ 31 \<Longrightarrow> mb2_put_mmap m (of_nat p) =
      (mb2_map_entries (wr32 (wr32 (wr32 (wr32 m (addr 0x90000 p) 6) (addr 0x90000 (p + 4)) 64) (addr 0x90000 (p + 8)) 24)
         (addr 0x90000 (p + 12)) 0) p, of_nat (p + 64))"
  by (simp add: mb2_put_mmap_def mb2_mmap_entry_def mb2_map_entries_def Let_def ucast_off align8_def)

text \<open>Everything behind the optional command line, from offset \<open>p\<close>.\<close>

definition mb2_tail :: "mem \<Rightarrow> nat \<Rightarrow> mem" where
  "mb2_tail m p =
     (let (m2, o2) = mb2_put_meminfo m (of_nat p);
          (m3, o3) = mb2_put_bootdev m2 o2;
          (m4, o4) = mb2_put_mmap m3 o3;
          (m5, o5) = mb2_put_end m4 o4
      in wr32 (wr32 m5 0x90000 o5) 0x90004 0)"

lemma mb2_tail_eq:
  assumes "p < 2 ^ 30"
  shows "mb2_tail m p =
    wr32 (wr32 (wr32 (wr32 (mb2_map_entries (wr32 (wr32 (wr32 (wr32
      (wr32 (wr32 (wr32 (wr32 (wr32
      (wr32 (wr32 (wr32 (wr32 m (addr 0x90000 p) 4) (addr 0x90000 (p + 4)) 16) (addr 0x90000 (p + 8)) 640) (addr 0x90000 (p + 12)) 0x7FE00)
      (addr 0x90000 (p + 16)) 5) (addr 0x90000 (p + 20)) 20) (addr 0x90000 (p + 24)) 0x80) (addr 0x90000 (p + 28)) 0) (addr 0x90000 (p + 32)) 0)
      (addr 0x90000 (p + 40)) 6) (addr 0x90000 (p + 44)) 64) (addr 0x90000 (p + 48)) 24) (addr 0x90000 (p + 52)) 0) (p + 40))
      (addr 0x90000 (p + 104)) 0) (addr 0x90000 (p + 108)) 8) (addr 0x90000 0) (of_nat (p + 112))) (addr 0x90000 4) 0"
proof -
  have h: "p < 2 ^ 31" "p + 16 < 2 ^ 31" "p + 16 + 24 < 2 ^ 31" "p + 16 + 24 + 64 < 2 ^ 31" using assms by simp_all
  show ?thesis
    unfolding mb2_tail_def
    by (simp only: mb2_put_eqs(1) [OF h(1)] mb2_put_eqs(2) [OF h(2)] mb2_put_mmap_eq [OF h(3)] mb2_put_eqs(3) [OF h(4)]
        Let_def case_prod_conv) (simp add: add.assoc addr_def)
qed

lemma rd32_map_entries:
  "p + 4 < 2 ^ 59 \<Longrightarrow> q < 2 ^ 59 \<Longrightarrow> p + 4 \<le> q + 16 \<or> q + 64 \<le> p \<Longrightarrow>
   rd32 (mb2_map_entries m q) (addr 0x90000 p) = rd32 m (addr 0x90000 p)"
  unfolding mb2_map_entries_def by (erule disjE) simp_all

lemma mb2_tail_fields:
  assumes "8 \<le> p" and "p < 2 ^ 30"
  shows "rd32 (mb2_tail m p) (addr 0x90000 0) = of_nat (p + 112)"
    "rd32 (mb2_tail m p) (addr 0x90000 p) = 4" "rd32 (mb2_tail m p) (addr 0x90000 (p + 4)) = 16"
    "rd32 (mb2_tail m p) (addr 0x90000 (p + 16)) = 5" "rd32 (mb2_tail m p) (addr 0x90000 (p + 20)) = 20"
    "rd32 (mb2_tail m p) (addr 0x90000 (p + 40)) = 6" "rd32 (mb2_tail m p) (addr 0x90000 (p + 44)) = 64"
    "rd32 (mb2_tail m p) (addr 0x90000 (p + 104)) = 0" "rd32 (mb2_tail m p) (addr 0x90000 (p + 108)) = 8"
    "8 \<le> q \<Longrightarrow> q + 4 \<le> p \<Longrightarrow> rd32 (mb2_tail m p) (addr 0x90000 q) = rd32 m (addr 0x90000 q)"
  unfolding mb2_tail_eq [OF assms(2)] using assms by (simp_all add: rd32_map_entries)

lemma mb2_tail_str:
  assumes "8 \<le> q" and "q + length s < p" and "p < 2 ^ 30"
  shows "holds_str (mb2_tail m p) (addr 0x90000 q) s \<longleftrightarrow> holds_str m (addr 0x90000 q) s"
  unfolding mb2_tail_eq [OF assms(3)] mb2_map_entries_def holds_str_iff using assms by simp

lemma mb2_tail_walk:
  assumes "8 \<le> p" and "p < 2 ^ 30"
  shows "mb2_walk (mb2_tail m p) 0x90000 p (p + 112) = Some [(p, 4, 16), (p + 16, 5, 20), (p + 40, 6, 64), (p + 104, 0, 8)]"
proof -
  let ?m = "mb2_tail m p"
  note f = mb2_tail_fields [OF assms, where m = m]
  have "mb2_walk ?m 0x90000 (p + 104) (p + 112) = Some [(p + 104, 0, 8)]"
    by (rule mb2_walk_end [OF _ _ f(8) f(9)]) simp_all
  moreover have "mb2_walk ?m 0x90000 (p + 40) (p + 112) = map_option (Cons (p + 40, 6, 64)) (mb2_walk ?m 0x90000 (p + 104) (p + 112))"
    by (rule mb2_walk_tag [OF _ _ _ f(6) _ f(7)]) simp_all
  moreover have "mb2_walk ?m 0x90000 (p + 16) (p + 112) = map_option (Cons (p + 16, 5, 20)) (mb2_walk ?m 0x90000 (p + 40) (p + 112))"
    by (rule mb2_walk_tag [OF _ _ _ f(4) _ f(5)]) simp_all
  moreover have "mb2_walk ?m 0x90000 p (p + 112) = map_option (Cons (p, 4, 16)) (mb2_walk ?m 0x90000 (p + 16) (p + 112))"
    by (rule mb2_walk_tag [OF _ _ _ f(2) _ f(3)]) simp_all
  ultimately show ?thesis by simp
qed

lemma mb2_info_tail:
  "mb2_info m cmdline =
     (if has_text cmdline then
        let (m1, o1) = mb2_put_cmdline (wr m 0x90000 (replicate 8 0)) 8 (the cmdline) in mb2_tail m1 (unat o1)
      else mb2_tail (wr m 0x90000 (replicate 8 0)) 8)"
  by (simp add: mb2_info_def mb2_tail_def Let_def case_prod_unfold)

lemma mb2_put_cmdline_eq:
  assumes "length s < 2 ^ 29"
  shows "mb2_put_cmdline m 8 s =
    (strcpy_mem (wr32 (wr32 m (addr 0x90000 8) 1) (addr 0x90000 12) (of_nat (length s + 9))) (addr 0x90000 16) s,
     of_nat (8 + 8 * ((length s + 9 + 7) div 8)))"
proof -
  have "8 + of_nat (length s) + 1 = (of_nat (length s + 9) :: u32)" by simp
  moreover have "align8 (of_nat (length s + 9)) = of_nat (8 * ((length s + 9 + 7) div 8))"
    using assms by (intro align8_of_nat) simp
  ultimately show ?thesis
    by (simp only: mb2_put_cmdline_def Let_def of_nat_add [of 8]) (simp add: addr_def)
qed
section \<open>What a Multiboot 2 kernel finds\<close>

definition mb2_first :: "u8 list \<Rightarrow> nat" where
  "mb2_first s = (if s = [] then 8 else 8 + 8 * ((length s + 9 + 7) div 8))"

lemma mb2_first_bounds: "length s < 2 ^ 29 \<Longrightarrow> mb2_first s < 2 ^ 30" "8 \<le> mb2_first s"
  by (auto simp: mb2_first_def)

lemma mb2_info_shape:
  assumes "length s < 2 ^ 29"
  shows "\<exists>m1. mb2_info m (Some s) = mb2_tail m1 (mb2_first s) \<and>
    (s \<noteq> [] \<longrightarrow> 0 \<notin> set s \<longrightarrow> rd32 m1 (addr 0x90000 8) = 1 \<and> rd32 m1 (addr 0x90000 12) = of_nat (length s + 9) \<and>
       holds_str m1 (addr 0x90000 16) s)"
proof (cases "s = []")
  case True
  then show ?thesis by (auto simp: mb2_info_tail mb2_first_def)
next
  case False
  let ?m1 = "strcpy_mem (wr32 (wr32 (wr m 0x90000 (replicate 8 0)) (addr 0x90000 8) 1) (addr 0x90000 12) (of_nat (length s + 9))) (addr 0x90000 16) s"
  have "unat (of_nat (8 + 8 * ((length s + 9 + 7) div 8)) :: u32) = 8 + 8 * ((length s + 9 + 7) div 8)"
    using assms by (intro unat_of_nat_small) simp
  then have "mb2_info m (Some s) = mb2_tail ?m1 (mb2_first s)"
    using False by (simp only: mb2_info_tail has_text.simps mb2_put_cmdline_eq [OF assms] option.sel Let_def case_prod_conv
        mb2_first_def if_True if_False not_False_eq_True)
  moreover have "0 \<notin> set s \<Longrightarrow> holds_str ?m1 (addr 0x90000 16) s"
    using assms by (simp add: holds_str_iff)
  ultimately show ?thesis using assms by (intro exI [of _ ?m1]) simp
qed

lemma multiboot2_load_kernel_jump:
  assumes "multiboot2_load_kernel lf m path cmdline = Some (Boot_Jump e args m')"
  shows "\<exists>m1. m' = mb2_info m1 cmdline" "args = [0x36D76289, 0x90000]"
  using assms by (auto simp: multiboot2_load_kernel_def Let_def split: option.splits if_splits bind_splits)


definition mb2_sample :: "u8 list" where
  "mb2_sample = [0xD6, 0x50, 0x52, 0xE8, 0, 0, 0, 0, 24, 0, 0, 0, 0x12, 0xAF, 0xAD, 0x17, 0, 0, 0, 0, 8, 0, 0, 0]"

section \<open>Conforming Multiboot 2 headers\<close>

text \<open>A header as the protocol has it, at the start of the file: the magic number, the architecture, the length
  and a checksum that makes the four words sum to zero, followed by tags.\<close>

definition mb2_conforming :: "u8 list \<Rightarrow> bool" where
  "mb2_conforming data \<longleftrightarrow> 24 \<le> unat (le32_at data 8) \<and> unat (le32_at data 8) \<le> length data \<and>
     le32_at data 0 = 0xE85250D6 \<and> le32_at data 4 = 0 \<and>
     le32_at data 0 + le32_at data 4 + le32_at data 8 + le32_at data 12 = 0"

lemma mb2_conforming_checksum:
  assumes "mb2_conforming data" and "length data < 2 ^ 27"
  shows "unat (le32_at data 12) = 0x17ADAF2A - unat (le32_at data 8)"
proof -
  let ?L = "le32_at data 8"
  have "0xE85250D6 + (?L + le32_at data 12) = 0" using assms(1) by (auto simp: mb2_conforming_def add.assoc)
  then have "?L + le32_at data 12 = 0x17ADAF2A" using minus_unique [of "0xE85250D6 :: u32"] by fastforce
  then have "le32_at data 12 = 0x17ADAF2A - ?L" by (simp add: eq_diff_eq add.commute)
  moreover have "unat ?L \<le> unat (0x17ADAF2A :: u32)" using assms by (simp add: mb2_conforming_def)
  ultimately show ?thesis by (simp add: unat_sub_small)
qed

lemma mb2_scan_conforming:
  assumes "mb2_conforming data" and "length data < 2 ^ 27"
  shows "mb2_scan data (of_nat (length data)) 8 h = Some h"
proof -
  let ?L = "le32_at data 8" and ?c = "le32_at data 12"
  let ?n = "of_nat (length data) :: u32"
  have L: "24 \<le> unat ?L" "unat ?L \<le> length data" using assms(1) by (simp_all add: mb2_conforming_def)
  have c: "unat ?c = 0x17ADAF2A - unat ?L" by (rule mb2_conforming_checksum [OF assms])
  have n: "unat ?n = length data" using assms(2) by (intro unat_of_nat_small) simp
  have ne: "?L \<noteq> 0" "?L \<noteq> 2" "?L \<noteq> 3" using L(1) by auto
  have lt: "unat ?c < 2 ^ 31" using c by simp
  have "align8 ?c = of_nat (8 * ((unat ?c + 7) div 8))" using align8_of_nat [OF lt] by (simp only: of_nat_unat ucast_id)
  then have e: "8 + align8 ?c = of_nat (8 + 8 * ((unat ?c + 7) div 8))" by simp
  have "unat (8 + align8 ?c) = 8 + 8 * ((unat ?c + 7) div 8)"
    unfolding e using lt by (intro unat_of_nat_small) simp
  then have "\<not> 8 + align8 ?c < ?n" using c n L(2) assms(2) by (simp add: word_less_nat_alt)
  then have fin: "mb2_scan data ?n (8 + align8 ?c) h = Some h" by (subst mb2_scan.simps) simp
  have "8 < ?n" using n L by (simp add: word_less_nat_alt)
  then show ?thesis using L ne fin by (subst mb2_scan.simps) (simp add: peek32_def)
qed

text \<open>The Multiboot 2 loader does not see the tags of a conforming header. It starts at the header length
  and the checksum as if they were the first tag, and the checksum, taken for the size of that tag, carries it
  behind the end of the file. The address and entry tags have no effect: the whole file is copied to the first
  megabyte and started there.\<close>

lemma multiboot2_ignores_header_tags:
  assumes "lf path = Some (data, of_nat (length data))" and "mb2_conforming data" and "length data < 2 ^ 27"
  shows "multiboot2_load_kernel lf m path cmdline =
    Some (Boot_Jump 0x100000 [0x36D76289, 0x90000] (mb2_info (wr m 0x100000 data) cmdline))"
proof -
  have n: "unat (of_nat (length data) :: u32) = length data" using assms(3) by (intro unat_of_nat_small) simp
  have "24 \<le> length data" using assms(2) by (simp add: mb2_conforming_def)
  then have "peek32 data 0 = Some 0xE85250D6" using assms(2) by (simp add: peek32_def mb2_conforming_def)
  moreover have "(of_nat (length data) :: u32) < - 0x100000" using n assms(3) by (simp add: word_less_nat_alt)
  ultimately show ?thesis
    using assms n mb2_scan_conforming [OF assms(2,3)]
    by (simp add: multiboot2_load_kernel_def mb_defaults_def mb_no_addrs_def mb_place_def copy_in_def Let_def)
qed

section \<open>Verification, modules and kernels loaded over the network\<close>

lemma sum_words_eq:
  "4 * k \<le> length data \<Longrightarrow> sum_words data k = Some (\<Sum>i < k. le32_at data (4 * i))"
  by (induction k) (simp_all add: peek32_def)

text \<open>What the verifier makes of a conforming header: it sums the whole header, so the tags have to sum to zero
  as well. An end tag alone sums to 8.\<close>

lemma multiboot2_verify_conforming:
  assumes "lf path = Some (data, of_nat (length data))" and "mb2_conforming data" and "length data < 2 ^ 27"
  shows "multiboot2_verify_kernel lf path =
    Some (if (\<Sum>i \<in> {4..<unat (le32_at data 8) div 4}. le32_at data (4 * i)) = 0 then 0 else -1)"
proof -
  let ?L = "le32_at data 8" and ?w = "\<lambda>i. le32_at data (4 * i)"
  have L: "24 \<le> unat ?L" "unat ?L \<le> length data" using assms(2) by (simp_all add: mb2_conforming_def)
  have n: "unat (of_nat (length data) :: u32) = length data" using assms(3) by (intro unat_of_nat_small) simp
  have d: "unat (?L div 4) = unat ?L div 4" by (simp add: unat_div)
  have "sum ?w {..<unat ?L div 4} = sum ?w {..<4} + sum ?w {4..<unat ?L div 4}"
    using L(1) by (subst sum.union_disjoint [symmetric]) (auto intro!: sum.cong)
  also have "sum ?w {..<4} = 0"
  proof -
    have e: "{..<4} = {0, 1, 2, 3 :: nat}" by auto
    show ?thesis using assms(2) unfolding e by (auto simp: mb2_conforming_def add.assoc)
  qed
  finally have s: "sum_words data (unat ?L div 4) = Some (sum ?w {4..<unat ?L div 4})"
    using sum_words_eq [of "unat ?L div 4" data] L(2) by simp
  have "\<not> (?L < 8 \<or> of_nat (length data) < ?L)" using L n by (simp add: word_less_nat_alt)
  then show ?thesis
    using assms(1,2) L s by (simp add: multiboot2_verify_kernel_def peek32_def mb2_conforming_def d)
qed

lemma multiboot1_module_placed:
  assumes "lf path = Some (data, of_nat (length data))" and "length data < 2 ^ 31" and "unat k < 16"
    and "multiboot1_load_module lf m k path None = Some (r, m', k')"
  shows "r = 0" "k' = k + 1" "holds m' 0 0x200000 data"
    "rd32 m' (addr 0x90200 (16 * unat k)) = 0x200000" "rd32 m' (addr 0x90200 (16 * unat k + 4)) = 0x200000 + of_nat (length data)"
proof -
  have n: "unat (of_nat (length data) :: u32) = length data" using assms(2) by (intro unat_of_nat_small) simp
  have sc: "(scast k :: u64) = of_nat (unat k)"
    using assms(3) sint_u32_small [of k] by (simp add: scast_eq)
  have a: "(0x90200 :: u64) + scast k * 16 = addr 0x90200 (16 * unat k)" by (simp add: sc addr_def)
  have m': "m' = wr32 (wr32 (wr32 (wr m 0x200000 data) (addr 0x90200 (16 * unat k)) 0x200000) (addr 0x90200 (16 * unat k + 4)) (0x200000 + of_nat (length data)))
      (addr 0x90200 (16 * unat k + 8)) (0x90300 + k * 64)" and r: "r = 0" "k' = k + 1"
    using assms(1,4) n by (auto simp: multiboot1_load_module_def copy_in_def a Let_def)
  show "r = 0" "k' = k + 1" by (rule r)+
  show "rd32 m' (addr 0x90200 (16 * unat k)) = 0x200000" "rd32 m' (addr 0x90200 (16 * unat k + 4)) = 0x200000 + of_nat (length data)"
    using assms(3) by (simp_all add: m')
  have z: "addr 0x90200 q = addr 0 (0x90200 + q)" for q by (simp add: addr_def)
  have "holds (wr m (addr 0 0x200000) data) 0 0x200000 data" using assms(2) by (intro holds_wr) simp
  moreover have "addr 0 0x200000 = 0x200000" by (simp add: addr_def)
  ultimately show "holds m' 0 0x200000 data" using assms(2,3) by (simp add: m' z)
qed

text \<open>Multiboot 1 modules replace each other. After two modules have been loaded, the address that both
  entries of the module table point to holds the bytes of the second one.\<close>

lemma multiboot1_modules_share_address:
  assumes "lf p1 = Some (d1, of_nat (length d1))" and "lf p2 = Some (d2, of_nat (length d2))"
    and "length d1 < 2 ^ 31" and "length d2 < 2 ^ 31" and "unat k < 15"
    and "multiboot1_load_module lf m k p1 None = Some (r1, m1, k1)"
    and "multiboot1_load_module lf m1 k1 p2 None = Some (r2, m2, k2)"
  shows "k2 = k + 2 \<and> rd32 m1 (addr 0x90200 (16 * unat k)) = 0x200000 \<and>
    rd32 m2 (addr 0x90200 (16 * unat k + 16)) = 0x200000 \<and> holds m1 0 0x200000 d1 \<and> holds m2 0 0x200000 d2"
proof -
  have k: "unat k < 16" using assms(5) by simp
  note a = multiboot1_module_placed [OF assms(1,3) k assms(6)]
  have u: "unat (k + 1) = unat k + 1" using assms(5) by (simp add: unat_add_small)
  have "unat k1 < 16" "16 * unat k1 = 16 * unat k + 16" using a(2) u assms(5) by simp_all
  then show ?thesis
    using a multiboot1_module_placed [OF assms(2,4) _ assms(7)] by simp
qed

lemma fields_of_boot2:
  assumes "boot_multiboot2_kernel m data n (Some s) = Some (Boot_Jump e args m')" and "s \<noteq> []" and "length s < 2 ^ 19"
  shows "rd32 m' (addr 0x1000 0) = of_nat (length s + 41)" "rd32 m' (addr 0x1000 8) = 4" "rd32 m' (addr 0x1000 12) = 16"
    "rd32 m' (addr 0x1000 24) = 1" "rd32 m' (addr 0x1000 28) = of_nat (length s + 9)"
    "rd32 m' (addr 0x1000 (33 + length s)) = 0" "rd32 m' (addr 0x1000 (37 + length s)) = 8"
proof -
  let ?a = "addr 0x1000"
  have e: "8 + of_nat (length s) + 1 = (of_nat (length s + 9) :: u32)" by simp
  have "unat (of_nat (length s + 9) :: u32) = length s + 9" using assms(3) by (intro unat_of_nat_small) simp
  then have u: "(ucast (of_nat (length s + 9) :: u32) :: u64) = of_nat (length s + 9)"
    by (simp only: ucast_of_nat_unat)
  note u = u [unfolded of_nat_add of_nat_numeral]
  have f: "8 + 16 + (of_nat (length s + 9) :: u32) = of_nat (length s + 33)" "8 + 16 + (of_nat (length s + 9) :: u32) + 8 = of_nat (length s + 41)"
    by simp_all
  define bs where "bs = take (unat n) data"
  have "length bs \<le> unat n" by (simp add: bs_def)
  then have l: "length bs < 2 ^ 33" by (rule le_less_trans) (rule less_trans [OF unat_u32_bound], simp)
  have "m' = wr (wr32 (wr32 (wr32 (wr32 (wr32 (strcpy_mem (wr32 (wr32 (wr32 (wr32 (wr32 (wr32 (wr32 (wr32 m
      (?a 0) 8) (?a 4) 0) (?a 8) 4) (?a 12) 16) (?a 16) 640) (?a 20) 0x7FE00) (?a 0) 24) (?a 24) 1) (?a 32) s)
      (?a 28) (of_nat (length s + 9))) (?a 0) (of_nat (length s + 33)))
      (?a (33 + length s)) 0) (?a (37 + length s)) 8) (?a 0) (of_nat (length s + 41))) (?a 0xFF000) bs"
    using assms(1,2) unfolding boot_multiboot2_kernel_def mb2_boot_def Let_def has_text.simps option.sel e
    by (simp add: copy_in_def u f addr_def bs_def add.commute add.left_commute split: if_splits)
  then show "rd32 m' (addr 0x1000 0) = of_nat (length s + 41)" "rd32 m' (addr 0x1000 8) = 4" "rd32 m' (addr 0x1000 12) = 16"
    "rd32 m' (addr 0x1000 24) = 1" "rd32 m' (addr 0x1000 28) = of_nat (length s + 9)"
    "rd32 m' (addr 0x1000 (33 + length s)) = 0" "rd32 m' (addr 0x1000 (37 + length s)) = 8"
    using l assms(3) by (simp_all add: rd32_wr_other)
qed

text \<open>The structure that the loader builds for Multiboot 2 kernels fetched over the network conforms to the
  protocol exactly when the tag of the command line takes a multiple of eight bytes. Otherwise the end tag is
  stored right behind the command line, where a kernel that follows the protocol does not look: its walk over the
  tags leaves the structure without meeting the end tag.\<close>

lemma boot_multiboot2_end_tag:
  assumes "boot_multiboot2_kernel m data n (Some s) = Some (Boot_Jump e args m')" and "s \<noteq> []" and "length s < 2 ^ 19"
  shows "mb2_tags m' 0x1000 =
    (if 8 dvd length s + 9 then Some [(8, 4, 16), (24, 1, of_nat (length s + 9)), (33 + length s, 0, 8)] else None)"
proof -
  note f = fields_of_boot2 [OF assms]
  have z: "rd32 m' 0x1000 = of_nat (length s + 41)" using f(1) by (simp add: addr_def)
  have t: "unat (rd32 m' 0x1000) = length s + 41" unfolding z using assms(3) by (intro unat_of_nat_small) simp
  have n: "unat (of_nat (length s + 9) :: u32) = length s + 9" using assms(3) by (intro unat_of_nat_small) simp
  define c where "c = 24 + 8 * ((length s + 9 + 7) div 8)"
  have "mb2_walk m' 0x1000 24 (length s + 41) = map_option (Cons (24, 1, of_nat (length s + 9))) (mb2_walk m' 0x1000 c (length s + 41))"
    by (rule mb2_walk_tag [OF _ _ _ f(4) _ f(5)]) (simp_all only: n c_def, simp_all)
  moreover have "mb2_walk m' 0x1000 8 (length s + 41) = map_option (Cons (8, 4, 16)) (mb2_walk m' 0x1000 24 (length s + 41))"
    by (rule mb2_walk_tag [OF _ _ _ f(2) _ f(3)]) simp_all
  moreover have "mb2_walk m' 0x1000 c (length s + 41) = (if 8 dvd length s + 9 then Some [(33 + length s, 0, 8)] else None)"
  proof (cases "8 dvd length s + 9")
    case True
    then obtain q where "length s + 9 = 8 * q" by auto
    then have "c = 33 + length s" by (simp add: c_def)
    then show ?thesis using True mb2_walk_end [OF _ _ f(6,7)] by simp
  next
    case False
    then have "\<not> c + 8 \<le> length s + 41" unfolding c_def by presburger
    then show ?thesis using False by (simp add: mb2_walk.simps)
  qed
  ultimately show ?thesis unfolding mb2_tags_def t by simp
qed

text \<open>The walk over the header tags does not end at a tag of size zero.\<close>

lemma mb2_scan_zero_size:
  assumes "off < n" and "peek32 data (unat off) = Some t" and "t \<noteq> 0" and "t \<noteq> 2" and "t \<noteq> 3" and "peek32 data (unat off + 4) = Some 0"
  shows "mb2_scan data n off h = None"
proof (rule ccontr)
  assume "mb2_scan data n off h \<noteq> None"
  then obtain r where r: "mb2_scan data n off h = Some r" by auto
  define P where "P = (\<lambda>(d :: u8 list) (k :: u32) (x :: u32) (g :: mb_addrs) (y :: mb_addrs). d = data \<and> k = n \<and> x = off \<longrightarrow> False)"
  have "P data n off h r"
  proof (rule mb2_scan.raw_induct [OF _ r, of P], goal_cases)
    case (1 scan d k x g y)
    show ?case
    proof (unfold P_def, intro impI, elim conjE)
      assume "d = data" "k = n" "x = off"
      then have "scan data n off g = Some y" using 1(2) assms by (simp add: align8_def)
      from 1(1) [OF this] show False by (simp add: P_def)
    qed
  qed
  then show False by (simp add: P_def)
qed
end
