(* ===== verification/Linux_Boot.thy ===== *)
theory Linux_Boot
  imports Multiboot
begin

text \<open>
  The Linux loader \<^verbatim>\<open>boot/Arch32/linux.c\<close> and the loaders for PC kernels \<^verbatim>\<open>boot/Arch32/ia32.c\<close> and
  \<^verbatim>\<open>boot/Arch32/x86_64.c\<close>, which recognise Linux and Multiboot images by their first word. The kernel header and the
  boot parameters are laid out as the structures are declared, without packing: the magic number of the header
  is at offset 20, its version at 24; in the 136 bytes of the parameters the initial ram disk is at 44 and 48, the
  pointer to the command line at 60, the memory sizes at 128 and 132.
\<close>

section \<open>The Linux loader\<close>

definition linux_setup_size :: "u8 list \<Rightarrow> u32 cmem" where
  "linux_setup_size data =
     map_option (\<lambda>b. let n = (ucast b + 1) * 512 in if n = 0 then 4 * 512 else n) (peek data 0)"

text \<open>The boot parameters at \<^verbatim>\<open>0x90000\<close>, in the order the fields are stored.\<close>

definition linux_params :: "mem \<Rightarrow> u8 list \<Rightarrow> u32 \<Rightarrow> u8 list ptr \<Rightarrow> (u32 \<times> u32) option \<Rightarrow> mem cmem" where
  "linux_params m data setup_size cmdline initrd =
     (case copy_in (wr m 0x90000 (replicate 136 0)) 0x90000 data 0 (unat setup_size) of
        None \<Rightarrow> None
      | Some m1 \<Rightarrow>
          let m2 = (if has_text cmdline then wr32 (strcpy_mem m1 0x90020 (the cmdline)) 0x9003C 0x90020 else m1);
              m3 = (case initrd of None \<Rightarrow> m2 | Some (a, n) \<Rightarrow> wr32 (wr32 m2 0x9002C a) 0x90030 n)
          in Some (wr32 (wr32 m3 0x90080 0x7FE00) 0x90084 0x7FE00))"

text \<open>Loading the initial ram disk to an address: where it is, how long it is, and the memory.\<close>

definition linux_initrd :: "file_loader \<Rightarrow> mem \<Rightarrow> u8 list ptr \<Rightarrow> u64 \<Rightarrow> (u64 \<times> u32 \<times> mem) cmem" where
  "linux_initrd load_file m initrd_path a =
     (if has_text initrd_path then
        (case load_file (the initrd_path) of
           None \<Rightarrow> Some (0, 0, m)
         | Some (d, n) \<Rightarrow> map_option (\<lambda>m'. (a, n, m')) (copy_in m a d 0 (unat n)))
      else Some (0, 0, m))"

text \<open>The common part of \<open>linux_load_kernel\<close> and \<open>ia32_boot_linux\<close>.\<close>

definition linux_start :: "file_loader \<Rightarrow> mem \<Rightarrow> u8 list \<Rightarrow> u32 \<Rightarrow> u8 list ptr \<Rightarrow> u8 list ptr \<Rightarrow> boot_outcome cmem" where
  "linux_start load_file m data kernel_size initrd_path cmdline = do {
     setup_size \<leftarrow> linux_setup_size data;
     m1 \<leftarrow> copy_in m 0x100000 data (unat setup_size) (unat (kernel_size - setup_size));
     (a, n, m2) \<leftarrow> linux_initrd load_file m1 initrd_path (ucast (0x100000 + kernel_size - setup_size));
     m3 \<leftarrow> linux_params m2 data setup_size cmdline (if 0 < a then Some (ucast a, n) else None);
     Some (Boot_Jump 0x100000 [0x90000] m3)
   }"

definition linux_load_kernel ::
  "file_loader \<Rightarrow> mem \<Rightarrow> u8 list \<Rightarrow> u8 list ptr \<Rightarrow> u8 list ptr \<Rightarrow> boot_outcome cmem" where
  "linux_load_kernel load_file m kernel_path initrd_path cmdline =
     (case load_file kernel_path of
        None \<Rightarrow> Some (Boot_Failed (-1))
      | Some (data, kernel_size) \<Rightarrow> do {
          magic \<leftarrow> peek32 data 20;
          if magic \<noteq> 0x53726448 then Some (Boot_Failed (-1))
          else linux_start load_file m data kernel_size initrd_path cmdline
        })"

definition linux_verify_kernel :: "file_loader \<Rightarrow> u8 list \<Rightarrow> int cmem" where
  "linux_verify_kernel load_file kernel_path =
     (case load_file kernel_path of
        None \<Rightarrow> Some (-1)
      | Some (data, kernel_size) \<Rightarrow> do {
          magic \<leftarrow> peek32 data 20;
          if magic \<noteq> 0x53726448 then Some (-1)
          else if length data < 26 then None
          else Some (if le16_at data 24 < 0x0200 then -1 else 0)
        })"

definition boot_linux_kernel ::
  "mem \<Rightarrow> u8 list \<Rightarrow> u32 \<Rightarrow> u8 list ptr \<Rightarrow> u32 \<Rightarrow> u8 list ptr \<Rightarrow> boot_outcome cmem" where
  "boot_linux_kernel m data kernel_size initrd_data initrd_size cmdline = do {
     magic \<leftarrow> peek32 data 20;
     if magic \<noteq> 0x53726448 then Some (Boot_Failed (-1))
     else do {
       setup_size \<leftarrow> linux_setup_size data;
       m1 \<leftarrow> copy_in m 0x100000 data (unat setup_size) (unat (kernel_size - setup_size));
       let a = 0x100000 + kernel_size - setup_size;
       (b, m2) \<leftarrow> (case initrd_data of
                    Some d \<Rightarrow> if 0 < initrd_size then map_option (\<lambda>m'. (a, m')) (copy_in m1 (ucast a) d 0 (unat initrd_size))
                              else Some (0, m1)
                  | None \<Rightarrow> Some (0, m1));
       m3 \<leftarrow> linux_params m2 data setup_size cmdline (if 0 < b then Some (b, initrd_size) else None);
       Some (Boot_Jump 0x100000 [0x90000] m3)
     }
   }"

section \<open>PC kernels, 32 bits\<close>

definition ia32_boot_linux :: "file_loader \<Rightarrow> mem \<Rightarrow> u8 list \<Rightarrow> u32 \<Rightarrow> u8 list ptr \<Rightarrow> u8 list ptr \<Rightarrow> boot_outcome cmem" where
  "ia32_boot_linux load_file m kernel_data kernel_size initrd_path cmdline =
     linux_start load_file m kernel_data kernel_size initrd_path cmdline"

definition ia32_boot_multiboot1 :: "mem \<Rightarrow> u8 list \<Rightarrow> u32 \<Rightarrow> u8 list ptr \<Rightarrow> boot_outcome cmem" where
  "ia32_boot_multiboot1 m kernel_data kernel_size cmdline =
     (let m1 = wr m 0x1000 (replicate 88 0);
          m2 = wr32 (wr32 (wr32 m1 0x1004 640) 0x1008 0x7FE00) 0x1000 (1 OR 4);
          m3 = (if has_text cmdline then wr32 (strcpy_mem m2 0x2000 (the cmdline)) 0x1010 0x2000 else m2)
      in case copy_in m3 0x100000 kernel_data 0 (unat kernel_size) of
           None \<Rightarrow> None
         | Some m4 \<Rightarrow> Some (Boot_Jump 0x100000 [0x2BADB002, 0x1000] m4))"

definition ia32_boot_multiboot2 :: "mem \<Rightarrow> u8 list \<Rightarrow> u32 \<Rightarrow> u8 list ptr \<Rightarrow> boot_outcome cmem" where
  "ia32_boot_multiboot2 m kernel_data kernel_size cmdline = mb2_boot m kernel_data (unat kernel_size) cmdline"

definition ia32_load_kernel :: "file_loader \<Rightarrow> mem \<Rightarrow> u8 list \<Rightarrow> u8 list ptr \<Rightarrow> u8 list ptr \<Rightarrow> boot_outcome cmem" where
  "ia32_load_kernel load_file m kernel_path initrd_path cmdline =
     (case load_file kernel_path of
        None \<Rightarrow> Some (Boot_Failed (-1))
      | Some (data, kernel_size) \<Rightarrow> do {
          w \<leftarrow> peek32 data 0;
          if w = 0x53726448 then ia32_boot_linux load_file m data kernel_size initrd_path cmdline
          else if w = 0x1BADB002 then ia32_boot_multiboot1 m data kernel_size cmdline
          else if w = 0xE85250D6 then ia32_boot_multiboot2 m data kernel_size cmdline
          else Some (Boot_Failed (-1))
        })"

definition ia32_verify_kernel :: "file_loader \<Rightarrow> u8 list \<Rightarrow> int cmem" where
  "ia32_verify_kernel load_file kernel_path =
     (case load_file kernel_path of
        None \<Rightarrow> Some (-1)
      | Some (data, kernel_size) \<Rightarrow>
          map_option (\<lambda>w. if w = 0x53726448 \<or> w = 0x1BADB002 \<or> w = 0xE85250D6 then 0 else -1) (peek32 data 0))"

section \<open>PC kernels, 64 bits\<close>

text \<open>Sizes are 64-bit; the fields of the Multiboot 1 structure are 64-bit too, 168 bytes in all.\<close>

definition x86_64_boot_linux :: "file_loader \<Rightarrow> mem \<Rightarrow> u8 list \<Rightarrow> u64 \<Rightarrow> u8 list ptr \<Rightarrow> u8 list ptr \<Rightarrow> boot_outcome cmem" where
  "x86_64_boot_linux load_file m data kernel_size initrd_path cmdline = do {
     setup_size \<leftarrow> linux_setup_size data;
     m1 \<leftarrow> copy_in m 0x100000 data (unat setup_size) (unat (kernel_size - ucast setup_size));
     (a, n, m2) \<leftarrow> linux_initrd load_file m1 initrd_path (0x100000 + kernel_size - ucast setup_size);
     m3 \<leftarrow> linux_params m2 data setup_size cmdline (if 0 < a then Some (ucast a, n) else None);
     Some (Boot_Jump 0x100000 [0x90000] m3)
   }"

definition x86_64_boot_multiboot1 :: "mem \<Rightarrow> u8 list \<Rightarrow> u64 \<Rightarrow> u8 list ptr \<Rightarrow> boot_outcome cmem" where
  "x86_64_boot_multiboot1 m kernel_data kernel_size cmdline =
     (let m1 = wr m 0x1000 (replicate 168 0);
          m2 = wr64 (wr64 (wr64 m1 0x1008 640) 0x1010 0x7FE00) 0x1000 (1 OR 4);
          m3 = (if has_text cmdline then wr64 (strcpy_mem m2 0x2000 (the cmdline)) 0x1020 0x2000 else m2)
      in case copy_in m3 0x100000 kernel_data 0 (unat kernel_size) of
           None \<Rightarrow> None
         | Some m4 \<Rightarrow> Some (Boot_Jump 0x100000 [0x2BADB002, 0x1000] m4))"

definition x86_64_boot_multiboot2 :: "mem \<Rightarrow> u8 list \<Rightarrow> u64 \<Rightarrow> u8 list ptr \<Rightarrow> boot_outcome cmem" where
  "x86_64_boot_multiboot2 m kernel_data kernel_size cmdline = mb2_boot m kernel_data (unat kernel_size) cmdline"

definition x86_64_load_kernel :: "file_loader \<Rightarrow> mem \<Rightarrow> u8 list \<Rightarrow> u8 list ptr \<Rightarrow> u8 list ptr \<Rightarrow> boot_outcome cmem" where
  "x86_64_load_kernel load_file m kernel_path initrd_path cmdline =
     (case load_file kernel_path of
        None \<Rightarrow> Some (Boot_Failed (-1))
      | Some (data, size32) \<Rightarrow> do {
          w \<leftarrow> peek32 data 0;
          if w = 0x53726448 then x86_64_boot_linux load_file m data (ucast size32) initrd_path cmdline
          else if w = 0x1BADB002 then x86_64_boot_multiboot1 m data (ucast size32) cmdline
          else if w = 0xE85250D6 then x86_64_boot_multiboot2 m data (ucast size32) cmdline
          else Some (Boot_Failed (-1))
        })"

definition x86_64_verify_kernel :: "file_loader \<Rightarrow> u8 list \<Rightarrow> int cmem" where
  "x86_64_verify_kernel load_file kernel_path =
     (case load_file kernel_path of
        None \<Rightarrow> Some (-1)
      | Some (data, kernel_size) \<Rightarrow>
          map_option (\<lambda>w. if w = 0x53726448 \<or> w = 0x1BADB002 \<or> w = 0xE85250D6 then 0 else -1) (peek32 data 0))"

section \<open>The command line of Linux\<close>

lemma linux_params_eq:
  assumes "linux_params m data ss (Some s) initrd = Some m'" and "s \<noteq> []"
  shows "\<exists>m1. m' = (let m2 = wr32 (strcpy_mem m1 (addr 0x90000 32) s) (addr 0x90000 60) 0x90020;
      m3 = (case initrd of None \<Rightarrow> m2 | Some (a, n) \<Rightarrow> wr32 (wr32 m2 (addr 0x90000 44) a) (addr 0x90000 48) n)
    in wr32 (wr32 m3 (addr 0x90000 128) 0x7FE00) (addr 0x90000 132) 0x7FE00)"
  using assms by (auto simp: linux_params_def Let_def addr_def split: option.splits)

lemma linux_params_no_initrd:
  assumes "linux_params m data ss (Some s) None = Some m'" and "s \<noteq> []" and "0 \<notin> set s" and "length s < 2 ^ 31"
  shows "holds_str m' 0x90020 (if length s < 28 then s else take 28 s @ [0x20])" "rd32 m' 0x9003C = 0x90020"
proof -
  obtain m1 where m': "m' = wr32 (wr32 (wr32 (strcpy_mem m1 (addr 0x90000 32) s) (addr 0x90000 60) 0x90020) (addr 0x90000 128) 0x7FE00)
      (addr 0x90000 132) 0x7FE00"
    using linux_params_eq [OF assms(1,2)] by (auto simp: Let_def)
  have a: "(0x90020 :: u64) = addr 0x90000 32" "(0x9003C :: u64) = addr 0x90000 60" by (simp_all add: addr_def)
  show "rd32 m' 0x9003C = 0x90020" unfolding a using assms(4) by (simp add: m')
  show "holds_str m' 0x90020 (if length s < 28 then s else take 28 s @ [0x20])"
  proof (cases "length s < 28")
    case True
    have "holds (strcpy_mem m1 (addr 0x90000 32) s) 0x90000 32 (s @ [0])" using True by (intro holds_strcpy) simp
    then show ?thesis unfolding a using True assms(3) by (simp add: m' holds_str_iff)
  next
    case False
    have "le32_bytes 0x90020 = 0x20 # 0 # [9, 0]" by (simp add: le32_bytes_def byte_at_def)
    moreover have "holds (strcpy_mem m1 (addr 0x90000 32) s) 0x90000 32 (take 28 s)"
      using assms(4) by (intro holds_strcpy_prefix) simp
    moreover have "0 \<notin> set (take 28 s)" using assms(3) by (meson in_set_takeD)
    ultimately have "holds_str (wr32 (strcpy_mem m1 (addr 0x90000 32) s) (addr 0x90000 60) 0x90020) (addr 0x90000 32) (take 28 s @ [0x20])"
      using holds_str_clobbered [of "strcpy_mem m1 (addr 0x90000 32) s" "0x90000" 32 "take 28 s" "0x20" "[9, 0]"] False
      by (simp add: wr32_def)
    then show ?thesis unfolding a using False by (simp add: m' holds_str_iff)
  qed
qed

lemma linux_params_initrd:
  assumes "linux_params m data ss (Some s) (Some (a, n)) = Some m'" and "s \<noteq> []" and "length s < 2 ^ 31"
  shows "holds m' 0x90000 32 (take 12 s)" "holds m' 0x90000 44 (le32_bytes a @ le32_bytes n)" "rd32 m' 0x9003C = 0x90020"
proof -
  obtain m1 where m': "m' = wr32 (wr32 (wr32 (wr32 (wr32 (strcpy_mem m1 (addr 0x90000 32) s) (addr 0x90000 60) 0x90020)
      (addr 0x90000 44) a) (addr 0x90000 48) n) (addr 0x90000 128) 0x7FE00) (addr 0x90000 132) 0x7FE00"
    using linux_params_eq [OF assms(1,2)] by (auto simp: Let_def)
  have q: "(0x9003C :: u64) = addr 0x90000 60" by (simp add: addr_def)
  show "rd32 m' 0x9003C = 0x90020" unfolding q using assms(3) by (simp add: m')
  show "holds m' 0x90000 44 (le32_bytes a @ le32_bytes n)" by (simp add: m' holds_append)
  have "holds (strcpy_mem m1 (addr 0x90000 32) s) 0x90000 32 (take 12 s)" using assms(3) by (intro holds_strcpy_prefix) simp
  then show "holds m' 0x90000 32 (take 12 s)" by (simp add: m')
qed

lemma linux_setup_size_eq:
  assumes "0 < length data"
  shows "\<exists>ss. linux_setup_size data = Some ss \<and> unat ss = 512 * (unat (data ! 0) + 1)"
proof -
  let ?n = "(ucast (data ! 0) + 1) * 512 :: u32"
  have b: "unat (ucast (data ! 0) + 1 :: u32) = unat (data ! 0) + 1" "unat (data ! 0) < 256"
    using unsigned_less [of "data ! 0", where ?'a = nat] by (simp_all add: unat_add_small unat_ucast_u8)
  then have "unat ?n = 512 * (unat (data ! 0) + 1)" by (subst unat_mult_small) simp_all
  moreover from this have "?n \<noteq> 0" by (metis mult_is_0 add_is_0 unat_0 zero_neq_numeral zero_neq_one)
  ultimately show ?thesis using assms by (simp add: linux_setup_size_def peek_def Let_def)
qed

lemma linux_load_kernel_jump:
  assumes "linux_load_kernel lf m p ip cmdline = Some (Boot_Jump e args m')"
  obtains data k ss m1 a n m2 where "lf p = Some (data, k)" "linux_setup_size data = Some ss"
    "copy_in m 0x100000 data (unat ss) (unat (k - ss)) = Some m1"
    "linux_initrd lf m1 ip (ucast (0x100000 + k - ss)) = Some (a, n, m2)"
    "linux_params m2 data ss cmdline (if 0 < a then Some (ucast a, n) else None) = Some m'" "args = [0x90000]" "e = 0x100000"
  using assms by (auto simp: linux_load_kernel_def linux_start_def split: option.splits if_splits bind_splits)

text \<open>The Linux loader stores the command line inside the boot parameters and then stores other fields over
  it. Without an initial ram disk a kernel finds a command line of up to 27 characters intact and of a longer one
  the first 28 characters and a blank.\<close>

lemma linux_cuts_cmdline:
  assumes "linux_load_kernel lf m p None (Some s) = Some (Boot_Jump e args m')"
    and "s \<noteq> []" and "0 \<notin> set s" and "length s < 2 ^ 31"
  shows "args = [0x90000] \<and> rd32 m' 0x9003C = 0x90020 \<and> holds_str m' 0x90020 (if length s < 28 then s else take 28 s @ [0x20])"
proof (rule linux_load_kernel_jump [OF assms(1)])
  fix data k ss m1 a n m2
  assume i: "linux_initrd lf m1 None (ucast (0x100000 + k - ss)) = Some (a, n, m2)"
    and q: "linux_params m2 data ss (Some s) (if 0 < a then Some (ucast a, n) else None) = Some m'" and "args = [0x90000]"
  have "linux_params m2 data ss (Some s) None = Some m'" using i q by (auto simp: linux_initrd_def)
  from linux_params_no_initrd [OF this assms(2-4)] \<open>args = [0x90000]\<close> show ?thesis by simp
qed

definition linux_sample :: "u8 list" where
  "linux_sample = replicate 20 0 @ [0x48, 0x64, 0x72, 0x53] @ replicate 492 0"

text \<open>With an initial ram disk, the Linux loader stores its address and size over the thirteenth to the
  twentieth character of the command line.\<close>

lemma linux_initrd_overwrites_cmdline:
  assumes "linux_load_kernel lf m p (Some ip) (Some s) = Some (Boot_Jump e args m')" and "ip \<noteq> []"
    and "lf p = Some (data, k)" and "lf ip = Some (d, n)" and "unat k < 2 ^ 31"
    and "s \<noteq> []" and "length s < 2 ^ 31"
  shows "rd32 m' 0x9003C = 0x90020 \<and> holds m' 0x90000 32 (take 12 s) \<and>
    holds m' 0x90000 44 (le32_bytes (0x100000 + k - of_nat (512 * (unat (data ! 0) + 1))) @ le32_bytes n)"
proof (rule linux_load_kernel_jump [OF assms(1)])
  fix data' k' ss m1 a n' m2
  assume l: "lf p = Some (data', k')" and st: "linux_setup_size data' = Some ss"
    and i: "linux_initrd lf m1 (Some ip) (ucast (0x100000 + k' - ss)) = Some (a, n', m2)"
    and q: "linux_params m2 data' ss (Some s) (if 0 < a then Some (ucast a, n') else None) = Some m'"
  have eqs: "data' = data" "k' = k" using l assms(3) by simp_all
  let ?A = "0x100000 + k - ss"
  have "0 < length data" using st eqs by (auto simp: linux_setup_size_def peek_def split: if_splits)
  then have su: "unat ss = 512 * (unat (data ! 0) + 1)" using linux_setup_size_eq [of data] st eqs by auto
  have b: "unat (data ! 0) < 256" using unsigned_less [of "data ! 0", where ?'a = nat] by simp
  have s': "ss = of_nat (512 * (unat (data ! 0) + 1))" by (metis su of_nat_unat ucast_id)
  have "unat (0x100000 + k) = 0x100000 + unat k" using assms(5) by (subst unat_add_small) simp_all
  then have "unat ?A = 0x100000 + unat k - unat ss" using su b by (subst unat_sub_small) simp_all
  then have "0 < unat ?A" using b su by simp
  then have pos: "0 < (ucast ?A :: u64)" by (simp add: word_less_nat_alt unat_ucast_u32)
  have a: "a = ucast ?A" "n' = n" using i assms(2,4) eqs by (auto simp: linux_initrd_def)
  then have "linux_params m2 data ss (Some s) (Some (?A, n)) = Some m'" using q pos eqs by simp
  from linux_params_initrd [OF this assms(6,7)] show ?thesis by (simp add: s')
qed

section \<open>Kernel and ram disk in memory\<close>

lemma linux_params_frame:
  assumes "linux_params m data ss (Some s) initrd = Some m'" and "unat ss \<le> 131072" and "length s < 2 ^ 18"
    and "0x100000 \<le> p" and "p + length xs < 2 ^ 59"
  shows "holds m' 0 p xs \<longleftrightarrow> holds m 0 p xs"
proof -
  have a: "(0x90000 :: u64) = addr 0 0x90000" "(0x90020 :: u64) = addr 0 0x90020" "(0x9002C :: u64) = addr 0 0x9002C"
    "(0x90030 :: u64) = addr 0 0x90030" "(0x9003C :: u64) = addr 0 0x9003C" "(0x90080 :: u64) = addr 0 0x90080" "(0x90084 :: u64) = addr 0 0x90084"
    by (simp_all add: addr_zero)
  have "holds (wr (wr m (addr 0 0x90000) (replicate 136 0)) (addr 0 0x90000) (take (unat ss) data)) 0 p xs \<longleftrightarrow> holds m 0 p xs"
    using assms(2-5) by (subst holds_wr_other; simp add: holds_wr_other)
  moreover obtain m1 where m1: "m1 = wr (wr m (addr 0 0x90000) (replicate 136 0)) (addr 0 0x90000) (take (unat ss) data)" by blast
  moreover have "m' = (let m2 = (if s \<noteq> [] then wr32 (strcpy_mem m1 (addr 0 0x90020) s) (addr 0 0x9003C) 0x90020 else m1);
      m3 = (case initrd of None \<Rightarrow> m2 | Some (a, n) \<Rightarrow> wr32 (wr32 m2 (addr 0 0x9002C) a) (addr 0 0x90030) n)
    in wr32 (wr32 m3 (addr 0 0x90080) 0x7FE00) (addr 0 0x90084) 0x7FE00)"
    using assms(1) unfolding linux_params_def a m1 option.sel by (simp add: copy_in_def Let_def split: if_splits)
  ultimately show ?thesis
    using assms(3-5) by (simp add: Let_def holds_strcpy_other split: option.split prod.split)
qed


lemma linux_params_fields:
  assumes "linux_params m data ss cmdline (Some (a, n)) = Some m'"
  shows "rd32 m' 0x9002C = a" "rd32 m' 0x90030 = n"
proof -
  have a: "(0x9002C :: u64) = addr 0 0x9002C" "(0x90030 :: u64) = addr 0 0x90030" "(0x90080 :: u64) = addr 0 0x90080" "(0x90084 :: u64) = addr 0 0x90084"
    by (simp_all add: addr_zero)
  obtain m2 where "m' = wr32 (wr32 (wr32 (wr32 m2 (addr 0 0x9002C) a) (addr 0 0x90030) n) (addr 0 0x90080) 0x7FE00) (addr 0 0x90084) 0x7FE00"
    using assms unfolding linux_params_def a by (auto simp: Let_def split: option.splits)
  then show "rd32 m' 0x9002C = a" "rd32 m' 0x90030 = n" unfolding a by simp_all
qed

text \<open>C18: The Linux loader accepts a file with its magic number and starts it with the protected-mode part of the
  file at the first megabyte and the initial ram disk right behind it, both complete; the boot parameters give the
  address and the size of the ram disk.\<close>

theorem linux_places_kernel_and_initrd:
  assumes "lf p = Some (data, of_nat (length data))" and "lf ip = Some (d, of_nat (length d))" and "ip \<noteq> []"
    and "peek32 data 20 = Some 0x53726448" and "512 * (unat (data ! 0) + 1) \<le> length data"
    and "length data < 2 ^ 29" and "length d < 2 ^ 29" and "length s < 2 ^ 18"
  shows "\<exists>m' A. linux_load_kernel lf m p (Some ip) (Some s) = Some (Boot_Jump 0x100000 [0x90000] m') \<and>
    A = 0x100000 + (length data - 512 * (unat (data ! 0) + 1)) \<and>
    holds m' 0 0x100000 (drop (512 * (unat (data ! 0) + 1)) data) \<and> holds m' 0 A d \<and>
    rd32 m' 0x9002C = of_nat A \<and> rd32 m' 0x90030 = of_nat (length d)"
proof -
  have "0 < length data" using assms(5) by (cases data) auto
  then obtain ss where ss: "linux_setup_size data = Some ss" "unat ss = 512 * (unat (data ! 0) + 1)"
    using linux_setup_size_eq by blast
  let ?k = "of_nat (length data) :: u32" and ?A = "0x100000 + (length data - unat ss)"
  have k: "unat ?k = length data" using assms(6) by (intro unat_of_nat_small) simp
  have kd: "unat (of_nat (length d) :: u32) = length d" using assms(7) by (intro unat_of_nat_small) simp
  have le: "unat ss \<le> length data" using ss(2) assms(5) by simp
  have n: "unat (?k - ss) = length data - unat ss" using k le by (simp add: unat_sub_small)
  have "unat (0x100000 + (?k - ss)) = ?A" using n assms(6) by (subst unat_add_small) simp_all
  then have A: "unat (0x100000 + ?k - ss) = ?A" by (simp only: add_diff_eq)
  have uA: "(ucast (0x100000 + ?k - ss) :: u64) = addr 0 ?A" using A by (simp only: ucast_of_nat_unat addr_zero)
  have A32: "(0x100000 + ?k - ss :: u32) = of_nat ?A" using A by (metis of_nat_unat ucast_id)
  have cA: "(ucast (addr 0 ?A) :: u32) = of_nat ?A" using uA A32 by (metis ucast_u32_u64_u32)
  let ?m1 = "wr m (addr 0 0x100000) (drop (unat ss) data)" let ?m2 = "wr ?m1 (addr 0 ?A) d"
  have c1: "copy_in m 0x100000 data (unat ss) (unat (?k - ss)) = Some ?m1" using n le by (simp add: copy_in_def addr_zero)
  have c2: "linux_initrd lf ?m1 (Some ip) (ucast (0x100000 + ?k - ss)) = Some (addr 0 ?A, of_nat (length d), ?m2)"
    using assms(2,3) kd by (simp add: linux_initrd_def copy_in_def uA)
  have "unat (data ! 0) < 256" using unsigned_less [of "data ! 0", where ?'a = nat] by simp
  then have sb: "unat ss \<le> 131072" using ss(2) by simp
  have pos: "0 < addr 0 ?A" using A uA by (metis add_pos_nonneg le0 unat_gt_0 unat_ucast_u32 word_gt_0 zero_less_numeral)
  obtain m' where m': "linux_params ?m2 data ss (Some s) (Some (of_nat ?A, of_nat (length d))) = Some m'"
    using le by (auto simp: linux_params_def copy_in_def Let_def)
  have "holds ?m2 0 0x100000 (drop (unat ss) data)" using assms(6,7) by (simp add: holds_wr_other)
  moreover have "holds ?m2 0 ?A d" using assms(6,7) by (intro holds_wr) simp
  ultimately have h: "holds m' 0 0x100000 (drop (unat ss) data)" "holds m' 0 ?A d"
    using linux_params_frame [OF m' sb assms(8)] assms(6,7) by simp_all
  have "linux_load_kernel lf m p (Some ip) (Some s) = Some (Boot_Jump 0x100000 [0x90000] m')"
    unfolding linux_load_kernel_def linux_start_def
    by (simp only: assms(1,4) ss(1) c1 c2 pos m' cA option.case prod.case Option.bind.simps simp_thms if_True if_False)
  then show ?thesis
    using h linux_params_fields [OF m'] unfolding ss(2) by blast
qed

theorem linux_places_kernel_and_initrd_witness:
  "\<exists>m'. linux_load_kernel (\<lambda>q. if q = [] then Some (linux_sample, 516) else Some ([7], 1)) (\<lambda>x. 0) [] (Some [1]) (Some []) =
      Some (Boot_Jump 0x100000 [0x90000] m') \<and> holds m' 0 0x100000 (replicate 4 0) \<and> holds m' 0 0x100004 [7] \<and> rd32 m' 0x9002C = 0x100004"
proof -
  let ?lf = "\<lambda>q. if q = [] then Some (linux_sample, 516 :: u32) else Some ([7 :: u8], 1 :: u32)"
  have "length linux_sample = 516" "linux_sample ! 0 = 0" "drop 512 linux_sample = replicate 4 0"
    "peek32 linux_sample 20 = Some 0x53726448"
    by (simp_all add: linux_sample_def nth_append peek32_def le32_at_def be32_def)
  then show ?thesis
    using linux_places_kernel_and_initrd [of ?lf "[]" linux_sample "[1]" "[7]" "[]" "\<lambda>x. 0"] by auto
qed

section \<open>Multiboot 1 on x86-64\<close>

text \<open>The 64-bit loader hands a Multiboot 1 kernel a structure with fields of 64 bits. The kernel reads
  fields of 32 bits: it is told that the command line is present, but finds the size of the upper memory as its
  address, and the lower memory as the upper. The command line itself is at another address.\<close>

lemma x86_64_multiboot1_wide_fields:
  assumes "x86_64_boot_multiboot1 m data n (Some s) = Some (Boot_Jump e args m')" and "s \<noteq> []" and "length s < 2 ^ 19"
    and "0 \<notin> set s" and "unat n < 2 ^ 32"
  shows "args = [0x2BADB002, 0x1000] \<and> rd32 m' 0x1000 = 5 \<and> rd32 m' 0x1008 = 640 \<and> rd32 m' 0x1010 = 0x7FE00 \<and>
    rd64 m' 0x1020 = 0x2000 \<and> holds_str m' 0x2000 s"
proof -
  let ?a = "addr 0x1000"
  define bs where "bs = take (unat n) data"
  have l: "length bs < 2 ^ 33" using assms(5) by (simp add: bs_def min_def)
  have m': "m' = wr (wr64 (strcpy_mem (wr64 (wr64 (wr64 (wr m (?a 0) (replicate 168 0)) (?a 8) 640) (?a 16) 0x7FE00) (?a 0) 5)
      (?a 0x1000) s) (?a 32) 0x2000) (?a 0xFF000) bs" and "args = [0x2BADB002, 0x1000]"
    using assms(1,2) by (auto simp: x86_64_boot_multiboot1_def copy_in_def Let_def addr_def bs_def split: if_splits)
  have a: "(0x1000 :: u64) = ?a 0" "(0x1008 :: u64) = ?a 8" "(0x1010 :: u64) = ?a 16" "(0x1020 :: u64) = ?a 32" "(0x2000 :: u64) = ?a 0x1000"
    by (simp_all add: addr_def)
  have "rd32 m' (?a 0) = 5" "rd32 m' (?a 8) = 640" "rd32 m' (?a 16) = 0x7FE00"
    using l assms(3) by (simp_all add: m' rd32_wr_other)
  moreover have "rd64 m' (?a 32) = 0x2000"
    using l assms(3) by (simp add: m' rd64_addr rd32_wr_other rd32_addr wr64_def wr_addr le64_nth le64_value)
  moreover have "holds_str m' (?a 0x1000) s"
    using l assms(3,4) by (simp add: m' holds_str_iff holds_wr_other)
  ultimately show ?thesis using \<open>args = _\<close> by (simp add: addr_def)
qed

end
