(* ===== verification/Net.thy ===== *)
theory Net
  imports Linux_Boot
begin

text \<open>
  The network code: checksums and address copies (\<^verbatim>\<open>net/net_utils.c\<close>), address resolution (\<^verbatim>\<open>net/arp.c\<close>), the DHCP
  and TFTP messages (\<^verbatim>\<open>net/dhcp.c\<close>, \<^verbatim>\<open>net/tftp.c\<close>). Buffers are lists of bytes; the Ethernet driver, declared
  \<open>extern\<close>, is a function from the number of the call to what it receives. Numbers are stored as on a
  little-endian machine.
\<close>

section \<open>Checksums\<close>

text \<open>\<open>even_indices\<close> are the positions \<open>0, 2, \<dots>\<close> below a length.\<close>

definition even_indices :: "int \<Rightarrow> nat list" where
  "even_indices len = map (\<lambda>k. 2 * k) [0..<(nat len + 1) div 2]"

fun net_sum :: "u8 list \<Rightarrow> nat list \<Rightarrow> u32 \<Rightarrow> u32 cmem" where
  "net_sum data [] acc = Some acc"
| "net_sum data (i # is) acc =
     (if i + 1 < length data then
        let s = acc + (push_bit 8 (ucast (data ! i)) OR ucast (data ! (i + 1)))
        in net_sum data is (if 0xFFFF < s then s - 0xFFFF else s)
      else None)"

definition net_checksum :: "u8 list \<Rightarrow> int \<Rightarrow> u16 cmem" where
  "net_checksum data len = map_option (\<lambda>s. ucast (NOT s)) (net_sum data (even_indices len) 0)"

definition net_mac_copy :: "u8 list \<Rightarrow> u8 list \<Rightarrow> u8 list cmem" where
  "net_mac_copy dst src = memcpy dst 0 src 0 6"

definition net_ip_copy :: "u8 list \<Rightarrow> u8 list \<Rightarrow> u8 list cmem" where
  "net_ip_copy dst src = memcpy dst 0 src 0 4"

text \<open>The checksum of \<^verbatim>\<open>net/pxe.c\<close>, over 16-bit words in memory order.\<close>

fun icmp_sum :: "u8 list \<Rightarrow> u32 \<Rightarrow> u32" where
  "icmp_sum (a # b # bs) acc = icmp_sum bs (acc + (ucast a OR push_bit 8 (ucast b)))"
| "icmp_sum [a] acc = acc + ucast a"
| "icmp_sum [] acc = acc"

definition icmp_checksum :: "u8 list \<Rightarrow> u16" where
  "icmp_checksum data =
     (let s = icmp_sum data 0;
          s = drop_bit 16 s + (s AND 0xFFFF);
          s = s + drop_bit 16 s
      in ucast (NOT s))"

section \<open>Address resolution\<close>

record arp_state =
  arp_cache_ip :: "u8 list"
  arp_cache_mac :: "u8 list"
  arp_cache_valid :: bool

definition arp_build_request :: "u8 list \<Rightarrow> u8 list \<Rightarrow> u8 list \<Rightarrow> u8 list \<Rightarrow> (int \<times> u8 list) cmem" where
  "arp_build_request buf sender_mac sender_ip target_ip = do {
     b0 \<leftarrow> memcpy buf 0 (replicate 42 0) 0 42;
     b1 \<leftarrow> memcpy b0 0 [0, 1, 8, 0, 6, 4, 0, 1] 0 8;
     b2 \<leftarrow> memcpy b1 8 sender_mac 0 6;
     b3 \<leftarrow> memcpy b2 14 sender_ip 0 4;
     b4 \<leftarrow> memcpy b3 18 (replicate 6 0) 0 6;
     b5 \<leftarrow> memcpy b4 24 target_ip 0 4;
     Some (28, b5)
   }"

text \<open>What the driver receives at its calls: a count and up to 60 bytes.\<close>

type_synonym ethernet = "nat \<Rightarrow> int \<times> u8 list"

definition arp_reply :: "u8 list \<Rightarrow> int \<Rightarrow> u8 list \<Rightarrow> bool cmem" where
  "arp_reply target_ip n resp =
     (if 42 \<le> n then
        if 60 \<le> length resp \<and> 4 \<le> length target_ip then
          Some (resp ! 12 = 0x08 \<and> resp ! 13 = 0x06 \<and> take 4 (drop 28 resp) = take 4 target_ip)
        else None
      else Some False)"

fun arp_wait :: "ethernet \<Rightarrow> u8 list \<Rightarrow> nat list \<Rightarrow> u8 list option cmem" where
  "arp_wait eth target_ip [] = Some None"
| "arp_wait eth target_ip (t # ts) =
     (case memcpy (replicate 60 0) 0 (snd (eth t)) 0 (length (snd (eth t))) of
        None \<Rightarrow> None
      | Some resp \<Rightarrow>
          (case arp_reply target_ip (fst (eth t)) resp of
             None \<Rightarrow> None
           | Some ok \<Rightarrow> if ok then Some (Some (take 6 (drop 22 resp))) else arp_wait eth target_ip ts))"

text \<open>Three requests, ten thousand polls after each: the calls of \<open>recv_ethernet\<close> are numbered through. The
  request is sent again every ten thousand polls; the result and the new cache.\<close>

definition arp_resolve ::
  "ethernet \<Rightarrow> arp_state \<Rightarrow> u8 list \<Rightarrow> u8 list \<Rightarrow> u8 list \<Rightarrow> u8 list \<Rightarrow> (int \<times> u8 list \<times> arp_state) cmem" where
  "arp_resolve eth st sender_mac sender_ip target_ip out_mac =
     (if length target_ip < 4 then None
      else if arp_cache_valid st \<and> take 4 target_ip = take 4 (arp_cache_ip st)
      then map_option (\<lambda>o'. (0, o', st)) (memcpy out_mac 0 (arp_cache_mac st) 0 6)
      else do {
        _ \<leftarrow> arp_build_request (replicate 42 0) sender_mac sender_ip target_ip;
        r \<leftarrow> arp_wait eth target_ip [0..<3 * 10000];
        case r of
          None \<Rightarrow> Some (-1, out_mac, st)
        | Some mac \<Rightarrow> do {
            o' \<leftarrow> memcpy out_mac 0 mac 0 6;
            Some (0, o', st\<lparr>arp_cache_ip := take 4 target_ip, arp_cache_mac := mac, arp_cache_valid := True\<rparr>)
          }
      })"

section \<open>DHCP\<close>

record dhcp_state =
  dhcp_options :: "u8 list"
  dhcp_lease_time :: u32
  dhcp_renew_time :: u32
  dhcp_rebind_time :: u32

text \<open>The head that the three builders share, then the options of each.\<close>

definition dhcp_build :: "u8 list \<Rightarrow> u8 list \<Rightarrow> u32 \<Rightarrow> (int \<times> u8 list) cmem" where
  "dhcp_build opts buf xid = do {
     b0 \<leftarrow> memcpy buf 0 (replicate 300 0) 0 300;
     b1 \<leftarrow> memcpy b0 0 ([1, 1, 6, 0] @ le32_bytes xid) 0 8;
     b2 \<leftarrow> memcpy b1 236 ([99, 130, 83, 99] @ opts) 0 (4 + length opts);
     Some (240 + int (length opts), b2)
   }"

definition dhcp_build_discover :: "u8 list \<Rightarrow> u32 \<Rightarrow> (int \<times> u8 list) cmem" where
  "dhcp_build_discover = dhcp_build [53, 1, 1, 55, 4, 1, 3, 6, 15, 255]"

definition dhcp_renew :: "u8 list \<Rightarrow> u32 \<Rightarrow> (int \<times> u8 list) cmem" where
  "dhcp_renew = dhcp_build [53, 1, 5, 255]"

definition dhcp_release :: "u8 list \<Rightarrow> u32 \<Rightarrow> (int \<times> u8 list) cmem" where
  "dhcp_release = dhcp_build [53, 1, 7, 255]"

function dhcp_options_loop :: "nat \<Rightarrow> dhcp_state \<Rightarrow> dhcp_state cmem" where
  "dhcp_options_loop i st =
     (if i < 312 then
        (case peek (dhcp_options st) i of
           None \<Rightarrow> None
         | Some code \<Rightarrow>
             if code = 0xFF then Some st
             else (case peek (dhcp_options st) (i + 1) of
                     None \<Rightarrow> None
                   | Some len \<Rightarrow>
                       if code = 51 \<or> code = 58 \<or> code = 59 then
                         (case peek32 (dhcp_options st) (i + 2) of
                            None \<Rightarrow> None
                          | Some v \<Rightarrow>
                              dhcp_options_loop (i + 2 + unat len)
                                (if code = 51 then st\<lparr>dhcp_lease_time := v\<rparr>
                                 else if code = 58 then st\<lparr>dhcp_renew_time := v\<rparr> else st\<lparr>dhcp_rebind_time := v\<rparr>))
                       else dhcp_options_loop (i + 2 + unat len) st))
      else Some st)"
  by pat_completeness auto
termination
  by (relation "measure (\<lambda>(i, st). 312 - i)") auto

declare dhcp_options_loop.simps [simp del]

definition dhcp_parse_offer :: "u8 list \<Rightarrow> dhcp_state \<Rightarrow> (int \<times> u32 \<times> dhcp_state) cmem" where
  "dhcp_parse_offer buf st = do {
     offered_ip \<leftarrow> peek32 buf 16;
     opts \<leftarrow> memcpy (dhcp_options st) 0 buf 240 312;
     st' \<leftarrow> dhcp_options_loop 0 (st\<lparr>dhcp_options := opts\<rparr>);
     Some (0, offered_ip, st')
   }"

section \<open>TFTP\<close>

text \<open>Decimal digits as \<open>sprintf\<close> prints them, and characters as bytes.\<close>

definition ascii :: "string \<Rightarrow> u8 list" where
  "ascii s = map (of_nat \<circ> of_char) s"

fun decimal :: "nat \<Rightarrow> u8 list" where
  "decimal n = (if n < 10 then [48 + of_nat n] else decimal (n div 10) @ [48 + of_nat (n mod 10)])"

declare decimal.simps [simp del]

definition tftp_send_rrq :: "u8 list \<Rightarrow> u8 list \<Rightarrow> int \<Rightarrow> (int \<times> u8 list) cmem" where
  "tftp_send_rrq filename buf blksize =
     (let opts = (if 512 < blksize then ascii ''blksize'' @ [0] @ decimal (nat blksize) @ [0] else []);
          packet = [0, 1] @ filename @ [0] @ ascii ''octet'' @ [0] @ opts @ [0]
      in if 512 < blksize \<and> 8 \<le> length (decimal (nat blksize)) then None
         else map_option (Pair (int (length packet))) (memcpy buf 0 packet 0 (length packet)))"

definition tftp_build_rrq :: "u8 list \<Rightarrow> u8 list \<Rightarrow> (int \<times> u8 list) cmem" where
  "tftp_build_rrq filename buf = tftp_send_rrq filename buf 512"

definition tftp_parse_data :: "u8 list \<Rightarrow> u8 list \<Rightarrow> (int \<times> u16 \<times> u8 list \<times> int) option cmem" where
  "tftp_parse_data buf data =
     (if length buf < 2 then None
      else if buf ! 1 \<noteq> 3 then Some None
      else if length buf < 6 then None
      else let block = push_bit 8 (ucast (buf ! 2)) OR ucast (buf ! 3);
               datalen = (if buf ! 4 = 0 \<and> buf ! 5 = 0 then 0 else 512)
           in map_option (\<lambda>d. Some (0, block, d, int datalen)) (memcpy data 0 buf 4 datalen))"

text \<open>\<open>atoi\<close> on a string, and the walk over the zero-terminated options of an acknowledgement: the block size
  when it is found. A string that does not end inside the buffer is left.\<close>

fun atoi_digits :: "int \<Rightarrow> u8 list \<Rightarrow> int" where
  "atoi_digits v [] = v"
| "atoi_digits v (c # cs) = (if 48 \<le> c \<and> c \<le> 57 then atoi_digits (10 * v + (uint c - 48)) cs else v)"

definition atoi :: "u8 list \<Rightarrow> int" where
  "atoi s = (case dropWhile (\<lambda>c. c = 32 \<or> 9 \<le> c \<and> c \<le> 13) s of
               [] \<Rightarrow> 0
             | c # cs \<Rightarrow> if c = 45 then - atoi_digits 0 cs else if c = 43 then atoi_digits 0 cs else atoi_digits 0 (c # cs))"

function tftp_oack_loop :: "u8 list \<Rightarrow> int option cmem" where
  "tftp_oack_loop bs =
     (let name = takeWhile (\<lambda>b. b \<noteq> 0) bs; more = drop (length name + 1) bs in
      if length name = length bs then None
      else if name = [] then Some None
      else if name = ascii ''blksize'' then
        (if 0 \<in> set more then Some (Some (atoi (takeWhile (\<lambda>b. b \<noteq> 0) more))) else None)
      else tftp_oack_loop more)"
  by pat_completeness auto
termination
  by (relation "measure length") (auto simp: Let_def dest: le_neq_trans [OF length_takeWhile_le])

declare tftp_oack_loop.simps [simp del]

definition tftp_parse_oack :: "u8 list \<Rightarrow> int option cmem" where
  "tftp_parse_oack buf = (if length buf < 2 then None else tftp_oack_loop (drop 2 buf))"

section \<open>Ones' complement sums\<close>

fun be_sum :: "u8 list \<Rightarrow> nat" where
  "be_sum (a # b # bs) = 256 * unat a + unat b + be_sum bs"
| "be_sum [a] = 0"
| "be_sum [] = 0"

fun le_sum :: "u8 list \<Rightarrow> nat" where
  "le_sum (a # b # bs) = unat a + 256 * unat b + le_sum bs"
| "le_sum [a] = unat a"
| "le_sum [] = 0"

text \<open>The representative of a number modulo \<open>2\<^sup>1\<^sup>6 - 1\<close> that ones' complement addition keeps.\<close>

definition ones :: "nat \<Rightarrow> nat" where
  "ones n = (if n = 0 then 0 else (n - 1) mod 65535 + 1)"

lemma ones_le: "ones n \<le> 65535"
  by (simp add: ones_def Suc_le_eq)

lemma ones_0 [simp]: "ones n = 0 \<longleftrightarrow> n = 0"
  by (simp add: ones_def)

lemma ones_zero [simp]: "ones 0 = 0"
  by (simp add: ones_def)

lemma ones_mod: "ones n mod 65535 = n mod 65535"
proof (cases n)
  case (Suc k)
  then show ?thesis by (simp add: ones_def mod_Suc_eq)
qed (simp add: ones_def)

lemma ones_unique: "m \<le> 65535 \<Longrightarrow> (m = 0 \<longleftrightarrow> n = 0) \<Longrightarrow> m mod 65535 = n mod 65535 \<Longrightarrow> ones n = m"
proof -
  assume m: "m \<le> 65535" "m = 0 \<longleftrightarrow> n = 0" "m mod 65535 = n mod 65535"
  have o: "ones n \<le> 65535" "ones n = 0 \<longleftrightarrow> n = 0" "ones n mod 65535 = n mod 65535" by (simp_all add: ones_le ones_mod)
  have "ones n mod 65535 = m mod 65535" using o(3) m(3) by simp
  moreover have "x mod 65535 = (if x = 65535 then 0 else x)" if "x \<le> 65535" for x :: nat using that by auto
  ultimately show ?thesis using m o by (auto split: if_splits)
qed

lemma ones_step:
  assumes "w \<le> 65535"
  shows "(if 65535 < ones n + w then ones n + w - 65535 else ones n + w) = ones (n + w)"
proof (rule sym, rule ones_unique)
  let ?m = "if 65535 < ones n + w then ones n + w - 65535 else ones n + w"
  show "?m \<le> 65535" using ones_le [of n] assms by auto
  show "?m = 0 \<longleftrightarrow> n + w = 0" using ones_le [of n] by auto
  have "?m mod 65535 = (ones n + w) mod 65535" by (auto simp: le_mod_geq)
  also have "\<dots> = (n + w) mod 65535" using ones_mod [of n] by (metis mod_add_left_eq)
  finally show "?m mod 65535 = (n + w) mod 65535" .
qed

lemma byte_le: "unat (x :: u8) \<le> 255"
  using unsigned_less [of x, where ?'a = nat] by simp

lemma unat_word_bytes: "unat (push_bit 8 (ucast a) OR ucast b :: u32) = 256 * unat (a :: u8) + unat (b :: u8)"
proof -
  have "push_bit 8 (ucast a) OR ucast b = (push_bit 8 (ucast a) + ucast b :: u32)"
    by (rule disjunctive_add_eq_or [symmetric]) (rule bit_word_eqI, auto simp: bit_and_iff bit_push_bit_iff bit_ucast_iff dest: bit_imp_le_length)
  moreover have "push_bit 8 (ucast a :: u32) = 256 * ucast a" by (simp add: push_bit_eq_mult)
  moreover have "unat (256 * ucast a :: u32) = 256 * unat a"
    using byte_le [of a] by (subst unat_mult_small) (simp_all add: unat_ucast_u8)
  ultimately show ?thesis using byte_le [of a] byte_le [of b] by (simp add: unat_add_small unat_ucast_u8)
qed

lemma net_sum_eq:
  "even (length d) \<Longrightarrow> length p = 2 * j \<Longrightarrow> acc = of_nat (ones n) \<Longrightarrow>
   net_sum (p @ d) (map (\<lambda>k. 2 * k) [j..<j + length d div 2]) acc = Some (of_nat (ones (n + be_sum d)))"
proof (induction d arbitrary: p j n acc rule: be_sum.induct)
  case (1 a b bs)
  let ?w = "256 * unat a + unat b"
  have w: "?w \<le> 65535" using byte_le [of a] byte_le [of b] by simp
  have u: "unat (of_nat (ones n) :: u32) = ones n" using ones_le [of n] by (intro unat_of_nat_small) simp
  define s where "s = (of_nat (ones n) :: u32) + (push_bit 8 (ucast a) OR ucast b)"
  have s: "unat s = ones n + ?w"
    using ones_le [of n] w by (simp add: s_def unat_add_small u unat_word_bytes)
  have "(if 0xFFFF < s then s - 0xFFFF else s) = of_nat (if 65535 < ones n + ?w then ones n + ?w - 65535 else ones n + ?w)"
  proof (cases "0xFFFF < s")
    case True
    then have g: "65535 < unat s" by (simp add: word_less_nat_alt)
    then have "unat (s - 0xFFFF) = unat s - 65535" by (subst unat_sub_small) simp_all
    then have "s - 0xFFFF = of_nat (unat s - 65535)" by (metis of_nat_unat ucast_id)
    then show ?thesis using True g s by simp
  next
    case False
    then have g: "\<not> 65535 < unat s" by (simp add: word_less_nat_alt)
    have "s = of_nat (unat s)" by simp
    then show ?thesis using False g s by (simp only: if_False)
  qed
  also have "\<dots> = of_nat (ones (n + ?w))" using ones_step [OF w, of n] by simp
  finally have e: "(if 0xFFFF < s then s - 0xFFFF else s) = of_nat (ones (n + ?w))" .
  have l: "j < j + length (a # b # bs) div 2" "Suc j + length bs div 2 = j + length (a # b # bs) div 2" by simp_all
  have step: "net_sum (p @ a # b # bs) (2 * j # ks) acc = net_sum ((p @ [a, b]) @ bs) ks (of_nat (ones (n + ?w)))" for ks
    using "1.prems"(2,3) e [unfolded s_def] by (simp add: nth_append Let_def split: if_splits)
  have "net_sum ((p @ [a, b]) @ bs) (map (\<lambda>k. 2 * k) [Suc j..<Suc j + length bs div 2]) (of_nat (ones (n + ?w))) =
      Some (of_nat (ones (n + ?w + be_sum bs)))"
    using "1.prems" by (intro "1.IH") simp_all
  then show ?case
    by (simp only: upt_conv_Cons [OF l(1)] list.map step l(2) be_sum.simps add.assoc)
qed simp_all

lemma net_checksum_eq:
  assumes "even (length d)"
  shows "net_checksum d (int (length d)) = Some (ucast (NOT (of_nat (ones (be_sum d)) :: u32)))"
proof -
  have "(nat (int (length d)) + 1) div 2 = length d div 2" using assms by (simp add: even_Suc_div_two)
  then show ?thesis
    using net_sum_eq [of d "[]" 0 0 0] assms by (simp add: net_checksum_def even_indices_def)
qed

lemma unat_ucast_not:
  assumes "unat (s :: u32) mod 65536 = n" and "n \<le> 65535"
  shows "unat (ucast (NOT s) :: u16) = 65535 - n"
proof -
  have "(ucast (NOT s) :: u16) = NOT (ucast s)" by (rule bit_word_eqI) (simp add: bit_ucast_iff bit_not_iff)
  then have e: "(ucast (NOT s) :: u16) = - 1 - ucast s" by (simp add: not_eq_complement)
  have u: "unat (ucast s :: u16) = n" using assms(1) by (simp add: unsigned_ucast_eq take_bit_eq_mod)
  have m: "unat (- 1 :: u16) = 65535" by (simp add: unsigned_minus_1_eq_mask mask_eq_exp_minus_1)
  show ?thesis unfolding e using assms(2) by (subst unat_sub_small) (simp_all only: u m)
qed

lemma unat_bytes16: "256 * unat (byte_at 8 (c :: u16)) + unat (byte_at 0 c) = unat c"
proof -
  have h: "byte_at 8 c = ucast (drop_bit 8 c)" by (rule bit_word_eqI) (simp add: bit_byte_at bit_ucast_iff bit_drop_bit_eq)
  have l: "byte_at 0 c = ucast c" by (rule bit_word_eqI) (simp add: bit_byte_at bit_ucast_iff)
  have c: "unat c < 65536" using unsigned_less [of c, where ?'a = nat] by simp
  have "unat (drop_bit 8 c) = unat c div 256" by (simp add: drop_bit_eq_div unat_div)
  moreover have "unat c div 256 < 256" using c by (simp add: less_mult_imp_div_less)
  ultimately have "unat (byte_at 8 c) = unat c div 256" unfolding h by (simp add: unsigned_ucast_eq take_bit_nat_eq_self)
  moreover have "unat (byte_at 0 c) = unat c mod 256" unfolding l by (simp add: unsigned_ucast_eq take_bit_eq_mod)
  ultimately show ?thesis by simp
qed

lemma be_sum_append: "even (length d) \<Longrightarrow> be_sum (d @ e) = be_sum d + be_sum e"
  by (induction d rule: be_sum.induct) simp_all



lemma le_sum_bound: "le_sum d \<le> 65535 * length d"
proof (induction d rule: le_sum.induct)
  case (1 a b bs)
  then show ?case using byte_le [of a] byte_le [of b] by simp
next
  case (2 a)
  then show ?case using byte_le [of a] by simp
qed simp

lemma icmp_sum_eq: "unat acc + le_sum d < 2 ^ 32 \<Longrightarrow> unat (icmp_sum d acc) = unat acc + le_sum d"
proof (induction d arbitrary: acc rule: le_sum.induct)
  case (1 a b bs)
  have w: "unat (ucast a OR push_bit 8 (ucast b) :: u32) = unat a + 256 * unat b"
    using unat_word_bytes [of b a] by (simp add: or.commute)
  then have "unat (acc + (ucast a OR push_bit 8 (ucast b))) = unat acc + (unat a + 256 * unat b)"
    using "1.prems" by (subst unat_add_small) simp_all
  then show ?case using "1.IH" [of "acc + (ucast a OR push_bit 8 (ucast b))"] "1.prems" by simp
next
  case (2 a)
  then show ?case by (simp add: unat_add_small unat_ucast_u8)
qed simp

lemma fold_ones:
  assumes "n < 2 ^ 32"
  shows "(n div 65536 + n mod 65536 + (n div 65536 + n mod 65536) div 65536) mod 65536 = ones n"
proof -
  define q t where "q = n div 65536" and "t = n mod 65536"
  have b: "q \<le> 65535" "t \<le> 65535" using assms by (simp_all add: q_def t_def less_Suc_eq_le [symmetric] less_mult_imp_div_less)
  have n: "n = 65535 * q + (q + t)" using div_mult_mod_eq [of n 65536] by (simp add: q_def t_def)
  have m: "n mod 65535 = (q + t) mod 65535" by (subst n) (simp only: mod_mult_self4)
  have "ones n = (q + t + (q + t) div 65536) mod 65536"
  proof (cases "q + t < 65536")
    case True
    then have "(q + t + (q + t) div 65536) mod 65536 = q + t" by simp
    then show ?thesis using True n m by (intro ones_unique) simp_all
  next
    case False
    then obtain k where k: "q + t = 65536 + k" using le_Suc_ex [of 65536 "q + t"] by auto
    then have "k \<le> 65534" using b by simp
    moreover from this have "(65536 + k) div 65536 = 1" by (subst div_add_self1) simp_all
    ultimately have "(q + t + (q + t) div 65536) mod 65536 = k + 1" unfolding k by (simp only: add.assoc mod_add_self1) simp
    moreover have "(k + 1) mod 65535 = (q + t) mod 65535"
    proof -
      have "q + t = 65535 + (k + 1)" using k by simp
      then show ?thesis by (simp only: mod_add_self1)
    qed
    ultimately show ?thesis using k m n b by (intro ones_unique) simp_all
  qed
  then show ?thesis by (simp add: q_def t_def)
qed

lemma le_be_mod: "even (length d) \<Longrightarrow> le_sum d mod 65535 = 256 * be_sum d mod 65535"
proof (induction d rule: be_sum.induct)
  case (1 a b bs)
  have "256 * be_sum (a # b # bs) = 65535 * unat a + (unat a + 256 * unat b + 256 * be_sum bs)" by (simp add: algebra_simps)
  then have "256 * be_sum (a # b # bs) mod 65535 = (unat a + 256 * unat b + 256 * be_sum bs) mod 65535" by (simp only: mod_mult_self4)
  also have "\<dots> = (unat a + 256 * unat b + le_sum bs) mod 65535" using 1 by (metis mod_add_right_eq even_Suc length_Cons)
  finally show ?case by simp
qed simp_all

lemma le_be_zero: "even (length d) \<Longrightarrow> le_sum d = 0 \<longleftrightarrow> be_sum d = 0"
  by (induction d rule: be_sum.induct) auto

lemma ones_swap:
  assumes "even (length d)"
  shows "ones (le_sum d) = 256 * (ones (be_sum d) mod 256) + ones (be_sum d) div 256"
proof (rule ones_unique)
  let ?v = "ones (be_sum d)"
  have v: "?v \<le> 65535" by (rule ones_le)
  show "256 * (?v mod 256) + ?v div 256 \<le> 65535" using v by (simp add: less_Suc_eq_le [symmetric] less_mult_imp_div_less)
  show "256 * (?v mod 256) + ?v div 256 = 0 \<longleftrightarrow> le_sum d = 0"
    using le_be_zero [OF assms] by (metis add_is_0 div_mult_mod_eq mult_is_0 ones_0 zero_neq_numeral)
  have "256 * ?v = 65535 * (?v div 256) + (256 * (?v mod 256) + ?v div 256)"
    using div_mult_mod_eq [of ?v 256] by linarith
  then have "256 * ?v mod 65535 = (256 * (?v mod 256) + ?v div 256) mod 65535" by (simp only: mod_mult_self4)
  moreover have "256 * ?v mod 65535 = 256 * be_sum d mod 65535" by (metis mod_mult_right_eq ones_mod)
  ultimately show "(256 * (?v mod 256) + ?v div 256) mod 65535 = le_sum d mod 65535" using le_be_mod [OF assms] by simp
qed

lemma digits256:
  assumes "256 * a + b = 256 * a' + (b' :: nat)" and "b < 256" and "b' < 256"
  shows "a = a'" "b = b'"
proof -
  have "a = (256 * a + b) div 256" using assms(2) by simp
  also have "\<dots> = a'" unfolding assms(1) using assms(3) by simp
  finally show "a = a'" .
  then show "b = b'" using assms(1) by simp
qed

lemma icmp_checksum_value:
  assumes "length d \<le> 65536"
  shows "unat (icmp_checksum d) = 65535 - ones (le_sum d)"
proof -
  let ?s = "icmp_sum d 0" let ?f = "drop_bit 16 ?s + (?s AND 0xFFFF)"
  have l: "le_sum d < 2 ^ 32" using le_sum_bound [of d] assms by simp
  then have s: "unat ?s = le_sum d" using icmp_sum_eq [of 0 d] by simp
  have h: "unat (drop_bit 16 x) = unat x div 65536" "unat (x AND 0xFFFF) = unat x mod 65536" for x :: u32
  proof -
    show "unat (drop_bit 16 x) = unat x div 65536" by (simp add: drop_bit_eq_div unat_div)
    have "x AND 0xFFFF = take_bit 16 x" by (simp add: take_bit_eq_mask mask_eq_exp_minus_1)
    then show "unat (x AND 0xFFFF) = unat x mod 65536" by (simp add: take_bit_eq_mod unat_mod)
  qed
  have q: "le_sum d div 65536 < 65536" using l by (simp add: less_mult_imp_div_less)
  have f: "unat ?f = le_sum d div 65536 + le_sum d mod 65536"
    using q mod_less_divisor [of 65536 "le_sum d"] by (subst unat_add_small) (simp_all add: h s)
  have g: "unat (?f + drop_bit 16 ?f) = unat ?f + unat ?f div 65536"
    using q f mod_less_divisor [of 65536 "le_sum d"] by (subst unat_add_small) (simp_all add: h)
  have "unat (?f + drop_bit 16 ?f) mod 65536 = ones (le_sum d)"
    unfolding g f by (rule fold_ones [OF l])
  then show ?thesis unfolding icmp_checksum_def Let_def by (rule unat_ucast_not) (rule ones_le)
qed

text \<open>The two checksum routines agree: stored in memory order, the checksum of \<^verbatim>\<open>icmp_checksum\<close> has the same two
  bytes as the checksum of \<^verbatim>\<open>net_checksum\<close> in network order, for any even number of bytes up to \<open>2\<^sup>1\<^sup>6\<close>.\<close>

lemma checksum_routines_agree:
  assumes "even (length d)" and "length d \<le> 65536"
  shows "\<exists>c. net_checksum d (int (length d)) = Some c \<and>
    byte_at 0 (icmp_checksum d) = byte_at 8 c \<and> byte_at 8 (icmp_checksum d) = byte_at 0 c"
proof -
  let ?v = "ones (be_sum d)" and ?w = "icmp_checksum d"
  define c where "c = (ucast (NOT (of_nat ?v :: u32)) :: u16)"
  have c: "net_checksum d (int (length d)) = Some c" using net_checksum_eq [OF assms(1)] by (simp add: c_def)
  have "unat (of_nat ?v :: u32) mod 65536 = ?v" using ones_le [of "be_sum d"] by (simp add: unat_of_nat_small)
  then have uc: "unat c = 65535 - ?v" unfolding c_def using ones_le by (rule unat_ucast_not)
  have uw: "unat ?w = 65535 - (256 * (?v mod 256) + ?v div 256)"
    using icmp_checksum_value [OF assms(2)] ones_swap [OF assms(1)] by simp
  define h l where "h = unat (byte_at 8 c)" and "l = unat (byte_at 0 c)"
  define h' l' where "h' = unat (byte_at 8 ?w)" and "l' = unat (byte_at 0 ?w)"
  define p q where "p = ?v div 256" and "q = ?v mod 256"
  have v: "?v = 256 * p + q" "q < 256" "p < 256"
    using ones_le [of "be_sum d"] by (simp_all add: p_def q_def less_mult_imp_div_less)
  have b: "h \<le> 255" "l \<le> 255" "h' \<le> 255" "l' \<le> 255" by (simp_all add: h_def l_def h'_def l'_def byte_le)
  have "256 * h + l = 65535 - ?v" "256 * h' + l' = 65535 - (256 * q + p)"
    using unat_bytes16 [of c] unat_bytes16 [of ?w] uc uw by (simp_all add: h_def l_def h'_def l'_def p_def q_def)
  then have "256 * h + l = 256 * (255 - p) + (255 - q)" "256 * h' + l' = 256 * (255 - q) + (255 - p)"
    using v by simp_all
  from digits256 [OF this(1)] digits256 [OF this(2)] have "l' = h \<and> h' = l" using b by simp
  then have "byte_at 0 ?w = byte_at 8 c" "byte_at 8 ?w = byte_at 0 c" by (simp_all add: h_def l_def h'_def l'_def unat_eqI)
  then show ?thesis using c by blast
qed

section \<open>DHCP options\<close>

fun encode_options :: "(u8 \<times> u8 list) list \<Rightarrow> u8 list" where
  "encode_options [] = []"
| "encode_options ((c, bs) # os) = c # of_nat (length bs) # bs @ encode_options os"

definition well_formed_option :: "u8 \<times> u8 list \<Rightarrow> bool" where
  "well_formed_option o' \<longleftrightarrow> fst o' \<noteq> 0xFF \<and> length (snd o') < 256 \<and> (fst o' \<in> {51, 58, 59} \<longrightarrow> 4 \<le> length (snd o'))"

definition apply_option :: "u8 \<times> u8 list \<Rightarrow> dhcp_state \<Rightarrow> dhcp_state" where
  "apply_option o' st =
     (if fst o' = 51 then st\<lparr>dhcp_lease_time := le32_at (snd o') 0\<rparr>
      else if fst o' = 58 then st\<lparr>dhcp_renew_time := le32_at (snd o') 0\<rparr>
      else if fst o' = 59 then st\<lparr>dhcp_rebind_time := le32_at (snd o') 0\<rparr> else st)"

lemma dhcp_options_apply [simp]: "dhcp_options (apply_option o' st) = dhcp_options st"
  by (simp add: apply_option_def)

lemma le32_at_append: "i + 4 \<le> length ys \<Longrightarrow> le32_at (xs @ ys @ zs) (length xs + i) = le32_at ys i"
  by (simp add: le32_at_def nth_append add.assoc)

lemma dhcp_options_loop_eq:
  assumes "\<forall>o' \<in> set os. well_formed_option o'" and "dhcp_options st = p @ encode_options os @ 0xFF # q"
    and "length (p @ encode_options os) < 312"
  shows "dhcp_options_loop (length p) st = Some (fold apply_option os st)"
  using assms
proof (induction os arbitrary: p st)
  case Nil
  then show ?case by (subst dhcp_options_loop.simps) (simp add: peek_def nth_append)
next
  case (Cons o' os)
  obtain c bs where o': "o' = (c, bs)" by (cases o')
  have wf: "c \<noteq> 0xFF" "length bs < 256" "c \<in> {51, 58, 59} \<Longrightarrow> 4 \<le> length bs"
    using Cons.prems(1) by (auto simp: o' well_formed_option_def)
  have n: "unat (of_nat (length bs) :: u8) = length bs" using wf(2) by (intro unat_of_nat_small) simp
  let ?o = "dhcp_options st"
  have opts: "?o = (p @ [c, of_nat (length bs)]) @ bs @ encode_options os @ 0xFF # q" using Cons.prems(2) by (simp add: o')
  have c: "peek ?o (length p) = Some c" "peek ?o (length p + 1) = Some (of_nat (length bs))"
    by (simp_all add: opts peek_def nth_append)
  have v: "peek32 ?o (length p + 2) = Some (le32_at bs 0)" if "4 \<le> length bs"
    using le32_at_append [of 0 bs "p @ [c, of_nat (length bs)]"] that by (simp add: opts peek32_def)
  have ih: "dhcp_options_loop (length (p @ [c, of_nat (length bs)] @ bs)) (apply_option o' st) = Some (fold apply_option os (apply_option o' st))"
    using Cons.prems by (intro Cons.IH) (auto simp: opts)
  have "length p < 312" using Cons.prems(3) by simp
  then have "dhcp_options_loop (length p) st = dhcp_options_loop (length p + 2 + length bs) (apply_option o' st)"
    using c v wf n by (subst dhcp_options_loop.simps) (auto simp: apply_option_def o')
  then show ?case using ih by (simp add: o' add.assoc)
qed

text \<open>C31: An offer whose option area holds any sequence of well-formed options and the end mark, within the 312
  bytes the parser copies, is parsed completely: each lease time, renewal time and rebinding time is taken over,
  the last of a kind winning, everything else is skipped. The times are read in the byte order of the machine.\<close>

theorem dhcp_parse_offer_options:
  assumes "\<forall>o' \<in> set os. well_formed_option o'" and "length fixed = 240" and "length (dhcp_options st) = 312"
    and "length (encode_options os) < 312" and "312 \<le> length (encode_options os @ 0xFF # q)"
  shows "\<exists>st'. dhcp_parse_offer (fixed @ encode_options os @ 0xFF # q) st = Some (0, le32_at fixed 16, st') \<and>
    st' = fold apply_option os (st\<lparr>dhcp_options := take 312 (encode_options os @ 0xFF # q)\<rparr>)"
proof -
  let ?b = "encode_options os @ 0xFF # q"
  have t: "take 312 ?b = encode_options os @ 0xFF # take (311 - length (encode_options os)) q"
    using assms(4) by (simp add: take_Cons')
  have "memcpy (dhcp_options st) 0 (fixed @ ?b) 240 312 = Some (take 312 ?b)" using assms(2,3,5) by (simp add: memcpy_def)
  moreover have "peek32 (fixed @ ?b) 16 = Some (le32_at fixed 16)" using assms(2) by (simp add: peek32_def le32_at_def nth_append)
  moreover have "dhcp_options_loop 0 (st\<lparr>dhcp_options := take 312 ?b\<rparr>) = Some (fold apply_option os (st\<lparr>dhcp_options := take 312 ?b\<rparr>))"
    using dhcp_options_loop_eq [of os "st\<lparr>dhcp_options := take 312 ?b\<rparr>" "[]"] assms(1,4) t by simp
  ultimately show ?thesis by (simp add: dhcp_parse_offer_def)
qed

theorem dhcp_parse_offer_options_witness:
  "\<exists>st'. dhcp_parse_offer (replicate 240 0 @ [53, 1, 2, 51, 4, 0, 0, 0x0E, 0x10] @ 0xFF # replicate 302 0)
      \<lparr>dhcp_options = replicate 312 0, dhcp_lease_time = 0, dhcp_renew_time = 0, dhcp_rebind_time = 0\<rparr> = Some (0, 0, st') \<and>
    dhcp_lease_time st' = 0x100E0000"
proof -
  let ?st = "\<lparr>dhcp_options = replicate 312 0, dhcp_lease_time = 0, dhcp_renew_time = 0, dhcp_rebind_time = 0\<rparr>"
  let ?os = "[(53, [2]), (51, [0, 0, 0x0E, 0x10])] :: (u8 \<times> u8 list) list"
  have e: "encode_options ?os = [53, 1, 2, 51, 4, 0, 0, 0x0E, 0x10]" by simp
  show ?thesis
    using dhcp_parse_offer_options [of ?os "replicate 240 0" ?st "replicate 302 0"]
    by (simp add: well_formed_option_def le32_at_def be32_def apply_option_def)
qed

section \<open>Address resolution\<close>

lemma arp_wait_length: "arp_wait eth t ts = Some (Some mac) \<Longrightarrow> length mac = 6"
proof (induction ts)
  case (Cons x xs)
  then show ?case by (auto simp: memcpy_def arp_reply_def split: option.splits if_splits)
qed simp

text \<open>Once an address has been resolved it is answered from the cache: a second request for the same
  address succeeds with the same hardware address whatever the network does, and leaves the cache as it is.\<close>

lemma arp_resolve_caches:
  assumes "arp_resolve eth st mac ip target out = Some (0, out', st')"
    and "arp_cache_valid st \<longrightarrow> length (arp_cache_mac st) = 6" and "6 \<le> length out2"
  shows "arp_resolve eth2 st' mac2 ip2 target out2 = Some (0, take 6 out' @ drop 6 out2, st')"
proof (cases "arp_cache_valid st \<and> take 4 target = take 4 (arp_cache_ip st)")
  case True
  then show ?thesis using assms by (auto simp: arp_resolve_def memcpy_def split: if_splits)
next
  case False
  have t: "\<not> length target < 4" using assms(1) by (auto simp: arp_resolve_def)
  then obtain m where m: "arp_wait eth target [0..<30000] = Some (Some m)" "memcpy out 0 m 0 6 = Some out'"
      "st' = st\<lparr>arp_cache_ip := take 4 target, arp_cache_mac := m, arp_cache_valid := True\<rparr>"
    using assms(1) False by (auto simp: arp_resolve_def split: option.splits bind_splits)
  have "length m = 6" by (rule arp_wait_length [OF m(1)])
  then show ?thesis using m t assms(3) by (auto simp: arp_resolve_def memcpy_def split: if_splits)
qed

lemma arp_first_poll:
  assumes "eth 0 = (n, resp)" and "42 \<le> n" and "length resp = 60" and "length target = 4"
    and "resp ! 12 = 8" and "resp ! 13 = 6" and "take 4 (drop 28 resp) = target"
  shows "arp_wait eth target [0..<3 * 10000] = Some (Some (take 6 (drop 22 resp)))"
proof -
  have "[0..<3 * 10000] = 0 # [Suc 0..<3 * 10000]" by (rule upt_conv_Cons) simp
  then show ?thesis using assms by (simp only: arp_wait.simps) (simp add: memcpy_def arp_reply_def)
qed

section \<open>TFTP\<close>

lemma length_tftp_rrq:
  assumes "length name + 10 \<le> length buf"
  shows "tftp_build_rrq name buf =
    Some (int (length name) + 10, [0, 1] @ name @ [0] @ ascii ''octet'' @ [0, 0] @ drop (length name + 10) buf)"
  using assms by (simp add: tftp_build_rrq_def tftp_send_rrq_def memcpy_def ascii_def) (simp add: numeral_eq_Suc)

text \<open>A data packet is taken to hold 512 bytes unless its first two bytes are zero, in which case it is taken to
  be empty, whatever follows.\<close>

lemma tftp_block_of_zeros_is_empty:
  assumes "length d = 512" and "d ! 0 = 0" and "d ! 1 = 0"
  shows "tftp_parse_data ([0, 3, b1, b2] @ d) out = Some (Some (0, push_bit 8 (ucast b1) OR ucast b2, out, 0))"
  using assms by (simp add: tftp_parse_data_def nth_append)
end
