(* ===== verification/Limine_Boot.thy ===== *)
theory Limine_Boot
  imports Boot_Mem
begin

text \<open>
  The loader for Limine kernels, \<^verbatim>\<open>boot/Arch32/limine.c\<close>: 64-bit ELF files are loaded segment by segment. The
  allocator, declared \<open>extern\<close>, is the address of each allocation in turn. The responses are written to allocated
  memory, but no request is told where they are.
\<close>

section \<open>Segments\<close>

record elf_segment =
  p_type :: u32
  p_offset :: u64
  p_vaddr :: u64
  p_filesz :: u64
  p_memsz :: u64

definition le64_of :: "u8 list \<Rightarrow> nat \<Rightarrow> u64" where
  "le64_of b i = push_bit 32 (ucast (le32_at b (i + 4))) OR ucast (le32_at b i)"

definition elf_phdr :: "u8 list \<Rightarrow> u64 \<Rightarrow> nat \<Rightarrow> elf_segment cmem" where
  "elf_phdr data phoff i =
     (let p = unat phoff + 56 * i in
      if p + 56 \<le> length data
      then Some \<lparr>p_type = le32_at data p, p_offset = le64_of data (p + 8), p_vaddr = le64_of data (p + 16),
             p_filesz = le64_of data (p + 32), p_memsz = le64_of data (p + 40)\<rparr>
      else None)"

definition load_segment :: "(u64 \<Rightarrow> u64) \<Rightarrow> u8 list \<Rightarrow> elf_segment \<Rightarrow> mem \<Rightarrow> mem cmem" where
  "load_segment place data seg m =
     (if p_type seg = 1 then
        let vaddr = place (p_vaddr seg) in
        case copy_in m vaddr data (unat (p_offset seg)) (unat (p_filesz seg)) of
          None \<Rightarrow> None
        | Some m1 \<Rightarrow>
            Some (if p_filesz seg < p_memsz seg
                  then wr m1 (vaddr + p_filesz seg) (replicate (unat (p_memsz seg - p_filesz seg)) 0) else m1)
      else Some m)"

fun elf_load :: "(u64 \<Rightarrow> u64) \<Rightarrow> u8 list \<Rightarrow> u64 \<Rightarrow> nat list \<Rightarrow> mem \<Rightarrow> mem cmem" where
  "elf_load place data phoff [] m = Some m"
| "elf_load place data phoff (i # is) m =
     (case elf_phdr data phoff i of
        None \<Rightarrow> None
      | Some seg \<Rightarrow>
          (case load_segment place data seg m of
             None \<Rightarrow> None
           | Some m' \<Rightarrow> elf_load place data phoff is m'))"

text \<open>The fields of the file header; a file shorter than the header is read outside.\<close>

definition elf_magic :: "u8 list \<Rightarrow> bool" where
  "elf_magic data \<longleftrightarrow> take 4 data = [0x7F, 0x45, 0x4C, 0x46]"

section \<open>The loaders\<close>

text \<open>A kernel of the upper half is moved by the distance of its entry point.\<close>

definition limine_place :: "u64 \<Rightarrow> u64 \<Rightarrow> u64" where
  "limine_place load_addr vaddr =
     (if 0xFFFFFFFF80000000 \<le> vaddr then vaddr - 0xFFFFFFFF80000000 + load_addr else vaddr)"

definition limine_responses :: "(nat \<Rightarrow> u64) \<Rightarrow> u64 \<Rightarrow> mem \<Rightarrow> mem" where
  "limine_responses alloc load_addr m =
     (let memmap = alloc 0; entries = alloc 1; ka = alloc 2; hhdm = alloc 3; fbr = alloc 4; fb = alloc 5;
          m1 = wr64 (wr64 m (memmap + 8) 1) (memmap + 16) entries;
          m2 = wr64 (wr64 (wr64 m1 entries 0) (entries + 8) 0x100000000) (entries + 16) 0;
          m3 = wr64 (wr64 m2 (ka + 8) load_addr) (ka + 16) 0xFFFFFFFF80000000;
          m4 = wr64 m3 (hhdm + 8) 0xFFFF800000000000;
          m5 = wr64 (wr64 m4 (fbr + 8) 1) (fbr + 16) fb
      in wr (wr64 (wr64 (wr64 (wr64 m5 fb 0xB8000) (fb + 8) 80) (fb + 16) 25) (fb + 24) 160) (fb + 32)
           [16, 0, 1, 5, 11, 6, 5, 5, 0])"

definition limine_load_kernel ::
  "file_loader \<Rightarrow> (nat \<Rightarrow> u64) \<Rightarrow> mem \<Rightarrow> u8 list \<Rightarrow> u8 list ptr \<Rightarrow> boot_outcome cmem" where
  "limine_load_kernel load_file alloc m kernel_path cmdline =
     (case load_file kernel_path of
        None \<Rightarrow> Some (Boot_Failed (-1))
      | Some (data, kernel_size) \<Rightarrow>
          if length data < 64 then None
          else if \<not> elf_magic data then Some (Boot_Failed (-1))
          else if data ! 4 \<noteq> 2 then Some (Boot_Failed (-1))
          else let e_entry = le64_of data 24;
                   load_addr = (if 0xFFFFFFFF80000000 \<le> e_entry then e_entry else 0x200000)
               in case elf_load (limine_place load_addr) data (le64_of data 32) [0..<unat (le16_at data 56)] m of
                    None \<Rightarrow> None
                  | Some m1 \<Rightarrow> Some (Boot_Jump e_entry [] (limine_responses alloc load_addr m1)))"

definition limine_verify_kernel :: "file_loader \<Rightarrow> u8 list \<Rightarrow> int cmem" where
  "limine_verify_kernel load_file kernel_path =
     (case load_file kernel_path of
        None \<Rightarrow> Some (-1)
      | Some (data, kernel_size) \<Rightarrow>
          if length data < 64 then None
          else Some (if \<not> elf_magic data then -1 else if le16_at data 18 \<noteq> 62 then -1 else 0))"

definition limine_file_response :: "u32 \<Rightarrow> u8 list ptr \<Rightarrow> mem \<Rightarrow> mem" where
  "limine_file_response kernel_size cmdline m =
     (let m1 = wr64 (wr64 m 0x1000 0) 0x1008 0x1100;
          m2 = wr64 (wr64 (wr64 (wr64 (wr64 m1 0x1100 0) 0x1108 0x100000) 0x1110 (ucast kernel_size)) 0x1118 0x1200) 0x1120 0x1300
      in if has_text cmdline then strcpy_mem m2 0x1300 (the cmdline) else m2)"

definition boot_limine_kernel :: "mem \<Rightarrow> u8 list \<Rightarrow> u32 \<Rightarrow> u8 list ptr \<Rightarrow> boot_outcome cmem" where
  "boot_limine_kernel m data kernel_size cmdline =
     (if length data < 64 then None
      else if \<not> elf_magic data then Some (Boot_Failed (-1))
      else if le16_at data 16 \<noteq> 2 then Some (Boot_Failed (-1))
      else case elf_load (\<lambda>v. v) data (le64_of data 32) [0..<unat (le16_at data 56)] m of
             None \<Rightarrow> None
           | Some m1 \<Rightarrow> Some (Boot_Jump (le64_of data 24) [] (limine_file_response kernel_size cmdline m1)))"

section \<open>What is in memory\<close>

text \<open>The bytes a segment has in memory, and segments that can be loaded without touching each other or the
  first 64 kilobytes.\<close>

definition segment_image :: "u8 list \<Rightarrow> elf_segment \<Rightarrow> u8 list" where
  "segment_image data seg =
     take (unat (p_filesz seg)) (drop (unat (p_offset seg)) data) @ replicate (unat (p_memsz seg) - unat (p_filesz seg)) 0"

definition segment_fits :: "u8 list \<Rightarrow> elf_segment \<Rightarrow> bool" where
  "segment_fits data seg \<longleftrightarrow> p_type seg = 1 \<longrightarrow>
     unat (p_offset seg) + unat (p_filesz seg) \<le> length data \<and> 0x10000 \<le> unat (p_vaddr seg) \<and>
     unat (p_vaddr seg) < 2 ^ 40 \<and> length (segment_image data seg) < 2 ^ 40"

definition segments_apart :: "u8 list \<Rightarrow> elf_segment \<Rightarrow> elf_segment \<Rightarrow> bool" where
  "segments_apart data s t \<longleftrightarrow> p_type s = 1 \<longrightarrow> p_type t = 1 \<longrightarrow>
     unat (p_vaddr s) + length (segment_image data s) \<le> unat (p_vaddr t) \<or>
     unat (p_vaddr t) + length (segment_image data t) \<le> unat (p_vaddr s)"

definition in_place :: "mem \<Rightarrow> u8 list \<Rightarrow> elf_segment \<Rightarrow> bool" where
  "in_place m data seg \<longleftrightarrow> p_type seg = 1 \<longrightarrow> holds m 0 (unat (p_vaddr seg)) (segment_image data seg)"

lemma load_segment_eq:
  assumes "segment_fits data seg" and "p_type seg = 1"
  shows "\<exists>m'. load_segment (\<lambda>v. v) data seg m = Some m' \<and> holds m' 0 (unat (p_vaddr seg)) (segment_image data seg) \<and>
    (\<forall>q xs. q + length xs < 2 ^ 50 \<longrightarrow>
       q + length xs \<le> unat (p_vaddr seg) \<or> unat (p_vaddr seg) + length (segment_image data seg) \<le> q \<longrightarrow>
       holds m' 0 q xs = holds m 0 q xs)"
proof -
  let ?v = "unat (p_vaddr seg)" and ?f = "unat (p_filesz seg)"
  let ?bs = "take ?f (drop (unat (p_offset seg)) data)" and ?zs = "replicate (unat (p_memsz seg) - ?f) (0 :: u8)"
  have fits: "unat (p_offset seg) + ?f \<le> length data" "?v < 2 ^ 40" "length (segment_image data seg) < 2 ^ 40"
    using assms by (simp_all add: segment_fits_def)
  have l: "length ?bs = ?f" using fits(1) by simp
  have b: "?f + length ?zs < 2 ^ 40" using fits(3) l by (simp add: segment_image_def)
  have a: "p_vaddr seg = addr 0 ?v" "p_vaddr seg + p_filesz seg = addr 0 (?v + ?f)" by (simp_all add: addr_zero)
  define m1 where "m1 = wr m (addr 0 ?v) ?bs"
  define m2 where "m2 = wr m1 (addr 0 (?v + ?f)) ?zs"
  have "(if p_filesz seg < p_memsz seg then wr m1 (addr 0 (?v + ?f)) (replicate (unat (p_memsz seg - p_filesz seg)) 0) else m1) = m2"
    by (auto simp: m2_def wr_def word_less_nat_alt unat_sub_small)
  moreover have "wr m (p_vaddr seg) ?bs = m1" using a(1) by (simp only: m1_def)
  ultimately have ld: "load_segment (\<lambda>v. v) data seg m = Some m2"
    using assms(2) fits(1) by (simp add: load_segment_def copy_in_def Let_def a(2) split: if_splits)
  have "holds m2 0 ?v (segment_image data seg)"
    unfolding segment_image_def holds_append using b fits(2) l
    by (simp add: m2_def m1_def holds_wr_other)
  moreover have "holds m2 0 q xs = holds m 0 q xs"
    if "q + length xs < 2 ^ 50" "q + length xs \<le> ?v \<or> ?v + length (segment_image data seg) \<le> q" for q xs
    using that b fits(2) l by (auto simp: m2_def m1_def holds_wr_other segment_image_def)
  ultimately show ?thesis using ld by blast
qed


lemma elf_load_segments:
  assumes "\<And>i. i \<in> set is \<Longrightarrow> elf_phdr data phoff i = Some (seg i)"
    and "\<forall>i \<in> set is. segment_fits data (seg i)"
    and "\<forall>i \<in> set is. \<forall>j \<in> set is. i \<noteq> j \<longrightarrow> segments_apart data (seg i) (seg j)" and "distinct is"
  shows "\<exists>m'. elf_load (\<lambda>v. v) data phoff is m = Some m' \<and> (\<forall>i \<in> set is. in_place m' data (seg i)) \<and>
    (\<forall>s. segment_fits data s \<longrightarrow> in_place m data s \<longrightarrow> (\<forall>i \<in> set is. segments_apart data (seg i) s) \<longrightarrow> in_place m' data s)"
  using assms
proof (induction "is" arbitrary: m)
  case (Cons i js)
  have ph: "elf_phdr data phoff i = Some (seg i)" using Cons.prems(1) by simp
  have fits: "segment_fits data (seg i)" using Cons.prems(2) by simp
  obtain m1 where m1: "load_segment (\<lambda>v. v) data (seg i) m = Some m1" "in_place m1 data (seg i)"
    "\<forall>s. segment_fits data s \<longrightarrow> in_place m data s \<longrightarrow> segments_apart data (seg i) s \<longrightarrow> in_place m1 data s"
  proof (cases "p_type (seg i) = 1")
    case True
    then obtain m1 where l: "load_segment (\<lambda>v. v) data (seg i) m = Some m1" "holds m1 0 (unat (p_vaddr (seg i))) (segment_image data (seg i))"
      and k: "\<And>q xs. q + length xs < 2 ^ 50 \<Longrightarrow>
         q + length xs \<le> unat (p_vaddr (seg i)) \<or> unat (p_vaddr (seg i)) + length (segment_image data (seg i)) \<le> q \<Longrightarrow>
         holds m1 0 q xs = holds m 0 q xs"
      using load_segment_eq [OF fits True, of m] by blast
    have "in_place m1 data s" if "segment_fits data s" "in_place m data s" "segments_apart data (seg i) s" for s
      using that k [of "unat (p_vaddr s)" "segment_image data s"] True
      by (auto simp: in_place_def segment_fits_def segments_apart_def)
    then show ?thesis using l that by (simp add: in_place_def)
  next
    case False
    then show ?thesis using that by (simp add: load_segment_def in_place_def)
  qed
  obtain m2 where m2: "elf_load (\<lambda>v. v) data phoff js m1 = Some m2" "\<forall>j \<in> set js. in_place m2 data (seg j)"
    "\<forall>s. segment_fits data s \<longrightarrow> in_place m1 data s \<longrightarrow> (\<forall>j \<in> set js. segments_apart data (seg j) s) \<longrightarrow> in_place m2 data s"
    using Cons.IH [of m1] Cons.prems by auto
  have "\<forall>j \<in> set js. segments_apart data (seg j) (seg i)" using Cons.prems(3,4) by auto
  then have "in_place m2 data (seg i)" using m2(3) fits m1(2) by blast
  then show ?case using ph m1 m2 by auto
qed simp

text \<open>C25: The loader for ELF kernels over the network puts a kernel into memory as its program headers say. When
  the loadable segments lie in the file, above the first 64 kilobytes and apart from each other, then at the jump
  to the entry point every one of them is in memory at its address, with its bytes from the file followed by
  zeros, and the file response gives the command line.\<close>

theorem boot_limine_loads_segments:
  assumes "64 \<le> length data" and "elf_magic data" and "le16_at data 16 = 2" and "n = unat (le16_at data 56)"
    and "\<forall>i < n. elf_phdr data (le64_of data 32) i = Some (seg i) \<and> segment_fits data (seg i)"
    and "\<forall>i < n. \<forall>j < n. i \<noteq> j \<longrightarrow> segments_apart data (seg i) (seg j)"
    and "s \<noteq> []" and "0 \<notin> set s" and "length s < 0xE000"
  shows "\<exists>m'. boot_limine_kernel m data k (Some s) = Some (Boot_Jump (le64_of data 24) [] m') \<and>
    (\<forall>i < n. in_place m' data (seg i)) \<and> holds_str m' 0x1300 s"
proof -
  obtain m1 where m1: "elf_load (\<lambda>v. v) data (le64_of data 32) [0..<n] m = Some m1" "\<forall>i < n. in_place m1 data (seg i)"
    using elf_load_segments [of "[0..<n]" data "le64_of data 32" seg m] assms(5,6) by auto
  let ?m' = "limine_file_response k (Some s) m1"
  have a: "(0x1000 :: u64) = addr 0 0x1000" "(0x1008 :: u64) = addr 0 0x1008" "(0x1100 :: u64) = addr 0 0x1100" "(0x1108 :: u64) = addr 0 0x1108"
    "(0x1110 :: u64) = addr 0 0x1110" "(0x1118 :: u64) = addr 0 0x1118" "(0x1120 :: u64) = addr 0 0x1120" "(0x1300 :: u64) = addr 0 0x1300"
    by (simp_all add: addr_zero)
  have m': "\<exists>v w x y. ?m' = strcpy_mem (wr64 (wr64 (wr64 (wr64 (wr64 (wr64 (wr64 m1 (addr 0 0x1000) 0) (addr 0 0x1008) v) (addr 0 0x1100) 0)
      (addr 0 0x1108) w) (addr 0 0x1110) (ucast k)) (addr 0 0x1118) x) (addr 0 0x1120) y) (addr 0 0x1300) s"
    using assms(7) by (simp add: limine_file_response_def addr_zero Let_def) blast
  then have keep: "holds ?m' 0 q xs = holds m1 0 q xs" if "0x10000 \<le> q" "q + length xs < 2 ^ 50" for q xs
    using that assms(9) by (auto simp: holds_strcpy_other)
  have "in_place ?m' data (seg i)" if "i < n" for i
    using that m1(2) keep [of "unat (p_vaddr (seg i))" "segment_image data (seg i)"] assms(5)
    by (auto simp: in_place_def segment_fits_def)
  moreover have "holds_str ?m' 0x1300 s"
    using m' assms(8,9) unfolding a(8) by (auto simp: holds_str_iff)
  moreover have "boot_limine_kernel m data k (Some s) = Some (Boot_Jump (le64_of data 24) [] ?m')"
    using assms(1-4) m1(1) by (simp add: boot_limine_kernel_def)
  ultimately show ?thesis by blast
qed

definition elf_sample :: "u8 list" where
  "elf_sample =
    [127, 69, 76, 70, 2, 1, 1, 0, 0, 0, 0, 0, 0, 0, 0, 0, 2, 0, 62, 0, 1, 0, 0, 0, 0, 0, 1, 0, 0, 0, 0,
     0, 64, 0, 0, 0, 0, 0, 0, 0, 0, 0, 0, 0, 0, 0, 0, 0, 0, 0, 0, 0, 64, 0, 56, 0, 1, 0, 0, 0, 0, 0, 0,
     0, 1, 0, 0, 0, 0, 0, 0, 0, 120, 0, 0, 0, 0, 0, 0, 0, 0, 0, 1, 0, 0, 0, 0, 0, 0, 0, 0, 0, 0, 0, 0, 0,
     2, 0, 0, 0, 0, 0, 0, 0, 4, 0, 0, 0, 0, 0, 0, 0, 0, 0, 0, 0, 0, 0, 0, 0, 235, 254]"

theorem boot_limine_loads_segments_witness:
  "\<exists>m'. boot_limine_kernel (\<lambda>x. 7) elf_sample 122 (Some [114]) = Some (Boot_Jump 0x10000 [] m') \<and>
    holds m' 0 0x10000 ([0xEB, 0xFE] @ replicate 2 0) \<and> holds_str m' 0x1300 [114]"
proof -
  let ?seg = "\<lparr>p_type = 1, p_offset = 120, p_vaddr = 0x10000, p_filesz = 2, p_memsz = 4\<rparr>"
  have d: "length elf_sample = 122" "elf_magic elf_sample" "le16_at elf_sample 16 = 2" "unat (le16_at elf_sample 56) = 1"
    "le64_of elf_sample 24 = 0x10000" "elf_phdr elf_sample (le64_of elf_sample 32) 0 = Some ?seg"
    by (simp_all add: elf_sample_def elf_magic_def le16_at_def le64_of_def le32_at_def be32_def elf_phdr_def Let_def)
  have i: "segment_image elf_sample ?seg = [0xEB, 0xFE] @ replicate 2 0" by (simp add: segment_image_def elf_sample_def)
  then have f: "segment_fits elf_sample ?seg" by (simp add: segment_fits_def d(1))
  show ?thesis
    using boot_limine_loads_segments [of elf_sample 1 "\<lambda>i. ?seg" "[114]" "\<lambda>x. 7" 122] d f i by (simp add: in_place_def)
qed

end
