(* ===== verification/Pxe.thy ===== *)
theory Pxe
  imports Net Limine_Boot
begin

text \<open>
  Booting over the network, \<^verbatim>\<open>net/pxe.c\<close>. The network stack of the firmware, declared \<open>extern\<close>, is the record
  \<open>pxe_rom\<close>: the results of its calls, the size and the bytes it has for a file, and the allocator. The module's own
  state is the flag \<open>pxe_initialized\<close>; every operation also yields the firmware calls it makes, in order.
\<close>

section \<open>The firmware\<close>

record pxe_rom =
  pxe_init :: int
  pxe_dhcp_discover :: int
  pxe_get_file_size :: "u8 list \<Rightarrow> u32"
  pxe_tftp_read :: "u8 list \<Rightarrow> u32 \<Rightarrow> int \<times> u8 list"
  allocate_memory :: "u32 \<Rightarrow> u8 list ptr"

datatype pxe_event = Ev_Init int | Ev_Dhcp int | Ev_Size "u8 list" | Ev_Tftp "u8 list" | Ev_Cleanup

section \<open>Operations\<close>

definition pxe_network_init :: "pxe_rom \<Rightarrow> bool \<Rightarrow> int \<times> bool \<times> pxe_event list" where
  "pxe_network_init rom up =
     (if up then (0, up, [])
      else if pxe_init rom \<noteq> 0 then (-1, up, [Ev_Init (pxe_init rom)])
      else if pxe_dhcp_discover rom \<noteq> 0 then (-1, up, [Ev_Init 0, Ev_Dhcp (pxe_dhcp_discover rom), Ev_Cleanup])
      else (0, True, [Ev_Init 0, Ev_Dhcp 0]))"

text \<open>Fetching a file into fresh memory; the code, the buffer and the size.\<close>

definition pxe_fetch :: "pxe_rom \<Rightarrow> u8 list \<Rightarrow> u32 \<Rightarrow> ((int \<times> u8 list ptr \<times> u32) \<times> pxe_event list) cmem" where
  "pxe_fetch rom path n =
     (case allocate_memory rom n of
        None \<Rightarrow> Some ((-1, None, n), [Ev_Size path])
      | Some buf \<Rightarrow>
          let (r, bytes) = pxe_tftp_read rom path n in
          (case memcpy buf 0 bytes 0 (length bytes) of
             None \<Rightarrow> None
           | Some buf' \<Rightarrow> Some ((if r \<noteq> 0 then -1 else 0, Some buf', n), [Ev_Size path, Ev_Tftp path])))"

definition pxe_load_kernel :: "pxe_rom \<Rightarrow> bool \<Rightarrow> u8 list \<Rightarrow> ((int \<times> u8 list ptr \<times> u32) \<times> pxe_event list) cmem" where
  "pxe_load_kernel rom up kernel_path =
     (if \<not> up then Some ((-1, None, 0), [])
      else let size = pxe_get_file_size rom kernel_path in
        pxe_fetch rom kernel_path (if size = 0xFFFF then 1024 * 1024 else size))"

definition pxe_load_initrd :: "pxe_rom \<Rightarrow> bool \<Rightarrow> u8 list \<Rightarrow> ((int \<times> u8 list ptr \<times> u32) \<times> pxe_event list) cmem" where
  "pxe_load_initrd rom up initrd_path =
     (if \<not> up then Some ((-1, None, 0), [])
      else let size = pxe_get_file_size rom initrd_path in
        if size = 0xFFFF then Some ((-1, None, size), [Ev_Size initrd_path])
        else pxe_fetch rom initrd_path size)"

text \<open>The kernel is handed to the loader that its first word names.\<close>

definition pxe_dispatch :: "mem \<Rightarrow> u8 list \<Rightarrow> u32 \<Rightarrow> u8 list ptr \<Rightarrow> u32 \<Rightarrow> u8 list ptr \<Rightarrow> boot_outcome cmem" where
  "pxe_dispatch m kernel_data kernel_size initrd_data initrd_size cmdline = do {
     w \<leftarrow> peek32 kernel_data 0;
     if w = 0x53726448 then boot_linux_kernel m kernel_data kernel_size initrd_data initrd_size cmdline
     else if w = 0x1BADB002 then boot_multiboot1_kernel m kernel_data kernel_size cmdline
     else if w = 0xE85250D6 then boot_multiboot2_kernel m kernel_data kernel_size cmdline
     else if w = 0x67CF3D9D then boot_limine_kernel m kernel_data kernel_size cmdline
     else Some (Boot_Failed (-1))
   }"

definition pxe_boot_kernel ::
  "pxe_rom \<Rightarrow> mem \<Rightarrow> bool \<Rightarrow> u8 list \<Rightarrow> u8 list ptr \<Rightarrow> u8 list ptr \<Rightarrow> (boot_outcome \<times> bool \<times> pxe_event list) cmem" where
  "pxe_boot_kernel rom m up kernel_path initrd_path cmdline =
     (let (r, up, ev) = pxe_network_init rom up in
      if r \<noteq> 0 then Some (Boot_Failed (-1), up, ev)
      else do {
        ((r, kernel_data, kernel_size), ev1) \<leftarrow> pxe_load_kernel rom up kernel_path;
        if r \<noteq> 0 then Some (Boot_Failed (-1), up, ev @ ev1)
        else do {
          ((r, initrd_data, initrd_size), ev2) \<leftarrow>
            (if has_text initrd_path then pxe_load_initrd rom up (the initrd_path) else Some ((0, None, 0), []));
          if r \<noteq> 0 then Some (Boot_Failed (-1), up, ev @ ev1 @ ev2)
          else do {
            out \<leftarrow> pxe_dispatch m (the kernel_data) kernel_size initrd_data initrd_size cmdline;
            Some (out, up, ev @ ev1 @ ev2)
          }
        }
      })"

definition pxe_cleanup_network :: "bool \<Rightarrow> int \<times> bool \<times> pxe_event list" where
  "pxe_cleanup_network up = (if up then (0, False, [Ev_Cleanup]) else (0, up, []))"

section \<open>Echo\<close>

text \<open>The echo request, whose checksum is stored as the machine stores a 16-bit word.\<close>

definition icmp_body :: "u16 \<Rightarrow> u8 list" where
  "icmp_body checksum = [8, 0, byte_at 0 checksum, byte_at 8 checksum, 0x12, 0x34, 0, 1] @ replicate 32 0xAA"

definition icmp_request :: "u8 list" where
  "icmp_request = icmp_body (icmp_checksum (icmp_body 0))"

text \<open>\<open>udp_send\<close> is the result of sending, \<open>udp_recv\<close> the number and the bytes received into the reply of 40 bytes, \<open>start\<close> and
  \<open>stop\<close> are the clock before and after and \<open>per_sec\<close> its rate. The result is the time in milliseconds.\<close>

definition pxe_icmp_echo :: "(u8 list \<Rightarrow> int) \<Rightarrow> int \<times> u8 list \<Rightarrow> u32 \<Rightarrow> u32 \<Rightarrow> nat \<Rightarrow> int option cmem" where
  "pxe_icmp_echo udp_send udp_recv start stop per_sec =
     (if udp_send icmp_request < 0 then Some None
      else let (n, resp) = udp_recv in
        if 40 < length resp then None
        else if n < 40 then Some None
        else if length resp < 40 then None
        else if resp ! 0 \<noteq> 0 \<or> take 2 (drop 4 resp) \<noteq> take 2 (drop 4 icmp_request) \<or> take 2 (drop 6 resp) \<noteq> take 2 (drop 6 icmp_request)
        then Some None
        else Some (Some (sint (of_nat (unat ((stop - start) * 1000) div per_sec) :: u32))))"

lemma icmp_request_valid: "icmp_checksum icmp_request = 0"
  by code_simp

text \<open>A peer that sends the request back with type zero is heard; the time is right while a
  thousand times the ticks that have passed fit in an \<open>int\<close>.\<close>

lemma pxe_icmp_echo_heard:
  assumes "0 \<le> udp_send icmp_request" and "1000 * unat (stop - start) < 2 ^ 31" and "0 < per_sec"
  shows "pxe_icmp_echo udp_send (40, 0 # tl icmp_request) start stop per_sec =
    Some (Some (int (1000 * unat (stop - start) div per_sec)))"
proof -
  have l: "length icmp_request = 40" by (simp add: icmp_request_def icmp_body_def)
  have "unat ((stop - start) * 1000) = unat (stop - start) * unat (1000 :: u32)"
    by (rule unat_mult_lem [THEN iffD1]) (use assms(2) in simp)
  then have "unat ((stop - start) * 1000) = 1000 * unat (stop - start)" by simp
  moreover have "1000 * unat (stop - start) div per_sec < 2 ^ 31" using assms(2) by (meson div_le_dividend le_less_trans)
  ultimately have "sint (of_nat (unat ((stop - start) * 1000) div per_sec) :: u32) = int (1000 * unat (stop - start) div per_sec)"
    by (simp only:) (subst sint_u32_small, simp_all add: unat_of_nat_small)
  moreover have "drop 4 (0 # tl icmp_request) = drop 4 icmp_request" "drop 6 (0 # tl icmp_request) = drop 6 icmp_request"
    by (simp_all add: drop_Cons' drop_Suc [symmetric])
  ultimately show ?thesis using assms(1) l by (simp add: pxe_icmp_echo_def)
qed

section \<open>The order of firmware calls\<close>

text \<open>A sequence of operations of the module, each with the firmware as it answers then.\<close>

datatype pxe_call =
    Call_Init pxe_rom
  | Call_Load_Kernel pxe_rom "u8 list"
  | Call_Load_Initrd pxe_rom "u8 list"
  | Call_Boot pxe_rom mem "u8 list" "u8 list ptr" "u8 list ptr"
  | Call_Cleanup

fun pxe_do :: "pxe_call \<Rightarrow> bool \<Rightarrow> (bool \<times> pxe_event list) cmem" where
  "pxe_do (Call_Init rom) up = Some (snd (pxe_network_init rom up))"
| "pxe_do (Call_Load_Kernel rom p) up = map_option (\<lambda>(r, ev). (up, ev)) (pxe_load_kernel rom up p)"
| "pxe_do (Call_Load_Initrd rom p) up = map_option (\<lambda>(r, ev). (up, ev)) (pxe_load_initrd rom up p)"
| "pxe_do (Call_Boot rom m k i c) up = map_option snd (pxe_boot_kernel rom m up k i c)"
| "pxe_do Call_Cleanup up = Some (snd (pxe_cleanup_network up))"

fun pxe_run :: "pxe_call list \<Rightarrow> bool \<Rightarrow> (bool \<times> pxe_event list) cmem" where
  "pxe_run [] up = Some (up, [])"
| "pxe_run (c # cs) up =
     (case pxe_do c up of
        None \<Rightarrow> None
      | Some (up', ev) \<Rightarrow> (case pxe_run cs up' of None \<Rightarrow> None | Some (up'', ev') \<Rightarrow> Some (up'', ev @ ev')))"

text \<open>The protocol of the stack, as an automaton over the calls: it is down, started, or configured; files may
  only be asked for in the configured state, and a stack that is up is not started again. Nothing is said about
  a failed call.\<close>

datatype stack = Down | Started | Configured

inductive stack_step :: "stack \<Rightarrow> pxe_event \<Rightarrow> stack \<Rightarrow> bool" where
  start_ok: "stack_step Down (Ev_Init 0) Started"
| start_fail: "r \<noteq> 0 \<Longrightarrow> stack_step Down (Ev_Init r) Down"
| dhcp_ok: "stack_step Started (Ev_Dhcp 0) Configured"
| dhcp_fail: "r \<noteq> 0 \<Longrightarrow> stack_step Started (Ev_Dhcp r) Started"
| ask_size: "stack_step Configured (Ev_Size p) Configured"
| tftp: "stack_step Configured (Ev_Tftp p) Configured"
| cleanup: "s \<noteq> Down \<Longrightarrow> stack_step s Ev_Cleanup Down"

inductive stack_steps :: "stack \<Rightarrow> pxe_event list \<Rightarrow> stack \<Rightarrow> bool" where
  refl: "stack_steps s [] s"
| step: "stack_step s e s' \<Longrightarrow> stack_steps s' es s'' \<Longrightarrow> stack_steps s (e # es) s''"

inductive_simps stack_steps_Nil [simp]: "stack_steps s [] s'"
inductive_simps stack_steps_Cons [simp]: "stack_steps s (e # es) s'"
inductive_simps stack_step_simps [simp]:
  "stack_step s (Ev_Init r) s'" "stack_step s (Ev_Dhcp r) s'" "stack_step s (Ev_Size p) s'" "stack_step s (Ev_Tftp p) s'"
  "stack_step s Ev_Cleanup s'"

lemma stack_steps_append: "stack_steps s es s' \<Longrightarrow> stack_steps s' es' s'' \<Longrightarrow> stack_steps s (es @ es') s''"
  by (induction rule: stack_steps.induct) auto

definition stack_of :: "bool \<Rightarrow> stack" where
  "stack_of up = (if up then Configured else Down)"

lemma pxe_network_init_steps:
  "pxe_network_init rom up = (r, up', ev) \<Longrightarrow> stack_steps (stack_of up) ev (stack_of up') \<and> (r = 0 \<longrightarrow> up') \<and> (up \<longrightarrow> up')"
  by (auto simp: pxe_network_init_def stack_of_def split: if_splits)

lemma pxe_fetch_steps: "pxe_fetch rom p n = Some (x, ev) \<Longrightarrow> stack_steps Configured ev Configured"
  by (auto simp: pxe_fetch_def split: option.splits prod.splits)

lemma pxe_load_steps:
  "pxe_load_kernel rom up p = Some (x, ev) \<Longrightarrow> stack_steps (stack_of up) ev (stack_of up)"
  "pxe_load_initrd rom up p = Some (x, ev) \<Longrightarrow> stack_steps (stack_of up) ev (stack_of up)"
  by (auto simp: pxe_load_kernel_def pxe_load_initrd_def stack_of_def Let_def pxe_fetch_steps split: if_splits)


lemma pxe_boot_steps:
  assumes "pxe_boot_kernel rom m up k i c = Some (out, up', ev)"
  shows "stack_steps (stack_of up) ev (stack_of up')"
proof -
  obtain r up1 ev0 where init: "pxe_network_init rom up = (r, up1, ev0)" by (cases "pxe_network_init rom up")
  note s0 = pxe_network_init_steps [OF init]
  have steps: "stack_steps (stack_of up) (ev0 @ es) (stack_of up1)" if "stack_steps (stack_of up1) es (stack_of up1)" for es
    using s0 that stack_steps_append by blast
  show ?thesis
  proof (cases "r \<noteq> 0")
    case True
    then show ?thesis using assms init s0 by (simp add: pxe_boot_kernel_def)
  next
    case False
    obtain x n d ev1 where k: "pxe_load_kernel rom up1 k = Some ((x, d, n), ev1)"
      using assms init False by (auto simp: pxe_boot_kernel_def split: option.splits bind_splits)
    note s1 = pxe_load_steps(1) [OF k]
    have s2: "stack_steps (stack_of up1) (ev1 @ es) (stack_of up1)" if "pxe_load_initrd rom up1 (the i) = Some (y, es)" for y es
      using stack_steps_append [OF s1 pxe_load_steps(2) [OF that]] .
    have "\<exists>es. ev = ev0 @ es \<and> up' = up1 \<and> stack_steps (stack_of up1) es (stack_of up1)"
      using assms init False k s1 s2 by (auto simp: pxe_boot_kernel_def split: if_splits bind_splits)
    then show ?thesis using steps by auto
  qed
qed

lemma pxe_do_steps: "pxe_do c up = Some (up', ev) \<Longrightarrow> stack_steps (stack_of up) ev (stack_of up')"
proof (cases c)
  case (Call_Init rom)
  assume "pxe_do c up = Some (up', ev)"
  then show ?thesis using Call_Init pxe_network_init_steps [of rom up] by (cases "pxe_network_init rom up") auto
next
  case Call_Cleanup
  assume "pxe_do c up = Some (up', ev)"
  then show ?thesis using Call_Cleanup by (auto simp: pxe_cleanup_network_def stack_of_def split: if_splits)
qed (auto dest: pxe_load_steps pxe_boot_steps)

text \<open>C11: Whatever operations are called in whatever order, and whatever the firmware answers, the network stack
  is used as its protocol demands: it is started only when it is down, configured only after it has been started,
  asked for files only when it is configured, and cleaned up only when it is up; the flag of the module says at
  the end whether it is configured.\<close>

theorem pxe_calls_follow_protocol:
  assumes "pxe_run cs False = Some (up, ev)"
  shows "stack_steps Down ev (if up then Configured else Down)"
proof -
  have "pxe_run cs u = Some (up, ev) \<Longrightarrow> stack_steps (stack_of u) ev (stack_of up)" for u
  proof (induction cs arbitrary: u ev)
    case (Cons c cs)
    then obtain u1 ev1 ev2 where c: "pxe_do c u = Some (u1, ev1)" "pxe_run cs u1 = Some (up, ev2)" "ev = ev1 @ ev2"
      by (auto split: option.splits)
    then show ?case using stack_steps_append [OF pxe_do_steps [OF c(1)] Cons.IH [OF c(2)]] by simp
  qed simp
  from this [OF assms] show ?thesis by (simp add: stack_of_def)
qed

definition rom_sample :: pxe_rom where
  "rom_sample = \<lparr>pxe_init = 0, pxe_dhcp_discover = 0, pxe_get_file_size = (\<lambda>p. 4),
     pxe_tftp_read = (\<lambda>p n. (0, [0x02, 0xB0, 0xAD, 0x1B])), allocate_memory = (\<lambda>n. Some (replicate (unat n) 0))\<rparr>"

theorem pxe_calls_follow_protocol_witness:
  "pxe_run [Call_Load_Kernel rom_sample [1], Call_Init rom_sample, Call_Load_Kernel rom_sample [1], Call_Cleanup] False =
     Some (False, [Ev_Init 0, Ev_Dhcp 0, Ev_Size [1], Ev_Tftp [1], Ev_Cleanup]) \<and>
   stack_steps Down [Ev_Init 0, Ev_Dhcp 0, Ev_Size [1], Ev_Tftp [1], Ev_Cleanup] Down"
proof -
  have e: "pxe_run [Call_Load_Kernel rom_sample [1], Call_Init rom_sample, Call_Load_Kernel rom_sample [1], Call_Cleanup] False =
      Some (False, [Ev_Init 0, Ev_Dhcp 0, Ev_Size [1], Ev_Tftp [1], Ev_Cleanup])"
    by (simp add: pxe_load_kernel_def pxe_network_init_def pxe_fetch_def pxe_cleanup_network_def rom_sample_def memcpy_def)
  then show ?thesis using pxe_calls_follow_protocol [OF e] by simp
qed

section \<open>Limine kernels\<close>

lemma elf_first_word: "64 \<le> length data \<Longrightarrow> elf_magic data \<Longrightarrow> le32_at data 0 = 0x464C457F"
proof -
  assume "64 \<le> length data" and e: "elf_magic data"
  have "data = take 4 data @ drop 4 data" by simp
  then have "data = 0x7F # 0x45 # 0x4C # 0x46 # drop 4 data" using e by (simp only: elf_magic_def append_Cons append_Nil)
  then obtain r where "data = 0x7F # 0x45 # 0x4C # 0x46 # r" by blast
  then show ?thesis by (simp add: le32_at_def be32_def)
qed

text \<open>No Limine kernel can be booted over the network. A kernel that starts with the Limine word is handed to
  the ELF loader, which refuses it because it does not start with the ELF word; one that does start with the ELF
  word is not recognised.\<close>

lemma pxe_refuses_limine:
  assumes "64 \<le> length data" and "elf_magic data \<or> le32_at data 0 = 0x67CF3D9D"
  shows "pxe_dispatch m data n initrd k cmdline = Some (Boot_Failed (-1))"
proof (cases "elf_magic data")
  case True
  then show ?thesis using elf_first_word [OF assms(1)] assms(1) by (simp add: pxe_dispatch_def peek32_def)
next
  case False
  then show ?thesis using assms by (simp add: pxe_dispatch_def peek32_def boot_limine_kernel_def)
qed

end
