(* ===== verification/Edk2_String.thy ===== *)
theory Edk2_String
  imports BH_Prelude "HOL-Library.Sublist"
begin

text \<open>
  The string routines of EDK2 that the boot manager relies on, from \<^verbatim>\<open>MdePkg/Library/BaseLib/String.c\<close> and
  \<^verbatim>\<open>SafeString.c\<close> of the vendored tree. A string is the list of its characters before the terminating zero; a
  character array is the string it holds. A pointer into a string is the part of the string that starts there.
  Assertions of debug builds are left out.
\<close>

section \<open>The routines\<close>

text \<open>\<open>AsciiStrCpyS\<close>: a source that does not fit leaves the destination as it is; the limit on the length of any
  string, a build option, is one million.\<close>

definition AsciiStrCpyS :: "string \<Rightarrow> nat \<Rightarrow> string \<Rightarrow> string" where
  "AsciiStrCpyS dst n src =
     (if 1000000 < n then dst
      else if n = 0 then dst
      else if n \<le> min (length src) n then dst
      else src)"

text \<open>The inner loop of \<open>AsciiStrStr\<close> runs along both strings while they agree.\<close>

fun str_run :: "string \<Rightarrow> string \<Rightarrow> string \<times> string" where
  "str_run (c # s) (d # p) = (if c = d then str_run s p else (c # s, d # p))"
| "str_run s p = (s, p)"

fun str_search :: "string \<Rightarrow> string \<Rightarrow> string option" where
  "str_search [] p = None"
| "str_search (c # s) p =
     (let (s', p') = str_run (c # s) p in
      if p' = [] then Some (c # s) else if s' = [] then None else str_search s p)"

definition AsciiStrStr :: "string \<Rightarrow> string \<Rightarrow> string option" where
  "AsciiStrStr s p = (if p = [] then Some s else str_search s p)"

definition digit :: "char \<Rightarrow> bool" where
  "digit c \<longleftrightarrow> 48 \<le> (of_char c :: nat) \<and> (of_char c :: nat) \<le> 57"

definition digit_value :: "char \<Rightarrow> u64" where
  "digit_value c = of_nat (of_char c - 48)"

text \<open>The digits are read up to the first other character; a number too large for the machine word saturates.\<close>

fun decimal_loop :: "u64 \<Rightarrow> string \<Rightarrow> u64" where
  "decimal_loop d [] = d"
| "decimal_loop d (c # s) =
     (if digit c
      then if (- 1 - digit_value c) div 10 < d then - 1 else decimal_loop (d * 10 + digit_value c) s
      else d)"

definition AsciiStrDecimalToUintn :: "string \<Rightarrow> u64" where
  "AsciiStrDecimalToUintn s =
     (if 1000000 < length s then 0
      else decimal_loop 0 (dropWhile (\<lambda>c. c = CHR ''0'') (dropWhile (\<lambda>c. c = CHR '' '' \<or> c = CHR 0x09) s)))"

text \<open>\<open>UnicodeStrToAsciiStrS\<close> on a buffer of bytes: the 16-bit characters up to the zero, of which the low byte is
  kept. A string without an end is read outside its buffer; one that does not fit leaves the destination.\<close>

fun wide_chars :: "u8 list \<Rightarrow> nat \<Rightarrow> string cmem" where
  "wide_chars b 0 = Some []"
| "wide_chars (lo # hi # b) (Suc n) =
     (if lo = 0 \<and> hi = 0 then Some [] else map_option ((#) (char_of (unat lo))) (wide_chars b n))"
| "wide_chars b (Suc n) = None"

definition UnicodeStrToAsciiStrS :: "u8 list \<Rightarrow> string \<Rightarrow> nat \<Rightarrow> string cmem" where
  "UnicodeStrToAsciiStrS src dst n =
     (if n = 0 then Some dst
      else map_option (\<lambda>s. if n \<le> length s then dst else s) (wide_chars src n))"

section \<open>Lemmas\<close>

lemma AsciiStrCpyS_eq: "0 < n \<Longrightarrow> n \<le> 1000000 \<Longrightarrow> AsciiStrCpyS dst n src = (if length src < n then src else dst)"
  by (auto simp: AsciiStrCpyS_def)

lemma length_AsciiStrCpyS: "length dst < n \<Longrightarrow> length (AsciiStrCpyS dst n src) < n"
  by (auto simp: AsciiStrCpyS_def)

lemma str_run_prefix: "snd (str_run s p) = [] \<longleftrightarrow> prefix p s"
  by (induction s p rule: str_run.induct) auto

lemma str_run_end: "fst (str_run s p) = [] \<Longrightarrow> length s \<le> length p"
  by (induction s p rule: str_run.induct) (auto split: if_splits)

text \<open>The tails of a string from the longest on; the reference for the search.\<close>

definition tails :: "string \<Rightarrow> string list" where
  "tails s = map (\<lambda>i. drop i s) [0..<Suc (length s)]"

lemma tails_Nil [simp]: "tails [] = [[]]"
  by (simp add: tails_def)

lemma tails_Cons [simp]: "tails (c # s) = (c # s) # tails s"
proof -
  have "[0..<Suc (Suc (length s))] = 0 # map Suc [0..<Suc (length s)]" by (simp add: upt_conv_Cons map_Suc_upt del: upt_Suc)
  then show ?thesis by (simp add: tails_def del: upt_Suc)
qed

lemma tails_length: "t \<in> set (tails s) \<Longrightarrow> length t \<le> length s"
  by (auto simp: tails_def)

lemma str_search_eq: "p \<noteq> [] \<Longrightarrow> str_search s p = find (prefix p) (tails s)"
proof (induction s)
  case (Cons c s)
  obtain s' p' where r: "str_run (c # s) p = (s', p')" by fastforce
  have pre: "p' = [] \<longleftrightarrow> prefix p (c # s)" using str_run_prefix [of "c # s" p] r by simp
  have "find (prefix p) (tails s) = None" if "s' = []"
  proof -
    have "length s < length p" using str_run_end [of "c # s" p] r that by simp
    then show ?thesis by (force simp: find_None_iff dest: tails_length prefix_length_le)
  qed
  then show ?case using Cons r pre by auto
qed simp

lemma AsciiStrStr_eq: "AsciiStrStr s p = find (prefix p) (tails s)"
  by (cases "p = []"; cases s) (simp_all add: AsciiStrStr_def str_search_eq del: str_search.simps)

lemma AsciiStrStr_char: "AsciiStrStr s [c] = (if c \<in> set s then Some (dropWhile (\<lambda>x. x \<noteq> c) s) else None)"
  unfolding AsciiStrStr_eq by (induction s) auto

lemma AsciiStrStr_absent: "c \<notin> set s \<Longrightarrow> AsciiStrStr s [c] = None"
  by (simp add: AsciiStrStr_char)

text \<open>Numbers that fit in a word are read exactly.\<close>

fun decimal_value :: "nat \<Rightarrow> string \<Rightarrow> nat" where
  "decimal_value d [] = d"
| "decimal_value d (c # s) = (if digit c then decimal_value (d * 10 + (of_char c - 48)) s else d)"

lemma decimal_value_mono: "d \<le> decimal_value d s"
proof (induction s arbitrary: d)
  case (Cons c s)
  have "d * 10 + (of_char c - 48) \<le> decimal_value (d * 10 + (of_char c - 48)) s" by (rule Cons)
  then show ?case by simp
qed simp

lemma unat_digit_value: "digit c \<Longrightarrow> unat (digit_value c) = of_char c - 48"
  unfolding digit_value_def by (rule unat_of_nat_small) (auto simp: digit_def)

lemma unat_max_u64: "unat (- 1 :: u64) = 18446744073709551615"
  by (simp add: unsigned_minus_1_eq_mask mask_eq_exp_minus_1)

lemma decimal_loop_eq: "unat (decimal_loop d s) = min (decimal_value (unat d) s) (2 ^ 64 - 1)"
proof (induction s arbitrary: d)
  case Nil
  have "unat d < 2 ^ 64" using unsigned_less [of d] by simp
  then show ?case by simp
next
  case (Cons c s)
  show ?case
  proof (cases "digit c")
    case False
    have "unat d < 2 ^ 64" using unsigned_less [of d] by simp
    then show ?thesis using False by simp
  next
    case True
    let ?v = "of_char c - 48 :: nat"
    note v = unat_digit_value [OF True]
    have v9: "?v \<le> 9" using True by (auto simp: digit_def)
    have m: "unat (- 1 - digit_value c) = 2 ^ 64 - 1 - ?v"
      using v v9 unat_sub_small [of "digit_value c" "- 1"] by (simp add: unat_max_u64)
    have q: "unat ((- 1 - digit_value c) div 10) = (2 ^ 64 - 1 - ?v) div 10"
      by (simp add: unat_div m)
    show ?thesis
    proof (cases "(- 1 - digit_value c) div 10 < d")
      case o: True
      then have "(2 ^ 64 - 1 - ?v) div 10 < unat d" by (simp add: word_less_nat_alt q)
      then have "2 ^ 64 - 1 - ?v < unat d * 10" by (simp add: div_less_iff_less_mult)
      then have "2 ^ 64 - 1 < unat d * 10 + ?v" using v9 by linarith
      then have "2 ^ 64 - 1 \<le> decimal_value (unat d * 10 + ?v) s"
        using decimal_value_mono [of "unat d * 10 + ?v" s] by linarith
      then show ?thesis using True o by (simp add: unat_max_u64)
    next
      case f: False
      then have "unat d \<le> (2 ^ 64 - 1 - ?v) div 10" by (simp add: word_less_nat_alt q not_less)
      then have "unat d * 10 \<le> 2 ^ 64 - 1 - ?v" by (simp add: less_eq_div_iff_mult_less_eq)
      then have b: "unat d * 10 + ?v \<le> 2 ^ 64 - 1" using v9 by simp
      have "unat (d * 10 + digit_value c) = unat d * 10 + ?v"
        using b v by (simp add: unat_word_ariths)
      then show ?thesis using True f Cons.IH [of "d * 10 + digit_value c"] by simp
    qed
  qed
qed

end
