(* ===== verification/Config.thy ===== *)
theory Config
  imports BH_Prelude
begin

text \<open>
  The configuration readers, \<^verbatim>\<open>config/config_ini.c\<close>, \<^verbatim>\<open>config_json.c\<close>, \<^verbatim>\<open>config_env.c\<close> and \<^verbatim>\<open>config_validate.c\<close>. Strings are
  lists of characters without the terminating zero; the file of the INI reader is its text, nothing when it
  cannot be opened.
\<close>

section \<open>INI files\<close>

record boot_menu_entry =
  be_section :: string
  be_name :: string
  be_path :: string

text \<open>\<open>fgets\<close> with room for \<open>n\<close> characters: a line with its newline, or the start of a longer one.\<close>

fun fgets :: "nat \<Rightarrow> string \<Rightarrow> string \<times> string" where
  "fgets n [] = ([], [])"
| "fgets 0 s = ([], s)"
| "fgets (Suc n) (c # s) = (if c = CHR 0x0A then ([c], s) else (case fgets n s of (l, r) \<Rightarrow> (c # l, r)))"

definition blank :: "char \<Rightarrow> bool" where
  "blank c \<longleftrightarrow> c = CHR '' '' \<or> c = CHR 0x09"

definition before :: "char \<Rightarrow> string \<Rightarrow> string" where
  "before c s = takeWhile (\<lambda>x. x \<noteq> c) s"

definition after :: "char \<Rightarrow> string \<Rightarrow> string" where
  "after c s = drop (length (before c s) + 1) s"

text \<open>One line: the section that holds afterwards and the entry it gives.\<close>

definition ini_line :: "string \<Rightarrow> string \<Rightarrow> string \<times> boot_menu_entry option" where
  "ini_line sec line =
     (let p = dropWhile blank (before (CHR 0x00) line) in
      if p \<noteq> [] \<and> (p ! 0 = CHR '';'' \<or> p ! 0 = CHR ''#'') then (sec, None)
      else if p \<noteq> [] \<and> p ! 0 = CHR ''['' then
        (if CHR '']'' \<in> set p
         then let name = before (CHR '']'') (tl p) in
              (if 0 < length name \<and> length name < 64 then name else sec, None)
         else (sec, None))
      else if CHR ''='' \<notin> set p then (sec, None)
      else let key = before (CHR ''='') p;
               val = before (CHR 0x0A) (dropWhile blank (after (CHR ''='') p))
           in (sec, Some \<lparr>be_section = take 127 sec, be_name = take 63 key, be_path = take 127 val\<rparr>))"

lemma length_fgets: "s \<noteq> [] \<Longrightarrow> 0 < n \<Longrightarrow> length (snd (fgets n s)) < length s"
proof (induction n s rule: fgets.induct)
  case (3 n c s)
  have "length (snd (fgets n s)) \<le> length s"
    by (induction n s rule: fgets.induct) (auto split: prod.splits)
  then show ?case by (auto split: prod.splits)
qed simp_all

function ini_loop :: "int \<Rightarrow> string \<Rightarrow> string \<Rightarrow> boot_menu_entry list \<Rightarrow> boot_menu_entry list" where
  "ini_loop max_entries s sec entries =
     (if s = [] \<or> max_entries \<le> int (length entries) then entries
      else let (line, more) = fgets 255 s; (sec', e) = ini_line sec line in
        ini_loop max_entries more sec' (case e of None \<Rightarrow> entries | Some x \<Rightarrow> entries @ [x]))"
  by pat_completeness auto
termination
proof (relation "measure (\<lambda>(m, s, sec, es). length s)", goal_cases)
  case (2 m s sec es x line more y sec' e)
  then show ?case using length_fgets [of s 255] by (metis (no_types, lifting) case_prod_conv in_measure snd_conv zero_less_numeral)
qed simp

declare ini_loop.simps [simp del]

text \<open>The number of entries and the entries stored.\<close>

definition parse_ini :: "string option \<Rightarrow> int \<Rightarrow> int \<times> boot_menu_entry list" where
  "parse_ini text max_entries =
     (case text of
        None \<Rightarrow> (-1, [])
      | Some s \<Rightarrow> let es = ini_loop max_entries s [] [] in (int (length es), es))"

section \<open>The environment and validation\<close>

fun config_env_get :: "string list \<Rightarrow> string \<Rightarrow> int \<Rightarrow> (int \<times> string option) cmem" where
  "config_env_get [] key maxlen = Some (-1, None)"
| "config_env_get (e # es) key maxlen =
     (if CHR ''='' \<in> set e \<and> before (CHR ''='') e = take (length (before (CHR ''='') e)) key
      then if maxlen < 1 then None else Some (0, Some (take (nat (maxlen - 1)) (after (CHR ''='') e)))
      else config_env_get es key maxlen)"

definition printable :: "char \<Rightarrow> bool" where
  "printable c \<longleftrightarrow> \<not> (of_char c < (32 :: nat) \<or> of_char c > (126 :: nat))"

definition config_validate_key :: "string option \<Rightarrow> int" where
  "config_validate_key key =
     (case key of None \<Rightarrow> 0 | Some s \<Rightarrow> if s = [] then 0 else if \<exists>c \<in> set s. \<not> printable c then 0 else 1)"

definition config_validate_value :: "string option \<Rightarrow> int" where
  "config_validate_value val =
     (case val of None \<Rightarrow> 0 | Some s \<Rightarrow> if s = [] then 0 else if \<exists>c \<in> set s. \<not> printable c then 0 else 1)"

section \<open>JSON\<close>

text \<open>The text is read by position; its end is a zero, and behind that nothing may be read.\<close>

definition json_at :: "string \<Rightarrow> nat \<Rightarrow> char cmem" where
  "json_at s i = (if i < length s then Some (s ! i) else if i = length s then Some (CHR 0x00) else None)"

definition json_skip :: "(char \<Rightarrow> bool) \<Rightarrow> string \<Rightarrow> nat \<Rightarrow> nat cmem" where
  "json_skip P s i = (if i \<le> length s then Some (i + length (takeWhile P (drop i s))) else None)"

definition json_key :: "string \<Rightarrow> string \<Rightarrow> nat \<Rightarrow> string" where
  "json_key s sec key = take 63 (sec @ (if sec \<noteq> [] then ''.'' else []) @ drop key s)"

type_synonym config_json = "string \<times> string"

text \<open>A value that is not an object: where it starts, how long it is, and where reading goes on.\<close>

definition json_value :: "string \<Rightarrow> nat \<Rightarrow> (nat \<times> nat \<times> nat) cmem" where
  "json_value s p =
     (case json_skip (\<lambda>c. c = CHR '' '' \<or> c = CHR 0x22) s p of
        None \<Rightarrow> None
      | Some p1 \<Rightarrow>
          (case json_at s p1 of
             None \<Rightarrow> None
           | Some c \<Rightarrow>
               if c = CHR 0x22 then
                 (case json_skip (\<lambda>c. c \<noteq> CHR 0x22) s (p1 + 1) of
                    None \<Rightarrow> None
                  | Some p2 \<Rightarrow> Some (p1 + 1, p2 - (p1 + 1), p2 + 1))
               else
                 (case json_skip (\<lambda>c. c \<noteq> CHR '','' \<and> c \<noteq> CHR ''}'' \<and> c \<noteq> CHR 0x0A) s p1 of
                    None \<Rightarrow> None
                  | Some p2 \<Rightarrow> Some (p1, p2 - p1, p2))))"

text \<open>The key of the next member: its position, its length and the position of its value, or where the object
  ends.\<close>

definition json_member :: "string \<Rightarrow> nat \<Rightarrow> (nat + nat \<times> nat \<times> nat) cmem" where
  "json_member s p = do {
     p1 \<leftarrow> json_skip (\<lambda>c. c \<noteq> CHR 0x22 \<and> c \<noteq> CHR ''}'') s p;
     c \<leftarrow> json_at s p1;
     if c = CHR ''}'' then Some (Inl (p1 + 1))
     else if c \<noteq> CHR 0x22 then Some (Inl p1)
     else do {
       p2 \<leftarrow> json_skip (\<lambda>c. c \<noteq> CHR 0x22) s (p1 + 1);
       p3 \<leftarrow> json_skip (\<lambda>c. c \<noteq> CHR '':'') s (p2 + 1);
       p4 \<leftarrow> json_skip (\<lambda>c. c = CHR '' '' \<or> c = CHR 0x0A) s (p3 + 1);
       Some (Inr (p1 + 1, p2 - (p1 + 1), p4))
     }
   }"

partial_function (option) parse_json_object ::
  "string \<Rightarrow> int \<Rightarrow> string \<Rightarrow> nat \<Rightarrow> config_json list \<Rightarrow> (nat \<times> config_json list) cmem" where
  "parse_json_object s max_entries sec p out =
     Option.bind (json_at s p) (\<lambda>c0.
       if c0 = CHR 0x00 then Some (p, out)
       else Option.bind (json_member s p) (\<lambda>r.
         case r of
           Inl q \<Rightarrow> Some (q, out)
         | Inr (key, keylen, q) \<Rightarrow>
             Option.bind (json_at s q) (\<lambda>c.
               if c = CHR ''{'' then
                 Option.bind (parse_json_object s max_entries (json_key s sec key) (q + 1) out) (\<lambda>(q', out').
                   parse_json_object s max_entries sec q' out')
               else
                 Option.bind (json_value s q) (\<lambda>(v, vallen, q1).
                   Option.bind (json_skip (\<lambda>c. c \<noteq> CHR '','' \<and> c \<noteq> CHR ''}'') s q1) (\<lambda>q2.
                     Option.bind (json_at s q2) (\<lambda>d.
                       parse_json_object s max_entries sec (if d = CHR '','' then q2 + 1 else q2)
                         (if keylen < 32 \<and> vallen < 128 \<and> int (length out) < max_entries
                          then out @ [(take 31 (json_key s sec key), take vallen (drop v s))] else out)))))))"

definition config_json_parse :: "string \<Rightarrow> int \<Rightarrow> (int \<times> config_json list) cmem" where
  "config_json_parse s max_entries =
     (case json_skip (\<lambda>c. c \<noteq> CHR ''{'') s 0 of
        None \<Rightarrow> None
      | Some p \<Rightarrow>
          (case json_at s p of
             None \<Rightarrow> None
           | Some c \<Rightarrow>
               if c = CHR ''{''
               then map_option (\<lambda>(q, out). (int (length out), out)) (parse_json_object s max_entries [] (p + 1) [])
               else Some (0, [])))"

section \<open>Reading what was written\<close>

text \<open>A configuration as it is written to a file: sections with their entries, one line each.\<close>

type_synonym ini = "(string \<times> (string \<times> string) list) list"

definition nl :: char where
  "nl = CHR 0x0A"

fun ini_lines :: "ini \<Rightarrow> string list" where
  "ini_lines [] = []"
| "ini_lines ((sec, kvs) # cfg) = (''['' @ sec @ '']'') # map (\<lambda>(k, v). k @ ''='' @ v) kvs @ ini_lines cfg"

definition print_ini :: "ini \<Rightarrow> string" where
  "print_ini cfg = concat (map (\<lambda>l. l @ [nl]) (ini_lines cfg))"

definition ini_entries :: "ini \<Rightarrow> boot_menu_entry list" where
  "ini_entries cfg =
     concat (map (\<lambda>(sec, kvs). map (\<lambda>(k, v). \<lparr>be_section = sec, be_name = k, be_path = v\<rparr>) kvs) cfg)"

definition plain :: "string \<Rightarrow> bool" where
  "plain s \<longleftrightarrow> CHR 0x00 \<notin> set s \<and> nl \<notin> set s"

definition good_section :: "string \<Rightarrow> bool" where
  "good_section s \<longleftrightarrow> plain s \<and> CHR '']'' \<notin> set s \<and> 0 < length s \<and> length s < 64"

definition good_key :: "string \<Rightarrow> bool" where
  "good_key k \<longleftrightarrow> plain k \<and> CHR ''='' \<notin> set k \<and> 0 < length k \<and> length k < 64 \<and>
     \<not> blank (k ! 0) \<and> k ! 0 \<notin> {CHR '';'', CHR ''#'', CHR ''[''}"

definition good_value :: "string \<Rightarrow> bool" where
  "good_value v \<longleftrightarrow> plain v \<and> length v < 128 \<and> (v \<noteq> [] \<longrightarrow> \<not> blank (v ! 0))"

definition good_ini :: "ini \<Rightarrow> bool" where
  "good_ini cfg \<longleftrightarrow> (\<forall>(sec, kvs) \<in> set cfg. good_section sec \<and> (\<forall>(k, v) \<in> set kvs. good_key k \<and> good_value v))"

lemma before_absent: "c \<notin> set s \<Longrightarrow> before c s = s"
  unfolding before_def by (rule takeWhile_eq_all_conv [THEN iffD2]) auto

lemma before_append [simp]: "c \<notin> set s \<Longrightarrow> before c (s @ c # r) = s"
  unfolding before_def by (subst takeWhile_append2) auto

lemma after_append [simp]: "c \<notin> set s \<Longrightarrow> after c (s @ c # r) = r"
  by (simp add: after_def)

lemma fgets_line: "nl \<notin> set l \<Longrightarrow> length l < n \<Longrightarrow> fgets n (l @ nl # r) = (l @ [nl], r)"
proof (induction l arbitrary: n)
  case Nil
  then show ?case by (cases n) (simp_all add: nl_def)
next
  case (Cons c l)
  then show ?case by (cases n) (auto simp: nl_def)
qed

lemma ini_line_section:
  assumes "good_section sec"
  shows "ini_line s ((''['' @ sec @ '']'') @ [nl]) = (sec, None)"
proof -
  have z: "CHR 0x00 \<notin> set ((''['' @ sec @ '']'') @ [nl])" using assms by (auto simp: good_section_def plain_def nl_def)
  have "before (CHR 0x00) ((''['' @ sec @ '']'') @ [nl]) = CHR ''['' # (sec @ CHR '']'' # [nl])"
    using before_absent [OF z] by simp
  then show ?thesis using assms by (simp add: ini_line_def blank_def good_section_def Let_def)
qed

lemma ini_line_entry:
  assumes "good_key k" and "good_value v" and "length s < 64"
  shows "ini_line s ((k @ ''='' @ v) @ [nl]) = (s, Some \<lparr>be_section = s, be_name = k, be_path = v\<rparr>)"
proof -
  obtain c k' where k: "k = c # k'" using assms(1) by (cases k) (auto simp: good_key_def)
  have z: "CHR 0x00 \<notin> set ((k @ ''='' @ v) @ [nl])" using assms(1,2) by (auto simp: good_key_def good_value_def plain_def nl_def)
  have p: "dropWhile blank (before (CHR 0x00) ((k @ ''='' @ v) @ [nl])) = k @ CHR ''='' # (v @ [nl])"
    using before_absent [OF z] assms(1) by (simp add: k good_key_def)
  have "before (CHR ''='') (k @ CHR ''='' # (v @ [nl])) = k" "after (CHR ''='') (k @ CHR ''='' # (v @ [nl])) = v @ [nl]"
    using assms(1) by (simp_all add: good_key_def)
  moreover have "dropWhile blank (v @ [nl]) = v @ [nl]"
    using assms(2) by (cases v) (simp_all add: good_value_def nl_def blank_def)
  moreover have "before (CHR 0x0A) (v @ [nl]) = v" using assms(2) before_append [of nl v "[]"] by (simp add: good_value_def plain_def nl_def)
  ultimately show ?thesis
    unfolding ini_line_def p Let_def using assms by (simp add: k good_key_def good_value_def)
qed

lemma ini_loop_line:
  assumes "nl \<notin> set l" and "length l < 255" and "int (length es) < max_entries" and "ini_line sec (l @ [nl]) = (sec', e)"
  shows "ini_loop max_entries (l @ nl # r) sec es = ini_loop max_entries r sec' (case e of None \<Rightarrow> es | Some x \<Rightarrow> es @ [x])"
  by (subst ini_loop.simps) (use assms in \<open>simp add: fgets_line\<close>)

lemma ini_loop_entries:
  assumes "\<forall>(k, v) \<in> set kvs. good_key k \<and> good_value v" and "length sec < 64" and "int (length es + length kvs) \<le> max_entries"
  shows "ini_loop max_entries (concat (map (\<lambda>l. l @ [nl]) (map (\<lambda>(k, v). k @ ''='' @ v) kvs)) @ r) sec es =
    ini_loop max_entries r sec (es @ map (\<lambda>(k, v). \<lparr>be_section = sec, be_name = k, be_path = v\<rparr>) kvs)"
  using assms
proof (induction kvs arbitrary: es)
  case (Cons kv kvs)
  obtain k v where kv: "kv = (k, v)" by (cases kv)
  let ?l = "k @ ''='' @ v"
  have g: "good_key k" "good_value v" using Cons.prems(1) kv by auto
  then have l: "nl \<notin> set ?l" "length ?l < 255"
    by (auto simp: good_key_def good_value_def plain_def nl_def)
  have "int (length es) < max_entries" using Cons.prems(3) by simp
  note step = ini_loop_line [OF l this ini_line_entry [OF g Cons.prems(2)]]
  show ?case using step Cons.IH [of "es @ [\<lparr>be_section = sec, be_name = k, be_path = v\<rparr>]"] Cons.prems by (simp add: kv)
qed simp

lemma ini_loop_print:
  assumes "good_ini cfg" and "int (length es + length (ini_entries cfg)) \<le> max_entries"
  shows "ini_loop max_entries (print_ini cfg) sec es = es @ ini_entries cfg"
  using assms
proof (induction cfg arbitrary: sec es)
  case Nil
  then show ?case by (simp add: print_ini_def ini_entries_def ini_loop.simps)
next
  case (Cons x cfg)
  obtain s kvs where x: "x = (s, kvs)" by (cases x)
  let ?new = "map (\<lambda>(k, v). \<lparr>be_section = s, be_name = k, be_path = v\<rparr>) kvs"
  have es: "ini_entries (x # cfg) = ?new @ ini_entries cfg" by (simp add: ini_entries_def x)
  show ?case
  proof (cases "int (length es) < max_entries")
    case False
    then have "length (ini_entries (x # cfg)) = 0" using Cons.prems(2) by linarith
    then have "ini_entries (x # cfg) = []" by simp
    then show ?thesis using False by (subst ini_loop.simps) simp
  next
    case True
    have g: "good_section s" "\<forall>(k, v) \<in> set kvs. good_key k \<and> good_value v" "good_ini cfg"
      using Cons.prems(1) by (auto simp: good_ini_def x)
    let ?l = "''['' @ s @ '']''"
    have l: "nl \<notin> set ?l" "length ?l < 255" "length s < 64" using g(1) by (auto simp: good_section_def plain_def nl_def)
    have n: "int (length es + length kvs) \<le> max_entries" "int (length (es @ ?new) + length (ini_entries cfg)) \<le> max_entries"
      using Cons.prems(2) by (simp_all add: es)
    have "print_ini (x # cfg) =
        ?l @ nl # (concat (map (\<lambda>l. l @ [nl]) (map (\<lambda>(k, v). k @ ''='' @ v) kvs)) @ print_ini cfg)"
      by (simp add: print_ini_def x)
    then show ?thesis
      using ini_loop_line [OF l(1,2) True ini_line_section [OF g(1)]] ini_loop_entries [OF g(2) l(3) n(1)] Cons.IH [OF g(3) n(2)]
      by (simp add: es)
  qed
qed

text \<open>C12: Reading an INI file gives back what was written. For every list of sections whose names and keys are
  shorter than 64 characters and whose values are shorter than 128, free of the characters that separate them,
  the reader returns the entries of all sections in order, each with its section, its key and its value, when
  there is room for them.\<close>

theorem parse_ini_roundtrip:
  assumes "good_ini cfg" and "int (length (ini_entries cfg)) \<le> max_entries"
  shows "parse_ini (Some (print_ini cfg)) max_entries = (int (length (ini_entries cfg)), ini_entries cfg)"
  using ini_loop_print [of cfg "[]"] assms by (simp add: parse_ini_def Let_def)

theorem parse_ini_roundtrip_witness:
  "parse_ini (Some (print_ini [(''linux'', [(''kernel'', ''/vmlinuz''), (''initrd'', [])])])) 2 =
     (2, [\<lparr>be_section = ''linux'', be_name = ''kernel'', be_path = ''/vmlinuz''\<rparr>,
          \<lparr>be_section = ''linux'', be_name = ''initrd'', be_path = []\<rparr>])"
proof -
  let ?cfg = "[(''linux'', [(''kernel'', ''/vmlinuz''), (''initrd'', [])])]"
  have "good_ini ?cfg"
    by (simp add: good_ini_def good_section_def good_key_def good_value_def plain_def nl_def blank_def)
  moreover have "int (length (ini_entries ?cfg)) \<le> 2" by (simp add: ini_entries_def)
  ultimately show ?thesis using parse_ini_roundtrip [of ?cfg 2] by (simp add: ini_entries_def)
qed

section \<open>Reading a JSON member\<close>

lemma json_at_append: "s = a @ x # c \<Longrightarrow> i = length a \<Longrightarrow> json_at s i = Some x"
  by (simp add: json_at_def)

lemma json_skip_run:
  assumes "s = a @ b @ c" and "i = length a" and "j = i + length b"
    and "\<forall>x \<in> set b. P x" and "c = [] \<or> \<not> P (hd c)"
  shows "json_skip P s i = Some j"
proof -
  have "takeWhile P (b @ c) = b" using assms(4,5) by (cases c) (auto simp: takeWhile_append2)
  then show ?thesis using assms(1,2,3) by (simp add: json_skip_def)
qed

lemma json_object_end: "json_at s p = Some (CHR ''}'') \<Longrightarrow> json_skip (\<lambda>c. c \<noteq> CHR 0x22 \<and> c \<noteq> CHR ''}'') s p = Some p \<Longrightarrow>
  parse_json_object s max_entries sec p out = Some (p + 1, out)"
  by (subst parse_json_object.simps) (simp add: json_member_def)

definition json_text :: "string \<Rightarrow> string \<Rightarrow> string" where
  "json_text k v = CHR ''{'' # CHR 0x22 # k @ CHR 0x22 # CHR '':'' # CHR 0x22 # v @ [CHR 0x22, CHR ''}'']"

lemma json_text_member:
  assumes "CHR 0x22 \<notin> set k"
  shows "json_member (json_text k v) 1 = Some (Inr (2, length k, length k + 4))"
proof -
  let ?s = "json_text k v" and ?q = "CHR 0x22" and ?t = "v @ [CHR 0x22, CHR ''}'']"
  have "json_skip (\<lambda>c. c \<noteq> ?q \<and> c \<noteq> CHR ''}'') ?s 1 = Some 1"
    by (rule json_skip_run [where a = "''{''" and b = "[]" and c = "tl ?s"]) (auto simp: json_text_def)
  moreover have "json_at ?s 1 = Some ?q" by (simp add: json_text_def json_at_def)
  moreover have "json_skip (\<lambda>c. c \<noteq> ?q) ?s 2 = Some (2 + length k)"
    by (rule json_skip_run [where a = "[CHR ''{'', ?q]" and b = k and c = "?q # CHR '':'' # ?q # ?t"])
      (use assms in \<open>auto simp: json_text_def\<close>)
  moreover have "json_skip (\<lambda>c. c \<noteq> CHR '':'') ?s (3 + length k) = Some (3 + length k)"
    by (rule json_skip_run [where a = "[CHR ''{'', ?q] @ k @ [?q]" and b = "[]" and c = "CHR '':'' # ?q # ?t"])
      (auto simp: json_text_def)
  moreover have "json_skip (\<lambda>c. c = CHR '' '' \<or> c = CHR 0x0A) ?s (4 + length k) = Some (4 + length k)"
    by (rule json_skip_run [where a = "[CHR ''{'', ?q] @ k @ [?q, CHR '':'']" and b = "[]" and c = "?q # ?t"])
      (auto simp: json_text_def)
  ultimately show ?thesis by (simp add: json_member_def eval_nat_numeral)
qed

lemma json_text_value:
  assumes "set v \<inter> {CHR '','', CHR ''}'', CHR 0x0A} = {}" and "v \<noteq> []" and "hd v \<notin> {CHR '' '', CHR 0x22}"
  shows "json_value (json_text k v) (length k + 4) = Some (length k + 5, length v + 1, length k + length v + 6)"
proof -
  let ?s = "json_text k v" and ?q = "CHR 0x22"
  have "json_skip (\<lambda>c. c = CHR '' '' \<or> c = ?q) ?s (length k + 4) = Some (length k + 5)"
    by (rule json_skip_run [where a = "[CHR ''{'', ?q] @ k @ [?q, CHR '':'']" and b = "[?q]" and c = "v @ [?q, CHR ''}'']"])
      (use assms(2,3) in \<open>auto simp: json_text_def\<close>)
  moreover have "json_at ?s (length k + 5) = Some (hd v)"
    by (rule json_at_append [where a = "[CHR ''{'', ?q] @ k @ [?q, CHR '':'', ?q]" and c = "tl v @ [?q, CHR ''}'']"])
      (use assms(2) in \<open>auto simp: json_text_def\<close>)
  moreover have "json_skip (\<lambda>c. c \<noteq> CHR '','' \<and> c \<noteq> CHR ''}'' \<and> c \<noteq> CHR 0x0A) ?s (length k + 5) = Some (length k + length v + 6)"
    by (rule json_skip_run [where a = "[CHR ''{'', ?q] @ k @ [?q, CHR '':'', ?q]" and b = "v @ [?q]" and c = "''}''"])
      (use assms(1) in \<open>auto simp: json_text_def\<close>)
  ultimately show ?thesis using assms(3) by (simp add: json_value_def)
qed

text \<open>The JSON reader does not return the member of an object with one string: for the text
  \<open>{"k":"v"}\<close> its only entry has as key the first 31 characters of everything from \<open>k\<close> to the end of
  the text, and as value \<open>v\<close> followed by the closing quotation mark.\<close>

lemma config_json_parse_keeps_tail:
  assumes "CHR 0x22 \<notin> set k" and "length k < 32"
    and "set v \<inter> {CHR '','', CHR ''}'', CHR 0x0A} = {}" and "v \<noteq> []" and "hd v \<notin> {CHR '' '', CHR 0x22}"
    and "length v < 127" and "0 < max_entries"
  shows "config_json_parse (json_text k v) max_entries =
    Some (1, [(take 31 (k @ CHR 0x22 # CHR '':'' # CHR 0x22 # v @ [CHR 0x22, CHR ''}'']), v @ [CHR 0x22])])"
proof -
  let ?s = "json_text k v" and ?q = "CHR 0x22" and ?e = "length k + length v + 6"
  let ?out = "[(take 31 (k @ ?q # CHR '':'' # ?q # v @ [?q, CHR ''}'']), v @ [?q])]"
  have at: "json_at ?s 1 = Some ?q" "json_at ?s (length k + 4) = Some ?q" "json_at ?s ?e = Some (CHR ''}'')"
    by (rule json_at_append [where a = "''{''"] json_at_append [where a = "[CHR ''{'', ?q] @ k @ [?q, CHR '':'']"]
        json_at_append [where a = "[CHR ''{'', ?q] @ k @ [?q, CHR '':'', ?q] @ v @ [?q]"], simp add: json_text_def, simp)+
  have stop: "json_skip P ?s ?e = Some ?e" if "\<not> P (CHR ''}'')" for P
    by (rule json_skip_run [where a = "[CHR ''{'', ?q] @ k @ [?q, CHR '':'', ?q] @ v @ [?q]" and b = "[]" and c = "''}''"])
      (use that in \<open>auto simp: json_text_def\<close>)
  have key: "json_key ?s [] 2 = take 63 (k @ ?q # CHR '':'' # ?q # v @ [?q, CHR ''}''])"
    by (simp add: json_key_def json_text_def)
  have "drop (length k + 5) ?s = v @ [?q, CHR ''}'']"
    by (simp add: json_text_def eval_nat_numeral)
  then have val: "take (length v + 1) (drop (length k + 5) ?s) = v @ [?q]" by simp
  have "parse_json_object ?s max_entries [] ?e ?out = Some (?e + 1, ?out)"
    by (rule json_object_end) (use at stop in simp_all)
  then have "parse_json_object ?s max_entries [] 1 [] = Some (?e + 1, ?out)"
    using assms(2,6,7) at
    by (subst parse_json_object.simps)
      (simp add: json_text_member [OF assms(1), simplified] json_text_value [OF assms(3,4,5)] stop key val [simplified])
  moreover have "json_skip (\<lambda>c. c \<noteq> CHR ''{'') ?s 0 = Some 0" "json_at ?s 0 = Some (CHR ''{'')"
    by (simp_all add: json_text_def json_skip_def json_at_def)
  ultimately show ?thesis by (simp add: config_json_parse_def)
qed

end
