(* ===== verification/Main_Config.thy ===== *)
theory Main_Config
  imports Edk2_String Config Boot_Secure
begin

text \<open>
  How the boot manager \<^verbatim>\<open>main.c\<close> loads its configuration: defaults, then the file \<^verbatim>\<open>bloodhorn.ini\<close>, then
  \<^verbatim>\<open>bloodhorn.json\<close>, then UEFI variables, each overriding what came before. The firmware is the record \<open>boot_env\<close>:
  the root directory, what a file handle answers, whether an allocation of a size succeeds, and the variable
  services. A character array of the configuration is the string it holds.
\<close>

section \<open>The configuration\<close>

record BOOT_CONFIG =
  bc_default_entry :: string
  bc_menu_timeout :: int
  bc_kernel :: string
  bc_initrd :: string
  bc_cmdline :: string
  bc_tpm_enabled :: bool
  bc_secure_boot :: bool
  bc_use_gui :: bool
  bc_font_path :: string
  bc_font_size :: u32
  bc_header_font_size :: u32
  bc_language :: string
  bc_enable_networking :: bool

section \<open>Helpers\<close>

definition lower :: "char \<Rightarrow> char" where
  "lower c = (if 65 \<le> (of_char c :: nat) \<and> (of_char c :: nat) \<le> 90 then char_of (of_char c - 65 + 97 :: nat) else c)"

fun str_ieq :: "string \<Rightarrow> string \<Rightarrow> bool" where
  "str_ieq (a # as) (b # bs) = (if lower a \<noteq> lower b then False else str_ieq as bs)"
| "str_ieq as bs \<longleftrightarrow> as = [] \<and> bs = []"

definition parse_bool_ascii :: "string ptr \<Rightarrow> bool \<Rightarrow> bool" where
  "parse_bool_ascii v defv =
     (case v of
        None \<Rightarrow> defv
      | Some s \<Rightarrow>
          if str_ieq s ''true'' \<or> str_ieq s ''1'' \<or> str_ieq s ''yes'' then True
          else if str_ieq s ''false'' \<or> str_ieq s ''0'' \<or> str_ieq s ''no'' then False
          else defv)"

definition space :: "char \<Rightarrow> bool" where
  "space c \<longleftrightarrow> c = CHR '' '' \<or> c = CHR 0x09 \<or> c = CHR 0x0D \<or> c = CHR 0x0A"

definition trim_ascii :: "string \<Rightarrow> string" where
  "trim_ascii s = rev (dropWhile space (rev (dropWhile space s)))"

section \<open>INI\<close>

definition ini_set :: "string \<Rightarrow> string \<Rightarrow> string \<Rightarrow> BOOT_CONFIG \<Rightarrow> BOOT_CONFIG" where
  "ini_set section k v c =
     (if str_ieq section ''boot'' then
        (if str_ieq k ''default'' then c\<lparr>bc_default_entry := AsciiStrCpyS (bc_default_entry c) 64 v\<rparr>
         else if str_ieq k ''menu_timeout'' then c\<lparr>bc_menu_timeout := sint (ucast (AsciiStrDecimalToUintn v) :: u32)\<rparr>
         else if str_ieq k ''language'' then c\<lparr>bc_language := AsciiStrCpyS (bc_language c) 8 v\<rparr>
         else if str_ieq k ''secure_boot'' then c\<lparr>bc_secure_boot := parse_bool_ascii (Some v) (bc_secure_boot c)\<rparr>
         else if str_ieq k ''tpm_enabled'' then c\<lparr>bc_tpm_enabled := parse_bool_ascii (Some v) (bc_tpm_enabled c)\<rparr>
         else if str_ieq k ''use_gui'' then c\<lparr>bc_use_gui := parse_bool_ascii (Some v) (bc_use_gui c)\<rparr>
         else c)
      else if str_ieq section ''linux'' then
        (if str_ieq k ''kernel'' then c\<lparr>bc_kernel := AsciiStrCpyS (bc_kernel c) 128 v\<rparr>
         else if str_ieq k ''initrd'' then c\<lparr>bc_initrd := AsciiStrCpyS (bc_initrd c) 128 v\<rparr>
         else if str_ieq k ''cmdline'' then c\<lparr>bc_cmdline := AsciiStrCpyS (bc_cmdline c) 256 v\<rparr>
         else c)
      else c)"

text \<open>One line; a pointer that \<open>AsciiStrStr\<close> returns is the rest of the line from there on.\<close>

definition apply_ini_line :: "string \<Rightarrow> string \<times> BOOT_CONFIG \<Rightarrow> string \<times> BOOT_CONFIG" where
  "apply_ini_line text sc =
     (let (section, c) = sc; line = trim_ascii text in
      if line = [] \<or> line ! 0 = CHR ''#'' \<or> line ! 0 = CHR '';'' then (section, c)
      else if line ! 0 = CHR ''['' then
        (case AsciiStrStr line '']'' of
           None \<Rightarrow> (section, c)
         | Some rb \<Rightarrow> (AsciiStrCpyS section 64 (tl (take (length line - length rb) line)), c))
      else
        (case AsciiStrStr line ''='' of
           None \<Rightarrow> (section, c)
         | Some eq \<Rightarrow> (section, ini_set section (trim_ascii (take (length line - length eq) line)) (trim_ascii (tl eq)) c)))"

text \<open>The lines of the text; the copy of a line is allocated, and the reader stops when that fails.\<close>

function apply_ini_lines :: "(u64 \<Rightarrow> bool) \<Rightarrow> string \<Rightarrow> string \<times> BOOT_CONFIG \<Rightarrow> string \<times> BOOT_CONFIG" where
  "apply_ini_lines pool cur sc =
     (if cur = [] then sc
      else let line = before (CHR 0x0A) cur in
        if \<not> pool (of_nat (length line) + 1) then sc
        else apply_ini_lines pool (after (CHR 0x0A) cur) (apply_ini_line line sc))"
  by pat_completeness auto
termination
  by (relation "measure (\<lambda>(pool, cur, sc). length cur)") (auto simp: after_def)

declare apply_ini_lines.simps [simp del]

definition ApplyIniToConfig :: "(u64 \<Rightarrow> bool) \<Rightarrow> string \<Rightarrow> BOOT_CONFIG \<Rightarrow> BOOT_CONFIG" where
  "ApplyIniToConfig pool ini config = snd (apply_ini_lines pool ini ([], config))"

section \<open>JSON\<close>

text \<open>The text behind the first colon behind the first occurrence of the key.\<close>

definition json_find :: "string \<Rightarrow> string \<Rightarrow> string option" where
  "json_find js key =
     (case AsciiStrStr js ([CHR 0x22] @ key @ [CHR 0x22]) of
        None \<Rightarrow> None
      | Some p \<Rightarrow> map_option (\<lambda>q. dropWhile (\<lambda>c. c = CHR '' '' \<or> c = CHR 0x09 \<or> c = CHR 0x0A) (tl q)) (AsciiStrStr p '':''))"

definition FIND_STR :: "string \<Rightarrow> string \<Rightarrow> nat \<Rightarrow> string \<Rightarrow> string" where
  "FIND_STR js key n dst =
     (case json_find js key of
        None \<Rightarrow> dst
      | Some p \<Rightarrow>
          if p \<noteq> [] \<and> p ! 0 = CHR 0x22 then AsciiStrCpyS dst n (take 511 (before (CHR 0x22) (tl p))) else dst)"

text \<open>The number is accumulated in a signed 64-bit variable, whose overflow is undefined, and stored as an
  \<open>int\<close>.\<close>

fun find_int_loop :: "int \<Rightarrow> string \<Rightarrow> int cmem" where
  "find_int_loop val [] = Some val"
| "find_int_loop val (c # s) =
     (if digit c
      then let v = val * 10 + int (of_char c - 48) in if v < 2 ^ 63 then find_int_loop v s else None
      else Some val)"

definition FIND_INT :: "string \<Rightarrow> string \<Rightarrow> int \<Rightarrow> int cmem" where
  "FIND_INT js key dst =
     (case json_find js key of
        None \<Rightarrow> Some dst
      | Some p \<Rightarrow> map_option (\<lambda>val. sint (of_int val :: u32)) (find_int_loop 0 p))"

definition ApplyJsonToConfig :: "string \<Rightarrow> BOOT_CONFIG \<Rightarrow> BOOT_CONFIG cmem" where
  "ApplyJsonToConfig js c =
     (let c1 = c\<lparr>bc_default_entry := FIND_STR js ''default'' 64 (bc_default_entry c)\<rparr> in
      case FIND_INT js ''menu_timeout'' (bc_menu_timeout c1) of
        None \<Rightarrow> None
      | Some t \<Rightarrow>
          let c2 = c1\<lparr>bc_menu_timeout := t\<rparr>;
              c3 = c2\<lparr>bc_language := FIND_STR js ''language'' 8 (bc_language c2)\<rparr>;
              c4 = c3\<lparr>bc_kernel := FIND_STR js ''kernel'' 128 (bc_kernel c3)\<rparr>;
              c5 = c4\<lparr>bc_initrd := FIND_STR js ''initrd'' 128 (bc_initrd c4)\<rparr>
          in Some (c5\<lparr>bc_cmdline := FIND_STR js ''cmdline'' 256 (bc_cmdline c5)\<rparr>))"

section \<open>UEFI variables\<close>

type_synonym efi_variables = "string \<Rightarrow> u64 \<Rightarrow> efi_status \<times> u64 \<times> u8 list"

definition EFI_BUFFER_TOO_SMALL :: efi_status where
  "EFI_BUFFER_TOO_SMALL = push_bit 63 1 OR 5"

definition EFI_OUT_OF_RESOURCES :: efi_status where
  "EFI_OUT_OF_RESOURCES = push_bit 63 1 OR 9"

text \<open>A target is the field to update, with the size of its array for a string.\<close>

datatype var_target =
    T_STR "(string \<Rightarrow> string) \<Rightarrow> BOOT_CONFIG \<Rightarrow> BOOT_CONFIG" nat
  | T_INT "(int \<Rightarrow> int) \<Rightarrow> BOOT_CONFIG \<Rightarrow> BOOT_CONFIG"
  | T_BOOL "(bool \<Rightarrow> bool) \<Rightarrow> BOOT_CONFIG \<Rightarrow> BOOT_CONFIG"

definition env_vars :: "(string \<times> var_target) list" where
  "env_vars =
     [(''BLOODHORN_DEFAULT'', T_STR bc_default_entry_update 64),
      (''BLOODHORN_MENU_TIMEOUT'', T_INT bc_menu_timeout_update),
      (''BLOODHORN_LANGUAGE'', T_STR bc_language_update 8),
      (''BLOODHORN_LINUX_KERNEL'', T_STR bc_kernel_update 128),
      (''BLOODHORN_LINUX_INITRD'', T_STR bc_initrd_update 128),
      (''BLOODHORN_LINUX_CMDLINE'', T_STR bc_cmdline_update 256),
      (''BLOODHORN_SECURE_BOOT'', T_BOOL bc_secure_boot_update),
      (''BLOODHORN_TPM_ENABLED'', T_BOOL bc_tpm_enabled_update)]"

fun apply_var :: "var_target \<Rightarrow> u8 list \<Rightarrow> u64 \<Rightarrow> BOOT_CONFIG \<Rightarrow> BOOT_CONFIG cmem" where
  "apply_var (T_STR upd n) buf sz c =
     map_option (\<lambda>a. upd (\<lambda>dst. AsciiStrCpyS dst n a) c) (UnicodeStrToAsciiStrS buf [] 256)"
| "apply_var (T_INT upd) buf sz c =
     (if 4 \<le> sz then if length buf < 4 then None else Some (upd (\<lambda>v. sint (le32_at buf 0)) c) else Some c)"
| "apply_var (T_BOOL upd) buf sz c =
     (if 1 \<le> sz then if buf = [] then None else Some (upd (\<lambda>v. buf ! 0 \<noteq> 0) c) else Some c)"

definition override :: "(u64 \<Rightarrow> bool) \<Rightarrow> efi_variables \<Rightarrow> string \<times> var_target \<Rightarrow> BOOT_CONFIG \<Rightarrow> BOOT_CONFIG cmem" where
  "override pool gv v c =
     (let (st, sz, b0) = gv (fst v) 0 in
      if st \<noteq> EFI_BUFFER_TOO_SMALL then Some c
      else if \<not> pool sz then Some c
      else let (st, sz', bytes) = gv (fst v) sz in
        (case memcpy (replicate (unat sz) 0) 0 bytes 0 (length bytes) of
           None \<Rightarrow> None
         | Some buf \<Rightarrow> if EFI_ERROR st then Some c else apply_var (snd v) buf sz' c))"

fun overrides :: "(u64 \<Rightarrow> bool) \<Rightarrow> efi_variables \<Rightarrow> (string \<times> var_target) list \<Rightarrow> BOOT_CONFIG \<Rightarrow> BOOT_CONFIG cmem" where
  "overrides pool gv [] c = Some c"
| "overrides pool gv (v # vs) c = Option.bind (override pool gv v c) (overrides pool gv vs)"

definition ApplyUefiEnvOverrides :: "(u64 \<Rightarrow> bool) \<Rightarrow> efi_variables \<Rightarrow> BOOT_CONFIG \<Rightarrow> BOOT_CONFIG cmem" where
  "ApplyUefiEnvOverrides pool gv = overrides pool gv env_vars"

section \<open>Files\<close>

text \<open>What a file handle answers: opening it, the size of its information and the information itself (the size of
  the file), and reading.\<close>

record efi_file =
  fh_open :: efi_status
  fh_info_size :: "efi_status \<times> u64"
  fh_info :: "efi_status \<times> u64"
  fh_read :: "u64 \<Rightarrow> efi_status \<times> u64 \<times> u8 list"

text \<open>Opening a file, asking for its size and reading all of it into a zeroed buffer that is \<open>extra\<close> bytes
  longer: the status, the size read and the buffer. When the information is not refused for want of a buffer and
  not an error either, it is read through a null pointer.\<close>

definition read_whole :: "(u64 \<Rightarrow> bool) \<Rightarrow> efi_file \<Rightarrow> u64 \<Rightarrow> (efi_status \<times> u64 \<times> u8 list) cmem" where
  "read_whole pool f extra =
     (if EFI_ERROR (fh_open f) then Some (fh_open f, 0, [])
      else let (st, n) = fh_info_size f in
        if st \<noteq> EFI_BUFFER_TOO_SMALL then (if EFI_ERROR st then Some (st, 0, []) else None)
        else if \<not> pool n then Some (EFI_OUT_OF_RESOURCES, 0, [])
        else let (st, size) = fh_info f in
          if EFI_ERROR st then Some (st, 0, [])
          else if \<not> pool (size + extra) then Some (EFI_OUT_OF_RESOURCES, 0, [])
          else let (st, n, bytes) = fh_read f size in
            (case memcpy (replicate (unat (size + extra)) 0) 0 bytes 0 (length bytes) of
               None \<Rightarrow> None
             | Some buf \<Rightarrow> Some (if EFI_ERROR st then (st, 0, []) else (EFI_SUCCESS, n, buf))))"

definition LoadFileRaw :: "(u64 \<Rightarrow> bool) \<Rightarrow> efi_status \<Rightarrow> efi_file \<Rightarrow> (efi_status \<times> u64 \<times> u8 list) cmem" where
  "LoadFileRaw pool root f = (if EFI_ERROR root then Some (root, 0, []) else read_whole pool f 0)"

definition ReadWholeFileAscii :: "(u64 \<Rightarrow> bool) \<Rightarrow> efi_file \<Rightarrow> (efi_status \<times> u64 \<times> u8 list) cmem" where
  "ReadWholeFileAscii pool f =
     (case read_whole pool f 1 of
        None \<Rightarrow> None
      | Some (st, n, buf) \<Rightarrow>
          if EFI_ERROR st then Some (st, 0, [])
          else map_option (\<lambda>b. (st, n, b)) (poke buf (unat n) 0))"

text \<open>The string in a buffer that has an end.\<close>

definition text_of :: "u8 list \<Rightarrow> string" where
  "text_of b = map (\<lambda>x. char_of (unat x)) (takeWhile (\<lambda>x. x \<noteq> 0) b)"

section \<open>Loading\<close>

record boot_env =
  root_status :: efi_status
  root_file :: "string \<Rightarrow> efi_file"
  zero_pool :: "u64 \<Rightarrow> bool"
  rt_variables :: efi_variables

definition default_config :: BOOT_CONFIG where
  "default_config =
     \<lparr>bc_default_entry = ''linux'', bc_menu_timeout = 10, bc_kernel = [], bc_initrd = [], bc_cmdline = [],
      bc_tpm_enabled = True, bc_secure_boot = False, bc_use_gui = True, bc_font_path = ''DejaVuSans.ttf'',
      bc_font_size = 12, bc_header_font_size = 16, bc_language = ''en'', bc_enable_networking = False\<rparr>"

definition clamp_timeout :: "BOOT_CONFIG \<Rightarrow> BOOT_CONFIG" where
  "clamp_timeout c =
     (let c1 = (if bc_menu_timeout c < 0 then c\<lparr>bc_menu_timeout := 0\<rparr> else c)
      in if 300 < bc_menu_timeout c1 then c1\<lparr>bc_menu_timeout := 300\<rparr> else c1)"

definition config_file ::
  "boot_env \<Rightarrow> string \<Rightarrow> (string \<Rightarrow> BOOT_CONFIG \<Rightarrow> BOOT_CONFIG cmem) \<Rightarrow> BOOT_CONFIG \<Rightarrow> BOOT_CONFIG cmem" where
  "config_file env name apply_text c =
     (case ReadWholeFileAscii (zero_pool env) (root_file env name) of
        None \<Rightarrow> None
      | Some (st, blen, buf) \<Rightarrow> if \<not> EFI_ERROR st \<and> 0 < blen then apply_text (text_of buf) c else Some c)"

definition LoadBootConfig :: "boot_env \<Rightarrow> BOOT_CONFIG cmem" where
  "LoadBootConfig env =
     (if EFI_ERROR (root_status env) then Some default_config
      else do {
        c1 \<leftarrow> config_file env ''bloodhorn.ini'' (\<lambda>s c. Some (ApplyIniToConfig (zero_pool env) s c)) default_config;
        c2 \<leftarrow> config_file env ''bloodhorn.json'' ApplyJsonToConfig c1;
        c3 \<leftarrow> ApplyUefiEnvOverrides (zero_pool env) (rt_variables env) c2;
        Some (clamp_timeout c3)
      })"

section \<open>The configuration stays within its arrays\<close>

lemma EFI_error_codes [simp]: "EFI_ERROR EFI_BUFFER_TOO_SMALL" "EFI_ERROR EFI_OUT_OF_RESOURCES"
  by (simp_all add: EFI_ERROR_def EFI_BUFFER_TOO_SMALL_def EFI_OUT_OF_RESOURCES_def bit_or_iff bit_push_bit_iff)

definition config_ok :: "BOOT_CONFIG \<Rightarrow> bool" where
  "config_ok c \<longleftrightarrow> length (bc_default_entry c) < 64 \<and> length (bc_kernel c) < 128 \<and> length (bc_initrd c) < 128 \<and>
     length (bc_cmdline c) < 256 \<and> length (bc_language c) < 8 \<and> length (bc_font_path c) < 256 \<and>
     - (2 ^ 31) \<le> bc_menu_timeout c \<and> bc_menu_timeout c < 2 ^ 31"

lemma sint_u32_range: "- (2 ^ 31) \<le> sint (w :: u32) \<and> sint w < 2 ^ 31"
  using sint_ge [of w] sint_lt [of w] by simp

lemma config_ok_default: "config_ok default_config"
  by (simp add: config_ok_def default_config_def)

lemma ini_set_ok: "config_ok c \<Longrightarrow> config_ok (ini_set sec k v c)"
  using sint_u32_range [of "ucast (AsciiStrDecimalToUintn v)"]
  by (simp add: ini_set_def config_ok_def length_AsciiStrCpyS)

lemma apply_ini_line_ok: "config_ok (snd sc) \<Longrightarrow> config_ok (snd (apply_ini_line l sc))"
  by (cases sc) (simp add: apply_ini_line_def Let_def ini_set_ok split: option.split)

lemma apply_ini_lines_ok: "config_ok (snd sc) \<Longrightarrow> config_ok (snd (apply_ini_lines pool s sc))"
proof (induction pool s sc rule: apply_ini_lines.induct)
  case (1 pool s sc)
  then show ?case by (subst apply_ini_lines.simps) (simp add: Let_def apply_ini_line_ok)
qed

lemma ApplyIniToConfig_ok: "config_ok c \<Longrightarrow> config_ok (ApplyIniToConfig pool s c)"
  by (simp add: ApplyIniToConfig_def apply_ini_lines_ok)

lemma FIND_STR_ok: "length dst < n \<Longrightarrow> length (FIND_STR js key n dst) < n"
  by (simp add: FIND_STR_def length_AsciiStrCpyS split: option.split)

lemma ApplyJsonToConfig_ok: "config_ok c \<Longrightarrow> ApplyJsonToConfig js c = Some c' \<Longrightarrow> config_ok c'"
  using sint_u32_range
  by (auto simp: ApplyJsonToConfig_def config_ok_def FIND_STR_ok FIND_INT_def Let_def split: option.splits)

text \<open>What the manuals promise of the firmware: asked for its information without a buffer a file does not
  succeed; no more bytes are stored than there is room for; and the string variables end with a zero.\<close>

definition file_promises :: "efi_file \<Rightarrow> bool" where
  "file_promises f \<longleftrightarrow>
     (fst (fh_info_size f) = EFI_BUFFER_TOO_SMALL \<or> EFI_ERROR (fst (fh_info_size f))) \<and>
     unat (snd (fh_info f)) < 2 ^ 64 - 1 \<and>
     (\<forall>n st k bs. fh_read f n = (st, k, bs) \<longrightarrow> length bs \<le> unat n \<and> unat k \<le> unat n)"

fun terminated :: "u8 list \<Rightarrow> bool" where
  "terminated (lo # hi # b) \<longleftrightarrow> lo = 0 \<and> hi = 0 \<or> terminated b"
| "terminated b \<longleftrightarrow> False"

definition variable_promises :: "efi_variables \<Rightarrow> string \<times> var_target \<Rightarrow> bool" where
  "variable_promises gv v \<longleftrightarrow>
     (\<forall>n st k bs. gv (fst v) n = (st, k, bs) \<longrightarrow>
        length bs \<le> unat n \<and>
        (\<not> EFI_ERROR st \<longrightarrow> unat k \<le> unat n \<and> (case snd v of T_STR upd m \<Rightarrow> terminated bs | t \<Rightarrow> True)))"

definition firmware_promises :: "boot_env \<Rightarrow> bool" where
  "firmware_promises env \<longleftrightarrow>
     (\<forall>name. file_promises (root_file env name)) \<and> list_all (variable_promises (rt_variables env)) env_vars"

lemma terminated_append: "terminated b \<Longrightarrow> terminated (b @ r)"
  by (induction b rule: terminated.induct) auto

lemma wide_chars_terminated: "terminated b \<Longrightarrow> \<exists>s. wide_chars b n = Some s"
proof (induction b n rule: wide_chars.induct)
  case (2 lo hi b n)
  then show ?case by auto
qed auto

lemma memcpy_into_zeros: "length bs \<le> n \<Longrightarrow> memcpy (replicate n 0) 0 bs 0 (length bs) = Some (bs @ replicate (n - length bs) (0 :: u8))"
  by (simp add: memcpy_def)

definition stays_ok :: "var_target \<Rightarrow> bool" where
  "stays_ok t \<longleftrightarrow> (\<forall>c. config_ok c \<longrightarrow>
     (case t of
        T_STR upd n \<Rightarrow> \<forall>a. config_ok (upd (\<lambda>dst. AsciiStrCpyS dst n a) c)
      | T_INT upd \<Rightarrow> \<forall>w :: u32. config_ok (upd (\<lambda>v. sint w) c)
      | T_BOOL upd \<Rightarrow> \<forall>b. config_ok (upd (\<lambda>v. b) c)))"

lemma env_vars_stay_ok: "list_all (\<lambda>v. stays_ok (snd v)) env_vars"
  using sint_u32_range by (simp add: env_vars_def stays_ok_def config_ok_def length_AsciiStrCpyS)

lemma apply_var_ok:
  assumes "config_ok c" and "stays_ok t" and "unat sz \<le> length buf"
    and "case t of T_STR upd m \<Rightarrow> terminated buf | t \<Rightarrow> True"
  shows "\<exists>c'. apply_var t buf sz c = Some c' \<and> config_ok c'"
proof (cases t)
  case (T_STR upd n)
  then obtain s where "wide_chars buf 256 = Some s" using wide_chars_terminated [of buf 256] assms(4) by auto
  then show ?thesis using assms(1,2) T_STR by (simp add: UnicodeStrToAsciiStrS_def stays_ok_def)
next
  case (T_INT upd)
  then show ?thesis using assms(1,2,3) by (auto simp: stays_ok_def word_le_nat_alt)
next
  case (T_BOOL upd)
  then show ?thesis using assms(1,2,3) by (auto simp: stays_ok_def word_le_nat_alt)
qed

lemma override_ok:
  assumes c: "config_ok c" and v: "stays_ok (snd v)" "variable_promises gv v"
  shows "\<exists>c'. override pool gv v c = Some c' \<and> config_ok c'"
proof -
  obtain st sz b0 where g0: "gv (fst v) 0 = (st, sz, b0)" by (cases "gv (fst v) 0")
  obtain st' sz' bs where g1: "gv (fst v) sz = (st', sz', bs)" by (cases "gv (fst v) sz")
  let ?buf = "bs @ replicate (unat sz - length bs) 0"
  have p: "length bs \<le> unat sz" "\<not> EFI_ERROR st' \<Longrightarrow> unat sz' \<le> unat sz"
    "\<not> EFI_ERROR st' \<Longrightarrow> case snd v of T_STR upd m \<Rightarrow> terminated bs | t \<Rightarrow> True"
    using v(2) g1 by (simp_all add: variable_promises_def)
  have "\<exists>c'. apply_var (snd v) ?buf sz' c = Some c' \<and> config_ok c'" if "\<not> EFI_ERROR st'"
    by (rule apply_var_ok [OF c v(1)]) (use p that in \<open>auto simp: terminated_append split: var_target.splits\<close>)
  then show ?thesis using c by (auto simp: override_def g0 g1 memcpy_into_zeros [OF p(1)])
qed

lemma overrides_ok:
  assumes "config_ok c" and "list_all (\<lambda>v. stays_ok (snd v)) vs" and "list_all (variable_promises gv) vs"
  shows "\<exists>c'. overrides pool gv vs c = Some c' \<and> config_ok c'"
  using assms
proof (induction vs arbitrary: c)
  case (Cons v vs)
  then obtain c1 where c1: "override pool gv v c = Some c1" "config_ok c1" using override_ok [of c v gv pool] by auto
  then show ?case using Cons.IH [of c1] Cons.prems by simp
qed simp

lemma ReadWholeFileAscii_returns:
  assumes "file_promises f"
  shows "\<exists>r. ReadWholeFileAscii pool f = Some r"
proof -
  obtain si n where i: "fh_info_size f = (si, n)" by (cases "fh_info_size f")
  obtain sj size where j: "fh_info f = (sj, size)" by (cases "fh_info f")
  obtain st k bs where r: "fh_read f size = (st, k, bs)" by (cases "fh_read f size")
  have s: "unat size < 2 ^ 64 - 1" using assms j by (simp add: file_promises_def)
  then have u: "unat (size + 1) = unat size + 1" by (subst unat_add_small) simp_all
  have b: "length bs \<le> unat size" "unat k \<le> unat size" using assms r by (auto simp: file_promises_def)
  then have m: "memcpy (replicate (unat (size + 1)) 0) 0 bs 0 (length bs) =
      Some (bs @ replicate (unat (size + 1) - length bs) 0)"
    by (intro memcpy_into_zeros) (simp add: u)
  have "si = EFI_BUFFER_TOO_SMALL \<or> EFI_ERROR si" using assms i by (simp add: file_promises_def)
  moreover have "unat k < unat (size + 1)" using b u by simp
  ultimately show ?thesis using b(1)
    by (auto simp: ReadWholeFileAscii_def read_whole_def i j r m poke_def)
qed

lemma find_int_loop_small:
  "0 \<le> v \<Longrightarrow> v < 10 ^ k \<Longrightarrow> length (takeWhile digit s) + k \<le> 18 \<Longrightarrow> \<exists>w. find_int_loop v s = Some w"
proof (induction s arbitrary: v k)
  case (Cons c s)
  show ?case
  proof (cases "digit c")
    case True
    let ?d = "int (of_char c - 48)"
    have d: "0 \<le> ?d" "?d \<le> 9" using True by (auto simp: digit_def)
    then have b: "v * 10 + ?d < 10 ^ Suc k" "0 \<le> v * 10 + ?d" using Cons.prems(1,2) by auto
    have k: "length (takeWhile digit s) + Suc k \<le> 18" using Cons.prems(3) True by simp
    then have "(10 :: int) ^ Suc k \<le> 10 ^ 18" by (intro power_increasing) auto
    then have "v * 10 + ?d < 2 ^ 63" using b(1) by simp
    then show ?thesis using Cons.IH [OF b(2,1) k] True by (simp add: Let_def)
  qed simp
qed simp

text \<open>The text of the JSON file, when there is one.\<close>

definition json_config :: "boot_env \<Rightarrow> string" where
  "json_config env =
     (case ReadWholeFileAscii (zero_pool env) (root_file env ''bloodhorn.json'') of
        None \<Rightarrow> [] | Some (st, n, buf) \<Rightarrow> text_of buf)"

lemma config_file_ok:
  assumes "config_ok c" and "file_promises (root_file env name)"
    and "\<And>st n buf. ReadWholeFileAscii (zero_pool env) (root_file env name) = Some (st, n, buf) \<Longrightarrow>
           \<exists>c'. f (text_of buf) c = Some c' \<and> config_ok c'"
  shows "\<exists>c'. config_file env name f c = Some c' \<and> config_ok c'"
proof -
  obtain st n buf where r: "ReadWholeFileAscii (zero_pool env) (root_file env name) = Some (st, n, buf)"
    using ReadWholeFileAscii_returns [OF assms(2)] by (metis prod_cases3)
  then show ?thesis using assms(1) assms(3) [OF r] by (auto simp: config_file_def)
qed

lemma clamp_timeout_range: "config_ok c \<Longrightarrow> config_ok (clamp_timeout c) \<and> 0 \<le> bc_menu_timeout (clamp_timeout c) \<and> bc_menu_timeout (clamp_timeout c) \<le> 300"
  by (auto simp: clamp_timeout_def config_ok_def Let_def)

lemma LoadBootConfig_steps:
  assumes "firmware_promises env" and "\<not> EFI_ERROR (root_status env)"
    and "\<And>p. json_find (json_config env) ''menu_timeout'' = Some p \<Longrightarrow> length (takeWhile digit p) \<le> 18"
  obtains c2 c3 where "config_ok c2" "ApplyUefiEnvOverrides (zero_pool env) (rt_variables env) c2 = Some c3"
    "config_ok c3" "LoadBootConfig env = Some (clamp_timeout c3)"
proof -
  have f: "file_promises (root_file env name)" for name using assms(1) by (simp add: firmware_promises_def)
  obtain c1 where c1: "config_file env ''bloodhorn.ini'' (\<lambda>s c. Some (ApplyIniToConfig (zero_pool env) s c)) default_config = Some c1"
    "config_ok c1"
    using config_file_ok [where f = "\<lambda>s c. Some (ApplyIniToConfig (zero_pool env) s c)", OF config_ok_default f]
    by (auto simp: ApplyIniToConfig_ok config_ok_default)
  have "\<exists>c'. ApplyJsonToConfig (text_of buf) c1 = Some c' \<and> config_ok c'"
    if "ReadWholeFileAscii (zero_pool env) (root_file env ''bloodhorn.json'') = Some (st, n, buf)" for st n buf
  proof -
    have "json_config env = text_of buf" by (simp add: json_config_def that)
    then have "\<exists>t. FIND_INT (text_of buf) ''menu_timeout'' d = Some t" for d
      using assms(3) find_int_loop_small [of 0 0] by (force simp: FIND_INT_def split: option.split)
    then have "\<exists>c'. ApplyJsonToConfig (text_of buf) c1 = Some c'"
      by (force simp: ApplyJsonToConfig_def Let_def split: option.split)
    then show ?thesis using ApplyJsonToConfig_ok [OF c1(2)] by blast
  qed
  then obtain c2 where c2: "config_file env ''bloodhorn.json'' ApplyJsonToConfig c1 = Some c2" "config_ok c2"
    using config_file_ok [where f = ApplyJsonToConfig and name = "''bloodhorn.json''", OF c1(2) f] by blast
  obtain c3 where c3: "ApplyUefiEnvOverrides (zero_pool env) (rt_variables env) c2 = Some c3" "config_ok c3"
    using overrides_ok [OF c2(2) env_vars_stay_ok, of "rt_variables env" "zero_pool env"] assms(1)
    by (auto simp: ApplyUefiEnvOverrides_def firmware_promises_def)
  have "LoadBootConfig env = Some (clamp_timeout c3)"
    using assms(2) c1(1) c2(1) c3(1) by (simp add: LoadBootConfig_def)
  then show thesis using that c2(2) c3 by blast
qed


definition EFI_NOT_FOUND :: efi_status where
  "EFI_NOT_FOUND = push_bit 63 1 OR 14"

text \<open>A string as the bytes of a variable.\<close>

definition wide :: "string \<Rightarrow> u8 list" where
  "wide s = concat (map (\<lambda>c. [of_nat (of_char c), 0]) s) @ [0, 0]"

text \<open>A machine without files, on which one variable names a kernel.\<close>

definition sample_env :: boot_env where
  "sample_env =
     \<lparr>root_status = 0,
      root_file = (\<lambda>name. \<lparr>fh_open = EFI_NOT_FOUND, fh_info_size = (EFI_NOT_FOUND, 0), fh_info = (EFI_NOT_FOUND, 0),
                      fh_read = (\<lambda>n. (EFI_NOT_FOUND, 0, []))\<rparr>),
      zero_pool = (\<lambda>n. True),
      rt_variables = (\<lambda>name n. if name = ''BLOODHORN_LINUX_KERNEL''
        then if n < 6 then (EFI_BUFFER_TOO_SMALL, 6, []) else (0, 6, wide ''/k'') else (EFI_NOT_FOUND, 0, []))\<rparr>"

lemma EFI_NOT_FOUND_error [simp]: "EFI_ERROR EFI_NOT_FOUND" "\<not> EFI_ERROR 0" "EFI_NOT_FOUND \<noteq> EFI_BUFFER_TOO_SMALL"
  by (simp_all add: EFI_ERROR_def EFI_NOT_FOUND_def EFI_BUFFER_TOO_SMALL_def bit_or_iff bit_push_bit_iff)

lemma sample_env_promises: "firmware_promises sample_env"
  by (auto simp: firmware_promises_def sample_env_def file_promises_def variable_promises_def env_vars_def wide_def word_less_nat_alt
      split: if_splits)

lemma sample_env_json: "json_config sample_env = []"
  by (simp add: json_config_def sample_env_def ReadWholeFileAscii_def read_whole_def text_of_def)


section \<open>Variables override the files\<close>

lemma wide_chars_wide:
  "length s < n \<Longrightarrow> CHR 0x00 \<notin> set s \<Longrightarrow> wide_chars (wide s @ r) n = Some s"
proof (induction s arbitrary: n)
  case Nil
  then show ?case by (cases n) (simp_all add: wide_def)
next
  case (Cons c s)
  obtain m where n: "n = Suc m" using Cons.prems(1) by (cases n) auto
  have u: "unat (of_nat (of_char c) :: u8) = of_char c" by (rule unat_of_nat_small) simp
  have "(of_nat (of_char c) :: u8) \<noteq> 0"
  proof
    assume "(of_nat (of_char c) :: u8) = 0"
    then have "of_char c = (0 :: nat)" using u by simp
    then have "c = CHR 0x00" by (intro of_char_eqI [where ?'a = nat]) simp
    then show False using Cons.prems(2) by simp
  qed
  moreover have "wide (c # s) @ r = of_nat (of_char c) # 0 # (wide s @ r)" by (simp add: wide_def)
  ultimately show ?case using Cons n u by simp
qed

lemma overrides_append: "overrides pool gv (vs @ ws) c = Option.bind (overrides pool gv vs c) (overrides pool gv ws)"
proof (induction vs arbitrary: c)
  case (Cons v vs)
  then show ?case by (cases "override pool gv v c") simp_all
qed simp

definition spares_kernel :: "var_target \<Rightarrow> bool" where
  "spares_kernel t \<longleftrightarrow> (case t of
     T_STR upd n \<Rightarrow> \<forall>g c. bc_kernel (upd g c) = bc_kernel c
   | T_INT upd \<Rightarrow> \<forall>g c. bc_kernel (upd g c) = bc_kernel c
   | T_BOOL upd \<Rightarrow> \<forall>g c. bc_kernel (upd g c) = bc_kernel c)"

lemma override_spares:
  assumes "spares_kernel (snd v)" and "override pool gv v c = Some c'"
  shows "bc_kernel c' = bc_kernel c"
proof -
  have "bc_kernel d = bc_kernel c" if "apply_var (snd v) buf sz c = Some d" for buf sz d
    using assms(1) that by (cases "snd v") (auto simp: spares_kernel_def split: if_splits)
  then show ?thesis using assms(2) by (auto simp: override_def split: prod.splits if_splits option.splits)
qed

lemma overrides_spare:
  "list_all (\<lambda>v. spares_kernel (snd v)) vs \<Longrightarrow> overrides pool gv vs c = Some c' \<Longrightarrow> bc_kernel c' = bc_kernel c"
proof (induction vs arbitrary: c)
  case (Cons v vs)
  then obtain c1 where "override pool gv v c = Some c1" "overrides pool gv vs c1 = Some c'"
    by (auto simp: bind_eq_Some_conv)
  then show ?case using Cons.IH [of c1] Cons.prems(1) override_spares [of v pool gv c c1] by simp
qed simp

lemma override_kernel:
  assumes "gv ''BLOODHORN_LINUX_KERNEL'' 0 = (EFI_BUFFER_TOO_SMALL, sz, b0)" and "pool sz"
    and "gv ''BLOODHORN_LINUX_KERNEL'' sz = (EFI_SUCCESS, sz, wide s)" and "unat sz = length (wide s)"
    and "length s < 128" and "CHR 0x00 \<notin> set s"
  shows "override pool gv (''BLOODHORN_LINUX_KERNEL'', T_STR bc_kernel_update 128) c = Some (c\<lparr>bc_kernel := s\<rparr>)"
proof -
  have "wide_chars (wide s) 256 = Some s" using wide_chars_wide [of s 256 "[]"] assms(5,6) by simp
  then show ?thesis using assms
    by (simp add: override_def memcpy_whole UnicodeStrToAsciiStrS_def AsciiStrCpyS_eq)
qed

lemma overrides_kernel:
  assumes "override pool gv (''BLOODHORN_LINUX_KERNEL'', T_STR bc_kernel_update 128) = (\<lambda>c. Some (c\<lparr>bc_kernel := s\<rparr>))"
    and "overrides pool gv env_vars c = Some c'"
  shows "bc_kernel c' = s"
proof -
  let ?k = "(''BLOODHORN_LINUX_KERNEL'', T_STR bc_kernel_update 128)"
  have split: "env_vars = take 3 env_vars @ ?k # drop 4 env_vars" by (simp add: env_vars_def numeral_3_eq_3)
  obtain c1 where "overrides pool gv (drop 4 env_vars) (c1\<lparr>bc_kernel := s\<rparr>) = Some c'"
    using assms(2) by (subst (asm) split, subst (asm) overrides_append) (auto simp: bind_eq_Some_conv assms(1))
  moreover have "list_all (\<lambda>v. spares_kernel (snd v)) (drop 4 env_vars)" by (simp add: env_vars_def spares_kernel_def)
  ultimately show ?thesis using overrides_spare by fastforce
qed

text \<open>A UEFI variable takes precedence over the files: when the firmware has the variable
  \<^verbatim>\<open>BLOODHORN_LINUX_KERNEL\<close> with a string of less than 128 characters, the configuration names that kernel, whatever
  the files and the other variables say.\<close>

lemma kernel_variable_overrides:
  assumes "firmware_promises env" and "\<not> EFI_ERROR (root_status env)"
    and "\<forall>p. json_find (json_config env) ''menu_timeout'' = Some p \<longrightarrow> length (takeWhile digit p) \<le> 18"
    and "rt_variables env ''BLOODHORN_LINUX_KERNEL'' 0 = (EFI_BUFFER_TOO_SMALL, sz, b0)" and "zero_pool env sz"
    and "rt_variables env ''BLOODHORN_LINUX_KERNEL'' sz = (EFI_SUCCESS, sz, wide s)" and "unat sz = length (wide s)"
    and "length s < 128" and "CHR 0x00 \<notin> set s"
  shows "\<exists>c. LoadBootConfig env = Some c \<and> bc_kernel c = s"
proof -
  obtain c2 c3 where c: "ApplyUefiEnvOverrides (zero_pool env) (rt_variables env) c2 = Some c3"
      "LoadBootConfig env = Some (clamp_timeout c3)"
    using LoadBootConfig_steps [OF assms(1,2)] assms(3) by metis
  have "bc_kernel c3 = s"
    using overrides_kernel [of "zero_pool env" "rt_variables env" s c2 c3] c(1) override_kernel [where pool = "zero_pool env" and gv = "rt_variables env", OF assms(4-9)]
    by (auto simp: ApplyUefiEnvOverrides_def fun_eq_iff)
  moreover have "bc_kernel (clamp_timeout c3) = bc_kernel c3" by (simp add: clamp_timeout_def Let_def)
  ultimately show ?thesis using c(2) by simp
qed

section \<open>The two readers of INI files\<close>

definition tidy :: "string \<Rightarrow> bool" where
  "tidy s \<longleftrightarrow> s = [] \<or> \<not> space (hd s) \<and> \<not> space (last s)"

definition tidy_ini :: "ini \<Rightarrow> bool" where
  "tidy_ini cfg \<longleftrightarrow> (\<forall>(sec, kvs) \<in> set cfg. \<forall>(k, v) \<in> set kvs. tidy k \<and> tidy v)"

definition set_entry :: "boot_menu_entry \<Rightarrow> BOOT_CONFIG \<Rightarrow> BOOT_CONFIG" where
  "set_entry e = ini_set (be_section e) (be_name e) (be_path e)"

lemma trim_tidy: "tidy s \<Longrightarrow> trim_ascii s = s"
proof (cases s rule: rev_cases)
  case (snoc t x)
  assume "tidy s"
  then have "dropWhile space s = s" "\<not> space x" by (cases s; auto simp: tidy_def snoc)+
  then show ?thesis by (simp add: trim_ascii_def snoc)
qed (simp add: trim_ascii_def)

lemma take_before_dropWhile: "take (length s - length (dropWhile (\<lambda>x. x \<noteq> c) s)) s = before c s"
proof -
  have "length s - length (dropWhile (\<lambda>x. x \<noteq> c) s) = length (takeWhile (\<lambda>x. x \<noteq> c) s)"
    by (metis add_diff_cancel_right' length_append takeWhile_dropWhile_id)
  then show ?thesis by (simp add: before_def takeWhile_eq_take [symmetric])
qed

lemma apply_ini_line_section:
  assumes "good_section sec"
  shows "apply_ini_line (''['' @ sec @ '']'') (s, c) = (sec, c)"
proof -
  let ?l = "''['' @ sec @ '']''"
  have t: "trim_ascii ?l = ?l" by (rule trim_tidy) (simp add: tidy_def space_def)
  have "before (CHR '']'') ?l = CHR ''['' # sec" using before_append [of "CHR '']''" "CHR ''['' # sec" "[]"] assms
    by (simp add: good_section_def)
  then show ?thesis using assms take_before_dropWhile [of ?l "CHR '']''"]
    by (simp add: apply_ini_line_def t [simplified] AsciiStrStr_char AsciiStrCpyS_eq good_section_def Let_def)
qed

lemma apply_ini_line_entry:
  assumes "good_key k" and "tidy k" and "tidy v"
  shows "apply_ini_line (k @ ''='' @ v) (s, c) = (s, ini_set s k v c)"
proof -
  let ?l = "k @ ''='' @ v"
  obtain x k' where k: "k = x # k'" using assms(1) by (cases k) (auto simp: good_key_def)
  have t: "trim_ascii ?l = ?l" by (rule trim_tidy) (use assms(2,3) in \<open>auto simp: tidy_def k space_def\<close>)
  have "CHR ''='' \<notin> set k" using assms(1) by (simp add: good_key_def)
  then have "before (CHR ''='') ?l = k" "dropWhile (\<lambda>x. x \<noteq> CHR ''='') ?l = CHR ''='' # v"
    by (simp, subst dropWhile_append2) auto
  then show ?thesis using assms take_before_dropWhile [of ?l "CHR ''=''"]
    by (simp add: apply_ini_line_def t [simplified] AsciiStrStr_char trim_tidy good_key_def Let_def nth_append)
qed

lemma apply_ini_lines_step:
  assumes "nl \<notin> set l" and "\<forall>n. pool n"
  shows "apply_ini_lines pool (l @ nl # r) sc = apply_ini_lines pool r (apply_ini_line l sc)"
  by (subst apply_ini_lines.simps)
    (use assms before_append [of nl l r] after_append [of nl l r] in \<open>simp add: nl_def Let_def\<close>)

lemma apply_ini_lines_entries:
  assumes "\<forall>(k, v) \<in> set kvs. good_key k \<and> good_value v \<and> tidy k \<and> tidy v" and "\<forall>n. pool n"
  shows "apply_ini_lines pool (concat (map (\<lambda>l. l @ [nl]) (map (\<lambda>(k, v). k @ ''='' @ v) kvs)) @ r) (sec, c) =
    apply_ini_lines pool r (sec, fold set_entry (map (\<lambda>(k, v). \<lparr>be_section = sec, be_name = k, be_path = v\<rparr>) kvs) c)"
  using assms(1)
proof (induction kvs arbitrary: c)
  case (Cons kv kvs)
  obtain k v where kv: "kv = (k, v)" by (cases kv)
  have g: "good_key k" "good_value v" "tidy k" "tidy v" using Cons.prems kv by auto
  then have "nl \<notin> set (k @ ''='' @ v)" by (auto simp: good_key_def good_value_def plain_def nl_def)
  then show ?case
    using apply_ini_lines_step [OF _ assms(2), of "k @ ''='' @ v"] apply_ini_line_entry [OF g(1,3,4)] Cons.IH Cons.prems
    by (simp add: kv set_entry_def)
qed simp

lemma apply_ini_lines_print:
  assumes "good_ini cfg" and "tidy_ini cfg" and "\<forall>n. pool n"
  shows "snd (apply_ini_lines pool (print_ini cfg) (sec, c)) = fold set_entry (ini_entries cfg) c"
  using assms(1,2)
proof (induction cfg arbitrary: sec c)
  case Nil
  then show ?case by (simp add: print_ini_def ini_entries_def apply_ini_lines.simps)
next
  case (Cons x cfg)
  obtain s kvs where x: "x = (s, kvs)" by (cases x)
  have g: "good_section s" "\<forall>(k, v) \<in> set kvs. good_key k \<and> good_value v \<and> tidy k \<and> tidy v" "good_ini cfg" "tidy_ini cfg"
    using Cons.prems by (auto simp: good_ini_def tidy_ini_def x)
  let ?l = "''['' @ s @ '']''"
  have l: "nl \<notin> set ?l" using g(1) by (auto simp: good_section_def plain_def nl_def)
  have p: "print_ini (x # cfg) =
      ?l @ nl # (concat (map (\<lambda>l. l @ [nl]) (map (\<lambda>(k, v). k @ ''='' @ v) kvs)) @ print_ini cfg)"
    by (simp add: print_ini_def x)
  show ?case
    using Cons.IH [OF g(3,4)] unfolding p apply_ini_lines_step [OF l assms(3)] apply_ini_line_section [OF g(1)]
      apply_ini_lines_entries [OF g(2) assms(3)]
    by (simp add: ini_entries_def x)
qed



end
