(* ===== verification/Coreboot.thy ===== *)
theory Coreboot
  imports Boot_Mem Main_Config
begin

text \<open>
  The Coreboot side of the boot manager: the platform module \<^verbatim>\<open>coreboot/coreboot_platform.c\<close>, which finds and
  reads the table that the firmware leaves in low memory, and the header of the payload and its validation in
  \<^verbatim>\<open>coreboot/coreboot_payload.c\<close>. Memory is a function from addresses to bytes; a pointer is an address, zero being
  NULL. A memory map entry takes 24 bytes.
\<close>

section \<open>The firmware table\<close>

record coreboot_state =
  cb_header :: u64
  cb_framebuffer :: u64
  cb_memory_map :: u64
  cb_memory_map_entries :: u32
  cb_version :: u64
  cb_extra_version :: u64
  cb_build :: u64
  cb_compile_time :: u64
  cb_compiler :: u64
  cb_assembler :: u64
  cb_board_id :: u16

fun byte_sum :: "mem \<Rightarrow> u64 \<Rightarrow> nat \<Rightarrow> u32" where
  "byte_sum m a 0 = 0"
| "byte_sum m a (Suc n) = byte_sum m a n + ucast (m (a + of_nat n))"

text \<open>The value a checksum field must have for a sum of bytes.\<close>

definition checksum_of :: "u32 \<Rightarrow> u32" where
  "checksum_of s = (0x100 - (s AND 0xFF)) AND 0xFF"

definition table_valid :: "mem \<Rightarrow> u64 \<Rightarrow> bool" where
  "table_valid m h \<longleftrightarrow>
     rd32 m h = 0x43425442 \<and>
     checksum_of (byte_sum m h (unat (rd32 m (h + 4)))) = rd32 m (h + 8) \<and>
     checksum_of (byte_sum m (h + ucast (rd32 m (h + 4))) (unat (rd32 m (h + 12)))) = rd32 m (h + 16)"

text \<open>The loop over the candidate addresses keeps the last one it looked at.\<close>

fun find_table :: "mem \<Rightarrow> u64 list \<Rightarrow> u64 \<Rightarrow> u64" where
  "find_table m [] h = h"
| "find_table m (a # as) h = (if table_valid m a then a else find_table m as a)"

definition table_candidates :: "u64 list" where
  "table_candidates = map (\<lambda>i. 0x500 + 16 * of_nat i) [0..<176]"

definition set_tag :: "mem \<Rightarrow> u64 \<Rightarrow> coreboot_state \<Rightarrow> coreboot_state" where
  "set_tag m e st =
     (let tag = rd32 m e in
      if tag = 1 then st\<lparr>cb_memory_map := e + 8, cb_memory_map_entries := rd32 m (e + 4) div 24\<rparr>
      else if tag = 0x12 then st\<lparr>cb_framebuffer := e + 8\<rparr>
      else if tag = 4 then st\<lparr>cb_version := e + 8\<rparr>
      else if tag = 5 then st\<lparr>cb_extra_version := e + 8\<rparr>
      else if tag = 6 then st\<lparr>cb_build := e + 8\<rparr>
      else if tag = 7 then st\<lparr>cb_compile_time := e + 8\<rparr>
      else if tag = 8 then st\<lparr>cb_compiler := e + 8\<rparr>
      else if tag = 0x0A then st\<lparr>cb_assembler := e + 8\<rparr>
      else if tag = 0x40 then st\<lparr>cb_board_id := ucast (m (e + 8)) OR push_bit 8 (ucast (m (e + 9)))\<rparr>
      else st)"

fun parse_entries :: "nat \<Rightarrow> mem \<Rightarrow> u64 \<Rightarrow> coreboot_state \<Rightarrow> coreboot_state" where
  "parse_entries 0 m e st = st"
| "parse_entries (Suc n) m e st =
     (if rd32 m e = 0 then st else parse_entries n m (e + ucast (rd32 m (e + 4))) (set_tag m e st))"

definition CorebootParseTable :: "mem \<Rightarrow> coreboot_state \<Rightarrow> bool \<times> coreboot_state" where
  "CorebootParseTable m st =
     (if cb_header st = 0 then (False, st) else (True, parse_entries 128 m (cb_header st + 20) st))"

definition CorebootPlatformInit :: "mem \<Rightarrow> coreboot_state \<Rightarrow> bool \<times> coreboot_state" where
  "CorebootPlatformInit m st =
     (let st1 = st\<lparr>cb_header := find_table m table_candidates (cb_header st)\<rparr> in
      if cb_header st1 = 0 then (False, st1) else CorebootParseTable m st1)"

definition CorebootIsPresent :: "mem \<Rightarrow> coreboot_state \<Rightarrow> bool" where
  "CorebootIsPresent m st \<longleftrightarrow> cb_header st \<noteq> 0 \<and> rd32 m (cb_header st) = 0x43425442"

section \<open>The memory map\<close>

text \<open>Address, size and type of the entries.\<close>

type_synonym mem_entry = "u64 \<times> u64 \<times> u32"

definition mem_entry_at :: "mem \<Rightarrow> u64 \<Rightarrow> nat \<Rightarrow> mem_entry" where
  "mem_entry_at m a i =
     (let e = a + 24 * of_nat i in (rd64 m e, rd64 m (e + 8), rd32 m (e + 16)))"

definition CorebootGetMemoryMap :: "mem \<Rightarrow> coreboot_state \<Rightarrow> mem_entry list ptr" where
  "CorebootGetMemoryMap m st =
     (if cb_memory_map st = 0 then None
      else Some (map (mem_entry_at m (cb_memory_map st)) [0..<unat (cb_memory_map_entries st)]))"

fun ram_total :: "mem_entry list \<Rightarrow> u64 \<Rightarrow> u64" where
  "ram_total [] n = n"
| "ram_total ((a, sz, ty) # es) n = ram_total es (if ty = 1 then n + sz else n)"

definition CorebootGetTotalMemory :: "mem \<Rightarrow> coreboot_state \<Rightarrow> u64" where
  "CorebootGetTotalMemory m st = (case CorebootGetMemoryMap m st of None \<Rightarrow> 0 | Some es \<Rightarrow> ram_total es 0)"

fun largest_ram :: "mem_entry list \<Rightarrow> u64 \<times> u64 \<Rightarrow> u64 \<times> u64" where
  "largest_ram [] best = best"
| "largest_ram ((a, sz, ty) # es) best =
     largest_ram es (if ty = 1 \<and> snd best < sz then (a, sz) else best)"

definition CorebootFindLargestMemoryRegion :: "mem \<Rightarrow> coreboot_state \<Rightarrow> (u64 \<times> u64) option" where
  "CorebootFindLargestMemoryRegion m st =
     (case CorebootGetMemoryMap m st of
        None \<Rightarrow> None
      | Some es \<Rightarrow> let best = largest_ram es (0, 0) in if snd best = 0 then None else Some best)"

section \<open>The framebuffer\<close>

record coreboot_fb =
  fb_physical_address :: u64
  fb_x_resolution :: u32
  fb_y_resolution :: u32
  fb_bytes_per_line :: u32
  fb_bits_per_pixel :: u8

definition CorebootGetFramebuffer :: "mem \<Rightarrow> coreboot_state \<Rightarrow> coreboot_fb ptr" where
  "CorebootGetFramebuffer m st =
     (let a = cb_framebuffer st in
      if a = 0 then None
      else Some \<lparr>fb_physical_address = rd64 m a, fb_x_resolution = rd32 m (a + 8), fb_y_resolution = rd32 m (a + 12),
                 fb_bytes_per_line = rd32 m (a + 16), fb_bits_per_pixel = m (a + 20)\<rparr>)"

definition CorebootInitGraphics :: "coreboot_state \<Rightarrow> bool" where
  "CorebootInitGraphics st \<longleftrightarrow> cb_framebuffer st \<noteq> 0"

definition CorebootGetFramebufferAddress :: "mem \<Rightarrow> coreboot_state \<Rightarrow> u64" where
  "CorebootGetFramebufferAddress m st = (if cb_framebuffer st \<noteq> 0 then rd64 m (cb_framebuffer st) else 0)"

definition CorebootGetFramebufferInfo :: "mem \<Rightarrow> coreboot_state \<Rightarrow> (u32 \<times> u32 \<times> u32) option" where
  "CorebootGetFramebufferInfo m st =
     map_option (\<lambda>fb. (fb_x_resolution fb, fb_y_resolution fb, ucast (fb_bits_per_pixel fb))) (CorebootGetFramebuffer m st)"

section \<open>The payload header\<close>

text \<open>The packed header of 56 bytes: signature, header version, payload version and size in blocks, size of the
  command line, checksum at offset 20, entry point, load address, compressed and uncompressed size, and 16
  reserved bytes.\<close>

definition le16_bytes :: "u16 \<Rightarrow> u8 list" where
  "le16_bytes w = [byte_at 0 w, byte_at 8 w]"

definition payload_signature :: "u8 list" where
  "payload_signature = [0x24, 0x43, 0x4F, 0x52, 0x45, 0x42, 0x4F, 0x4F]"

definition payload_fields :: "u64 \<Rightarrow> u64 \<Rightarrow> u32 \<Rightarrow> u8 list" where
  "payload_fields cmdline_size input_size chk =
     payload_signature @ le32_bytes 2 @ le16_bytes 1 @ le16_bytes (ucast ((input_size + 511) div 512)) @
     le32_bytes (ucast cmdline_size) @ le32_bytes chk @ le32_bytes (ucast (56 + cmdline_size)) @ le32_bytes 0x100000 @
     le32_bytes 0 @ le32_bytes (ucast input_size) @ replicate 16 0"

fun list_sum :: "u8 list \<Rightarrow> u32" where
  "list_sum [] = 0"
| "list_sum (b # bs) = ucast b + list_sum bs"

text \<open>The checksum is taken over the zeroed buffer before it is stored.\<close>

definition payload_header :: "u64 \<Rightarrow> u64 \<Rightarrow> u8 list" where
  "payload_header cmdline_size input_size =
     payload_fields cmdline_size input_size (list_sum (take 52 (payload_fields cmdline_size input_size 0)))"

definition payload_image :: "u8 list ptr \<Rightarrow> u8 list \<Rightarrow> u64 \<Rightarrow> u8 list" where
  "payload_image cmdline input input_size =
     (let text = (case cmdline of None \<Rightarrow> [0] | Some c \<Rightarrow> c @ [0]) in
      payload_header (of_nat (length text)) input_size @ text @ take (unat input_size) input)"

text \<open>The paths are copied to arrays of 256 characters, and terminated at their full length.\<close>

definition path_fits :: "u8 list \<Rightarrow> bool" where
  "path_fits p \<longleftrightarrow> length p < 256"

text \<open>Building the payload file: nothing when an operation fails, else the bytes written.\<close>

definition CreateBloodhornPayload ::
  "(u64 \<Rightarrow> bool) \<Rightarrow> efi_status \<Rightarrow> efi_file \<Rightarrow> efi_status \<Rightarrow> u8 list \<Rightarrow> u8 list \<Rightarrow> u8 list ptr \<Rightarrow> u8 list option cmem" where
  "CreateBloodhornPayload pool root f create_status output_file input_binary cmdline =
     (if \<not> (path_fits output_file \<and> path_fits input_binary) then None
      else if EFI_ERROR root then Some None
      else case read_whole pool f 0 of
             None \<Rightarrow> None
           | Some (st, input_size, input) \<Rightarrow>
               if EFI_ERROR st then Some None
               else let n = (case cmdline of None \<Rightarrow> 1 | Some c \<Rightarrow> of_nat (length c) + 1) in
                 if \<not> pool (56 + n + input_size) then Some None
                 else if EFI_ERROR create_status then Some None
                 else Some (Some (payload_image cmdline input input_size)))"

definition ValidatePayloadHeader :: "u8 list \<Rightarrow> bool cmem" where
  "ValidatePayloadHeader h =
     (if length h < 56 then None
      else Some (if le32_at h 8 \<noteq> 2 then False
                 else if take 8 h \<noteq> payload_signature then False
                 else list_sum (take 52 h) = le32_at h 20))"

section \<open>Finding the table\<close>

lemma find_table_in: "as \<noteq> [] \<Longrightarrow> find_table m as h \<in> set as"
proof (induction as arbitrary: h)
  case (Cons a as)
  then show ?case by (cases "as = []") auto
qed simp

lemma candidates_nonzero: "a \<in> set table_candidates \<Longrightarrow> a \<noteq> 0"
proof -
  assume "a \<in> set table_candidates"
  then obtain i where i: "i < 176" "a = 0x500 + 16 * of_nat i" by (auto simp: table_candidates_def)
  have "a = of_nat (0x500 + 16 * i)" by (simp add: i(2))
  then have "unat a = 0x500 + 16 * i" using i(1) by (simp only:) (rule unat_of_nat_small, simp)
  then show ?thesis by auto
qed

lemma find_table_nonzero: "find_table m table_candidates h \<noteq> 0"
proof -
  have "table_candidates \<noteq> []" by (simp add: table_candidates_def)
  then show ?thesis using find_table_in candidates_nonzero by blast
qed

lemma find_table_first:
  assumes "table_valid m h" and "\<forall>a \<in> set as. \<not> table_valid m a"
  shows "find_table m (as @ h # bs) h0 = h"
  using assms by (induction as arbitrary: h0) auto

text \<open>The records of a table that starts at an address, up to the record with tag zero.\<close>

fun entries_at :: "mem \<Rightarrow> u64 \<Rightarrow> u64 list \<Rightarrow> bool" where
  "entries_at m e [] \<longleftrightarrow> rd32 m e = 0"
| "entries_at m e (x # xs) \<longleftrightarrow> x = e \<and> rd32 m e \<noteq> 0 \<and> entries_at m (e + ucast (rd32 m (e + 4))) xs"

lemma parse_entries_fold:
  "entries_at m e es \<Longrightarrow> length es \<le> n \<Longrightarrow> parse_entries n m e st = fold (set_tag m) es st"
proof (induction es arbitrary: n e st)
  case Nil
  then show ?case by (cases n) simp_all
next
  case (Cons x es)
  then show ?case by (cases n) auto
qed


text \<open>The initialisation never reports that there is no Coreboot: whatever is in memory, it returns success,
  since the header is left at the last address looked at when no table has been found.\<close>

lemma coreboot_always_detected: "fst (CorebootPlatformInit m st)"
  using find_table_nonzero [of m "cb_header st"] by (simp add: CorebootPlatformInit_def CorebootParseTable_def)

section \<open>The memory map\<close>

lemma largest_ram_spec:
  "snd best \<le> snd (largest_ram es best) \<and>
   (\<forall>(a, sz, ty) \<in> set es. ty = 1 \<longrightarrow> sz \<le> snd (largest_ram es best)) \<and>
   (largest_ram es best = best \<or> (fst (largest_ram es best), snd (largest_ram es best), 1) \<in> set es)"
proof (induction es arbitrary: best)
  case (Cons e es)
  obtain a sz ty where e: "e = (a, sz, ty)" by (cases e)
  define b where "b = (if ty = 1 \<and> snd best < sz then (a, sz) else best)"
  define r where "r = largest_ram es b"
  have r: "largest_ram (e # es) best = r" by (simp add: e b_def r_def)
  have b: "snd best \<le> snd b" "ty = 1 \<longrightarrow> sz \<le> snd b" "b = best \<or> (fst b, snd b, 1) = e" by (auto simp: e b_def)
  have IH: "snd b \<le> snd r" "\<forall>(a, sz, ty) \<in> set es. ty = 1 \<longrightarrow> sz \<le> snd r" "r = b \<or> (fst r, snd r, 1) \<in> set es"
    using Cons [of b] unfolding r_def by simp_all
  have "snd best \<le> snd r" using b(1) IH(1) by (rule order_trans)
  moreover have "ty = 1 \<longrightarrow> sz \<le> snd r" using b(2) IH(1) order_trans by blast
  moreover have "r = best \<or> (fst r, snd r, 1) \<in> set (e # es)"
    using IH(3)
  proof
    assume rb: "r = b"
    show ?thesis using b(3) unfolding rb by auto
  qed simp
  ultimately show ?case unfolding r using IH(2) by (simp add: e)
qed simp

text \<open>The search for the largest region of memory returns a region of the map that is usable and that no other
  usable region exceeds, and fails exactly when there is no map or no usable region with any byte in it.\<close>

lemma coreboot_largest_region:
  "case CorebootFindLargestMemoryRegion m st of
     Some (a, n) \<Rightarrow> \<exists>es. CorebootGetMemoryMap m st = Some es \<and> (a, n, 1) \<in> set es \<and> 0 < n \<and>
       (\<forall>(b, k, ty) \<in> set es. ty = 1 \<longrightarrow> k \<le> n)
   | None \<Rightarrow> \<forall>es. CorebootGetMemoryMap m st = Some es \<longrightarrow> (\<forall>(b, k, ty) \<in> set es. ty = 1 \<longrightarrow> k = 0)"
proof (cases "CorebootGetMemoryMap m st")
  case None
  then show ?thesis by (simp add: CorebootFindLargestMemoryRegion_def)
next
  case (Some es)
  obtain a n where best: "largest_ram es (0, 0) = (a, n)" by fastforce
  note spec = largest_ram_spec [of "(0, 0)" es, unfolded best]
  show ?thesis
  proof (cases "n = 0")
    case True
    then show ?thesis using spec by (auto simp: CorebootFindLargestMemoryRegion_def Some best)
  next
    case False
    then show ?thesis using spec by (auto simp: CorebootFindLargestMemoryRegion_def Some best word_gt_0)
  qed
qed

lemma ram_total_eq: "ram_total es n = n + sum_list (map (\<lambda>(a, sz, ty). if ty = 1 then sz else 0) es)"
  by (induction es n rule: ram_total.induct) (simp_all add: add.assoc)

section \<open>Payload headers\<close>

lemma list_sum_append: "list_sum (xs @ ys) = list_sum xs + list_sum ys"
  by (induction xs) (simp_all add: add.assoc)

lemma unat_list_sum: "255 * length bs < 2 ^ 32 \<Longrightarrow> unat (list_sum bs) = sum_list (map unat bs) \<and> sum_list (map unat bs) \<le> 255 * length bs"
proof (induction bs)
  case (Cons b bs)
  have b: "unat (ucast b :: u32) = unat b" "unat b \<le> 255" using unsigned_less [of b, where ?'a = nat] by (simp_all add: unat_ucast_u8)
  have IH: "unat (list_sum bs) = sum_list (map unat bs)" "sum_list (map unat bs) \<le> 255 * length bs"
    using Cons.IH Cons.prems by simp_all
  have "unat (ucast b + list_sum bs) = unat (ucast b :: u32) + unat (list_sum bs)"
    by (rule unat_add_small) (use b IH Cons.prems in simp)
  then show ?case using IH b by simp
qed simp

lemma list_sum_word_nonzero:
  assumes "c \<noteq> 0"
  shows "list_sum (le32_bytes c) \<noteq> 0"
proof
  assume z: "list_sum (le32_bytes c) = 0"
  have "unat (list_sum (le32_bytes c)) = sum_list (map unat (le32_bytes c))"
    using unat_list_sum [of "le32_bytes c"] by simp
  then have b: "byte_at 0 c = 0" "byte_at 8 c = 0" "byte_at 16 c = 0" "byte_at 24 c = 0"
    using z by (simp_all add: le32_bytes_def unsigned_eq_0_iff)
  have "c = be32 (byte_at 24 c) (byte_at 16 c) (byte_at 8 c) (byte_at 0 c)" by (simp add: be32_of_bytes)
  then have "c = be32 0 0 0 0" unfolding b .
  then show False using assms by (simp add: be32_def)
qed

definition payload_front :: "u64 \<Rightarrow> u64 \<Rightarrow> u8 list" where
  "payload_front k n = payload_signature @ le32_bytes 2 @ le16_bytes 1 @ le16_bytes (ucast ((n + 511) div 512)) @ le32_bytes (ucast k)"

lemma payload_fields_split:
  obtains r where "\<And>c. take 52 (payload_fields k n c) = payload_front k n @ le32_bytes c @ r"
    "\<And>c. length (payload_fields k n c) = 56" "length r = 28"
proof
  let ?t = "le32_bytes (ucast (56 + k)) @ le32_bytes 0x100000 @ le32_bytes 0 @ le32_bytes (ucast n) @ replicate 16 (0 :: u8)"
  have f: "payload_fields k n c = payload_front k n @ le32_bytes c @ ?t" for c by (simp add: payload_fields_def payload_front_def)
  have l: "length (payload_front k n) = 20" by (simp add: payload_front_def payload_signature_def le16_bytes_def)
  show "take 52 (payload_fields k n c) = payload_front k n @ le32_bytes c @ take 28 ?t" for c by (simp add: f l)
  show "length (payload_fields k n c) = 56" for c by (simp add: f l)
  show "length (take 28 ?t) = 28" by simp
qed

lemma le32_at_bytes: "length xs = i \<Longrightarrow> le32_at (xs @ le32_bytes c @ ys) i = c"
  by (simp add: le32_at_def le32_bytes_def nth_append be32_of_bytes)

text \<open>No payload that the builder writes passes the validator: the checksum is taken over a header whose
  checksum field is still zero, but the validator adds the stored checksum up as well.\<close>

lemma payload_never_validates: "ValidatePayloadHeader (payload_image cmdline input n) = Some False"
proof -
  define k :: u64 where "k = of_nat (length (case cmdline of None \<Rightarrow> [0] | Some c \<Rightarrow> c @ [0 :: u8]))"
  define rest_bytes where "rest_bytes = (case cmdline of None \<Rightarrow> [0] | Some c \<Rightarrow> c @ [0]) @ take (unat n) input"
  have img: "payload_image cmdline input n = payload_header k n @ rest_bytes"
    by (simp add: payload_image_def k_def rest_bytes_def Let_def)
  obtain r where r: "\<And>c. take 52 (payload_fields k n c) = payload_front k n @ le32_bytes c @ r"
      "\<And>c. length (payload_fields k n c) = 56" "length r = 28" using payload_fields_split [of k n] by blast
  define c where "c = list_sum (take 52 (payload_fields k n 0))"
  have h: "payload_header k n = payload_fields k n c" by (simp add: payload_header_def c_def)
  have t: "take 52 (payload_image cmdline input n) = payload_front k n @ le32_bytes c @ r"
    by (simp add: img h r)
  have l: "length (payload_front k n) = 20" by (simp add: payload_front_def payload_signature_def le16_bytes_def)
  have "list_sum (le32_bytes 0) = 0" by (simp add: le32_bytes_def byte_at_def)
  then have c: "c = list_sum (payload_front k n) + list_sum r" by (simp add: c_def r list_sum_append)
  have "36 \<le> sum_list (map unat (payload_front k n @ r))" by (simp add: payload_front_def payload_signature_def)
  moreover have "unat (list_sum (payload_front k n @ r)) = sum_list (map unat (payload_front k n @ r))"
    using unat_list_sum [of "payload_front k n @ r"] l r(3) by simp
  ultimately have "36 \<le> unat c" by (simp only: c list_sum_append)
  then have "c \<noteq> 0" by auto
  then have "list_sum (take 52 (payload_image cmdline input n)) \<noteq> c"
    using list_sum_word_nonzero [of c] c by (simp add: t list_sum_append)
  moreover have "le32_at (payload_image cmdline input n) 20 = c"
  proof -
    have "payload_image cmdline input n = take 52 (payload_image cmdline input n) @ drop 52 (payload_image cmdline input n)" by simp
    then show ?thesis using le32_at_bytes [OF l, of c "r @ drop 52 (payload_image cmdline input n)"] t by simp
  qed
  moreover have "56 \<le> length (payload_image cmdline input n)" by (simp add: img h r)
  ultimately show ?thesis by (simp add: ValidatePayloadHeader_def)
qed

section \<open>A sample table\<close>

text \<open>One record, the memory map with one region, and the record that ends the table.\<close>

definition table_sample :: mem where
  "table_sample =
     wr (\<lambda>a. 0) 0x500
       (le32_bytes 0x43425442 @ le32_bytes 20 @ le32_bytes 17 @ le32_bytes 33 @ le32_bytes 142 @
        le32_bytes 1 @ le32_bytes 32 @ le64_bytes 0x100000 @ le64_bytes 0x4000 @ le32_bytes 1 @ le32_bytes 0)"

definition coreboot_none :: coreboot_state where
  "coreboot_none = \<lparr>cb_header = 0, cb_framebuffer = 0, cb_memory_map = 0, cb_memory_map_entries = 0, cb_version = 0,
     cb_extra_version = 0, cb_build = 0, cb_compile_time = 0, cb_compiler = 0, cb_assembler = 0, cb_board_id = 0\<rparr>"

lemma table_sample_valid: "table_valid table_sample 0x500"
  by code_simp

lemma table_sample_entries: "entries_at table_sample 0x514 [0x514]"
  by code_simp


end
