(* ===== verification/Bloodchain.thy ===== *)
theory Bloodchain
  imports Boot_Mem
begin

text \<open>
  The BloodChain boot protocol, \<^verbatim>\<open>boot/Arch32/BloodChain/bloodchain.c\<close> with its header. The structures live in
  byte-addressed memory, a function from 64-bit addresses; the offsets of the fields are those of the packed
  structures (144 bytes for the header, 40 for a module).
\<close>

section \<open>The structures\<close>

definition BCBP_MAGIC :: u32 where
  "BCBP_MAGIC = 0x424C4348"

definition BCBP_VERSION :: u32 where
  "BCBP_VERSION = 0x00010000"

definition h_magic :: "mem \<Rightarrow> u64 \<Rightarrow> u32" where
  "h_magic m hdr = rd32 m hdr"

definition h_version :: "mem \<Rightarrow> u64 \<Rightarrow> u32" where
  "h_version m hdr = rd32 m (hdr + 4)"

definition h_module_count :: "mem \<Rightarrow> u64 \<Rightarrow> u64" where
  "h_module_count m hdr = rd64 m (hdr + 56)"

definition h_modules :: "mem \<Rightarrow> u64 \<Rightarrow> u64" where
  "h_modules m hdr = rd64 m (hdr + 64)"

definition mod_at :: "u64 \<Rightarrow> nat \<Rightarrow> u64" where
  "mod_at mods i = mods + of_nat (40 * i)"

definition mod_cmdline :: "mem \<Rightarrow> u64 \<Rightarrow> u64" where
  "mod_cmdline m a = rd64 m (a + 16)"

definition mod_name :: "mem \<Rightarrow> u64 \<Rightarrow> u64" where
  "mod_name m a = rd64 m (a + 24)"

definition mod_type :: "mem \<Rightarrow> u64 \<Rightarrow> u8" where
  "mod_type m a = m (a + 32)"

text \<open>A pointer to a header, NULL being 0, and the test at the head of the operations.\<close>

definition bad_header :: "mem \<Rightarrow> u64 \<Rightarrow> bool" where
  "bad_header m hdr \<longleftrightarrow> hdr = 0 \<or> h_magic m hdr \<noteq> BCBP_MAGIC"

section \<open>Operations\<close>

definition opt_strlen :: "mem \<Rightarrow> u64 \<Rightarrow> nat cmem" where
  "opt_strlen m p = (if p = 0 then Some 0 else map_option Suc (strlen_mem m p))"

fun required_strings :: "mem \<Rightarrow> u64 \<Rightarrow> nat list \<Rightarrow> u64 cmem" where
  "required_strings m mods [] = Some 0"
| "required_strings m mods (i # is) =
     (case opt_strlen m (mod_name m (mod_at mods i)) of
        None \<Rightarrow> None
      | Some a \<Rightarrow>
          (case opt_strlen m (mod_cmdline m (mod_at mods i)) of
             None \<Rightarrow> None
           | Some b \<Rightarrow> map_option (\<lambda>t. of_nat (a + b) + t) (required_strings m mods is)))"

definition calculate_required_memory :: "mem \<Rightarrow> u64 \<Rightarrow> u64 cmem" where
  "calculate_required_memory m hdr =
     (if bad_header m hdr then Some 0
      else map_option (\<lambda>t. 144 + h_module_count m hdr * 40 + t)
             (required_strings m (h_modules m hdr) [0..<unat (h_module_count m hdr)]))"

definition bcbp_init :: "mem \<Rightarrow> u64 \<Rightarrow> u64 \<Rightarrow> u64 \<Rightarrow> mem" where
  "bcbp_init m hdr entry_point boot_device =
     (if hdr = 0 then m
      else let m1 = wr m hdr (replicate 144 0);
               m2 = wr m1 hdr [0x48, 0x43, 0x4C, 0x42];
               m3 = wr m2 (hdr + 4) [0, 0, 1, 0];
               m4 = wr64 m3 (hdr + 8) entry_point;
               m5 = wr64 m4 (hdr + 24) boot_device;
               m6 = wr64 m5 (hdr + 64) (hdr + 144);
               m7 = wr64 m6 (hdr + 56) 0
           in wr m7 (hdr + 72) [0, 0, 0])"

text \<open>The end of the string data: the maximum over the strings of the modules.\<close>

definition past_string :: "mem \<Rightarrow> u64 \<Rightarrow> u64 \<Rightarrow> u64 cmem" where
  "past_string m p str_ptr =
     (if p = 0 then Some str_ptr
      else map_option (\<lambda>n. if str_ptr < p + of_nat (n + 1) then p + of_nat (n + 1) else str_ptr) (strlen_mem m p))"

fun string_end :: "mem \<Rightarrow> u64 \<Rightarrow> nat list \<Rightarrow> u64 \<Rightarrow> u64 cmem" where
  "string_end m mods [] str_ptr = Some str_ptr"
| "string_end m mods (i # is) str_ptr =
     (case past_string m (mod_name m (mod_at mods i)) str_ptr of
        None \<Rightarrow> None
      | Some p \<Rightarrow>
          (case past_string m (mod_cmdline m (mod_at mods i)) p of
             None \<Rightarrow> None
           | Some q \<Rightarrow> string_end m mods is q))"

definition bcbp_add_module ::
  "mem \<Rightarrow> u64 \<Rightarrow> u64 \<Rightarrow> u64 \<Rightarrow> u8 list ptr \<Rightarrow> u8 \<Rightarrow> u8 list ptr \<Rightarrow> mem cmem" where
  "bcbp_add_module m hdr start n name ty cmdline =
     (case name of
        None \<Rightarrow> Some m
      | Some nm \<Rightarrow>
          if bad_header m hdr \<or> n = 0 then Some m
          else let mods = h_modules m hdr; k = h_module_count m hdr in
            case string_end m mods [0..<unat k] (mods + (k + 1) * 40) of
              None \<Rightarrow> None
            | Some str_ptr \<Rightarrow>
                let md = mods + k * 40;
                    m1 = wr64 m (hdr + 56) (k + 1);
                    m2 = wr64 m1 md start;
                    m3 = wr64 m2 (md + 8) n;
                    m4 = wr m3 (md + 32) [ty];
                    m5 = wr64 m4 (md + 24) str_ptr;
                    m6 = strcpy_mem m5 str_ptr nm;
                    cmd_ptr = str_ptr + of_nat (length nm + 1)
                in (case cmdline of
                      Some (c # cs) \<Rightarrow> Some (strcpy_mem (wr64 m6 (md + 16) cmd_ptr) cmd_ptr (c # cs))
                    | _ \<Rightarrow> Some (wr64 m6 (md + 16) 0)))"

fun find_in :: "mem \<Rightarrow> u64 \<Rightarrow> u8 list \<Rightarrow> nat list \<Rightarrow> u64" where
  "find_in m mods name [] = 0"
| "find_in m mods name (i # is) =
     (if mod_name m (mod_at mods i) \<noteq> 0 \<and> streq_mem m (mod_name m (mod_at mods i)) name then mod_at mods i
      else find_in m mods name is)"

definition bcbp_find_module :: "mem \<Rightarrow> u64 \<Rightarrow> u8 list ptr \<Rightarrow> u64" where
  "bcbp_find_module m hdr name =
     (case name of
        None \<Rightarrow> 0
      | Some nm \<Rightarrow>
          if bad_header m hdr then 0
          else find_in m (h_modules m hdr) nm [0..<unat (h_module_count m hdr)])"

text \<open>One module of the validation; \<open>required\<close> is \<open>calculate_required_memory\<close>.\<close>

definition validate_module :: "mem \<Rightarrow> u64 \<Rightarrow> u64 \<Rightarrow> u64 \<Rightarrow> int" where
  "validate_module m hdr required a =
     (let nm = mod_name m a; cmd = mod_cmdline m a in
      if mod_type m a < 1 \<or> 8 < mod_type m a then -6
      else if nm \<noteq> 0 \<and> (nm < hdr \<or> hdr + required \<le> nm) then -7
      else if nm \<noteq> 0 \<and> strnlen_mem m nm 256 = 256 then -8
      else if cmd \<noteq> 0 \<and> (cmd < hdr \<or> hdr + required \<le> cmd) then -9
      else if cmd \<noteq> 0 \<and> strnlen_mem m cmd 4096 = 4096 then -10
      else 0)"

fun validate_modules :: "mem \<Rightarrow> u64 \<Rightarrow> u64 \<Rightarrow> u64 \<Rightarrow> nat list \<Rightarrow> int" where
  "validate_modules m hdr required mods [] = 0"
| "validate_modules m hdr required mods (i # is) =
     (let r = validate_module m hdr required (mod_at mods i) in
      if r \<noteq> 0 then r else validate_modules m hdr required mods is)"

definition bcbp_validate :: "mem \<Rightarrow> u64 \<Rightarrow> int cmem" where
  "bcbp_validate m hdr =
     (if hdr = 0 then Some (-1)
      else if h_magic m hdr \<noteq> BCBP_MAGIC then Some (-2)
      else if drop_bit 16 BCBP_VERSION < drop_bit 16 (h_version m hdr) then Some (-3)
      else if 1024 < h_module_count m hdr then Some (-4)
      else if h_module_count m hdr = 0 then Some 0
      else if h_modules m hdr \<le> hdr then Some (-5)
      else case calculate_required_memory m hdr of
             None \<Rightarrow> None
           | Some required \<Rightarrow>
               if hdr + required \<le> h_modules m hdr then Some (-5)
               else Some (validate_modules m hdr required (h_modules m hdr) [0..<unat (h_module_count m hdr)]))"

definition bcbp_set_field :: "mem \<Rightarrow> u64 \<Rightarrow> u64 \<Rightarrow> u64 \<Rightarrow> mem" where
  "bcbp_set_field m hdr off v = (if bad_header m hdr then m else wr64 m (hdr + off) v)"

definition bcbp_set_acpi_rsdp :: "mem \<Rightarrow> u64 \<Rightarrow> u64 \<Rightarrow> mem" where
  "bcbp_set_acpi_rsdp m hdr rsdp = bcbp_set_field m hdr 32 rsdp"

definition bcbp_set_smbios :: "mem \<Rightarrow> u64 \<Rightarrow> u64 \<Rightarrow> mem" where
  "bcbp_set_smbios m hdr smbios = bcbp_set_field m hdr 40 smbios"

definition bcbp_set_framebuffer :: "mem \<Rightarrow> u64 \<Rightarrow> u64 \<Rightarrow> mem" where
  "bcbp_set_framebuffer m hdr framebuffer = bcbp_set_field m hdr 48 framebuffer"

definition bcbp_get_module :: "mem \<Rightarrow> u64 \<Rightarrow> u64 \<Rightarrow> u64" where
  "bcbp_get_module m hdr idx = (if h_module_count m hdr \<le> idx then 0 else h_modules m hdr + idx * 40)"

section \<open>Adding modules\<close>

text \<open>The memory of a header at \<open>hdr\<close> with its module array right behind it and \<open>k\<close> modules.\<close>

definition bcbp_header_ok :: "mem \<Rightarrow> u64 \<Rightarrow> nat \<Rightarrow> bool" where
  "bcbp_header_ok m hdr k \<longleftrightarrow> hdr \<noteq> 0 \<and> h_magic m hdr = BCBP_MAGIC \<and> h_modules m hdr = addr hdr 144 \<and>
     unat (h_module_count m hdr) = k"

lemma hdr_addr: "hdr = addr hdr 0" "hdr + numeral k = addr hdr (numeral k)"
  by (simp_all add: addr_def)

lemma h_fields:
  "h_magic m hdr = rd32 m (addr hdr 0)" "h_module_count m hdr = rd64 m (addr hdr 56)"
  "h_modules m hdr = rd64 m (addr hdr 64)"
  by (simp_all add: h_magic_def h_module_count_def h_modules_def addr_def)

lemma mod_at_addr: "mod_at (addr hdr p) i = addr hdr (p + 40 * i)"
  by (simp add: mod_at_def addr_def add.assoc)

lemma bcbp_init_eq:
  "hdr \<noteq> 0 \<Longrightarrow> bcbp_init m hdr e d =
     wr (wr64 (wr64 (wr64 (wr64 (wr (wr (wr m (addr hdr 0) (replicate 144 0)) (addr hdr 0) [0x48, 0x43, 0x4C, 0x42])
       (addr hdr 4) [0, 0, 1, 0]) (addr hdr 8) e) (addr hdr 24) d) (addr hdr 64) (addr hdr 144)) (addr hdr 56) 0)
       (addr hdr 72) [0, 0, 0]"
  by (simp add: bcbp_init_def addr_def)

lemma bcbp_init_ok:
  assumes "hdr \<noteq> 0"
  shows "bcbp_header_ok (bcbp_init m hdr e d) hdr 0"
proof -
  let ?m = "bcbp_init m hdr e d"
  have "rd32 ?m (addr hdr 0) = be32 0x42 0x4C 0x43 0x48"
    using assms by (simp add: bcbp_init_eq rd32_addr wr64_def wr_addr)
  also have "\<dots> = BCBP_MAGIC" by (simp add: be32_def BCBP_MAGIC_def)
  finally have mg: "rd32 ?m (addr hdr 0) = BCBP_MAGIC" .
  have md: "rd64 ?m (addr hdr 64) = addr hdr 144"
    using assms by (simp add: bcbp_init_eq rd64_addr rd32_addr wr64_def wr_addr le64_nth le64_value)
  have "rd64 ?m (addr hdr 56) = 0"
    using assms by (simp add: bcbp_init_eq rd64_addr rd32_addr wr64_def wr_addr le64_nth byte_at_def be32_def)
  then show ?thesis using assms mg md by (simp add: bcbp_header_ok_def h_fields)
qed

text \<open>The end of the string data starts behind the array.\<close>

definition module_write :: "mem \<Rightarrow> u64 \<Rightarrow> nat \<Rightarrow> nat \<Rightarrow> u64 \<Rightarrow> u64 \<Rightarrow> u8 list \<Rightarrow> u8 \<Rightarrow> mem" where
  "module_write m hdr k P start n nm ty =
     (let md = 144 + 40 * k;
          m1 = wr64 m (addr hdr 56) (of_nat k + 1);
          m2 = wr64 m1 (addr hdr md) start;
          m3 = wr64 m2 (addr hdr (md + 8)) n;
          m4 = wr m3 (addr hdr (md + 32)) [ty];
          m5 = wr64 m4 (addr hdr (md + 24)) (addr hdr P);
          m6 = wr m5 (addr hdr P) (nm @ [0])
      in wr64 m6 (addr hdr (md + 16)) 0)"

lemma bcbp_add_module_eq:
  assumes "bcbp_header_ok m hdr k" and "n \<noteq> 0"
    and "string_end m (addr hdr 144) [0..<k] (addr hdr (184 + 40 * k)) = Some (addr hdr P)"
  shows "bcbp_add_module m hdr start n (Some nm) ty None = Some (module_write m hdr k P start n nm ty)"
proof -
  have k: "h_module_count m hdr = of_nat k" using assms(1) by (auto simp: bcbp_header_ok_def)
  have a: "addr hdr 144 + (of_nat k + 1) * 40 = addr hdr (184 + 40 * k)" "addr hdr 144 + of_nat k * 40 = addr hdr (144 + 40 * k)"
    by (simp_all add: addr_def algebra_simps)
  show ?thesis
    using assms k a
    by (simp add: bcbp_add_module_def bad_header_def bcbp_header_ok_def module_write_def Let_def strcpy_mem_def
        hdr_addr(2) [of hdr] add.assoc)
qed

text \<open>What adding a module leaves behind.\<close>

lemma module_write_byte:
  assumes "144 + 40 * k + 40 \<le> P" and "P + length nm < 2 ^ 61" and "p < 2 ^ 61"
  shows "p < 56 \<or> 64 \<le> p \<and> p < 144 + 40 * k \<or> 184 + 40 * k \<le> p \<and> p < P \<or> P + length nm < p \<Longrightarrow>
      module_write m hdr k P start n nm ty (addr hdr p) = m (addr hdr p)"
    "P \<le> p \<Longrightarrow> p \<le> P + length nm \<Longrightarrow> module_write m hdr k P start n nm ty (addr hdr p) = (nm @ [0]) ! (p - P)"
    "144 + 40 * k \<le> p \<Longrightarrow> p < 152 + 40 * k \<Longrightarrow>
      module_write m hdr k P start n nm ty (addr hdr p) = le64_bytes start ! (p - (144 + 40 * k))"
  using assms by (auto simp: module_write_def Let_def wr64_def wr_addr)

lemma module_write_name:
  assumes "144 + 40 * k + 40 \<le> P" and "P + length nm < 2 ^ 61" and "0 \<notin> set nm"
  shows "holds_str (module_write m hdr k P start n nm ty) (addr hdr P) nm"
proof -
  have "module_write m hdr k P start n nm ty (addr hdr P + of_nat i) = (nm @ [0]) ! i" if "i \<le> length nm" for i
    using module_write_byte(2) [OF assms(1,2), of "P + i"] assms that by (simp add: addr_add)
  then show ?thesis using assms(3) by (simp add: holds_str_def)
qed

lemma module_write_fields:
  assumes "144 + 40 * k + 40 \<le> P" and "P + length nm < 2 ^ 61"
  shows "rd64 (module_write m hdr k P start n nm ty) (addr hdr 56) = of_nat k + 1"
    "rd64 (module_write m hdr k P start n nm ty) (addr hdr (144 + 40 * k + 24)) = addr hdr P"
    "rd64 (module_write m hdr k P start n nm ty) (addr hdr (144 + 40 * k + 16)) = 0"
  using assms
  by (simp_all add: module_write_def Let_def rd64_addr rd32_addr wr64_def wr_addr le64_nth le64_value
      byte_at_def [of _ "0 :: u64"] be32_def [of 0 0 0 0])

lemma module_write_keeps:
  assumes "144 + 40 * k + 40 \<le> P" and "P + length nm < 2 ^ 61"
  shows "p + 4 \<le> 56 \<Longrightarrow> rd32 (module_write m hdr k P start n nm ty) (addr hdr p) = rd32 m (addr hdr p)"
    "64 \<le> p \<Longrightarrow> p + 8 \<le> 144 + 40 * k \<Longrightarrow> rd64 (module_write m hdr k P start n nm ty) (addr hdr p) = rd64 m (addr hdr p)"
proof -
  show "rd32 (module_write m hdr k P start n nm ty) (addr hdr p) = rd32 m (addr hdr p)" if "p + 4 \<le> 56"
    using that assms by (intro rd32_cong module_write_byte(1)) auto
  show "rd64 (module_write m hdr k P start n nm ty) (addr hdr p) = rd64 m (addr hdr p)" if "64 \<le> p" "p + 8 \<le> 144 + 40 * k"
    using that assms by (intro rd64_cong module_write_byte(1)) auto
qed

lemma module_write_ok:
  assumes "bcbp_header_ok m hdr k" and "144 + 40 * k + 40 \<le> P" and "P + length nm < 2 ^ 61"
  shows "bcbp_header_ok (module_write m hdr k P start n nm ty) hdr (k + 1)"
proof -
  have "unat (of_nat k + 1 :: u64) = k + 1"
  proof -
    have "unat (of_nat (k + 1) :: u64) = k + 1" using assms(2,3) by (intro unat_of_nat_small) simp
    then show ?thesis by (simp add: add.commute)
  qed
  then show ?thesis
    using assms module_write_fields(1) [OF assms(2,3)] module_write_keeps [OF assms(2,3)]
    by (simp add: bcbp_header_ok_def h_fields)
qed

lemma bcbp_find_module_ok:
  assumes "bcbp_header_ok m hdr k"
  shows "bcbp_find_module m hdr (Some nm) = find_in m (addr hdr 144) nm [0..<k]"
  using assms by (simp add: bcbp_find_module_def bad_header_def bcbp_header_ok_def)

section \<open>One and two modules\<close>

lemma unat_addr: "unat b + p < 2 ^ 64 \<Longrightarrow> unat (addr b p) = unat b + p"
  using unat_of_nat_small [of p, where 'a = 64] unat_add_small [of b "of_nat p"] by (simp add: addr_def)

lemma strnlen_holds: "holds_str m a s \<Longrightarrow> length s < n \<Longrightarrow> strnlen_mem m a n = length s"
proof (induction s arbitrary: a n)
  case Nil
  then show ?case by (cases n) (simp_all add: holds_str_Nil)
next
  case (Cons c s)
  then show ?case by (cases n) (simp_all add: holds_str_Cons)
qed

text \<open>The first module after initialisation.\<close>

lemma first_module:
  assumes "hdr \<noteq> 0" and "n \<noteq> 0" and "0 \<notin> set nm" and "length nm < 2 ^ 60"
  obtains m' where "bcbp_add_module (bcbp_init m hdr e d) hdr start n (Some nm) ty None = Some m'"
    "m' = module_write (bcbp_init m hdr e d) hdr 0 184 start n nm ty"
    "bcbp_header_ok m' hdr 1" "holds_str m' (addr hdr 184) nm" "rd64 m' (addr hdr 168) = addr hdr 184"
    "rd64 m' (addr hdr 160) = 0"
proof -
  let ?m = "bcbp_init m hdr e d"
  let ?m' = "module_write ?m hdr 0 184 start n nm ty"
  note ok = bcbp_init_ok [OF assms(1), of m e d]
  have fit: "144 + 40 * 0 + 40 \<le> (184 :: nat)" "184 + length nm < 2 ^ 61" using assms(4) by simp_all
  have "bcbp_add_module ?m hdr start n (Some nm) ty None = Some ?m'"
    by (rule bcbp_add_module_eq [OF ok assms(2)]) simp
  moreover have "bcbp_header_ok ?m' hdr 1" using module_write_ok [OF ok fit] by simp
  moreover have "holds_str ?m' (addr hdr 184) nm" by (rule module_write_name [OF fit assms(3)])
  moreover have "rd64 ?m' (addr hdr 168) = addr hdr 184" "rd64 ?m' (addr hdr 160) = 0"
    using module_write_fields(2,3) [OF fit] by simp_all
  ultimately show thesis using that by blast
qed

lemma find_in_one:
  assumes "rd64 m (addr hdr 168) = addr hdr 184" and "addr hdr 184 \<noteq> 0" and "holds_str m (addr hdr 184) s" and "0 \<notin> set t"
  shows "find_in m (addr hdr 144) t [0..<1] = (if t = s then addr hdr 144 else 0)"
  using assms streq_holds [OF assms(3,4)] by (simp add: mod_name_def mod_at_addr)

lemma addr_nonzero: "0 < p \<Longrightarrow> unat b + p < 2 ^ 64 \<Longrightarrow> addr b p \<noteq> 0"
  using unat_addr [of b p] by auto

lemma first_module_valid:
  assumes m': "m' = module_write (bcbp_init m hdr e d) hdr 0 184 start n nm ty"
    and ok: "bcbp_header_ok m' hdr 1" and str: "holds_str m' (addr hdr 184) nm"
    and fields: "rd64 m' (addr hdr 168) = addr hdr 184" "rd64 m' (addr hdr 160) = 0"
    and hdr: "hdr \<noteq> 0" "unat hdr + 2048 < 2 ^ 64" and nm: "length nm < 256" and ty: "1 \<le> ty" "ty \<le> 8"
  shows "bcbp_validate m' hdr = Some 0"
proof -
  have fit: "144 + 40 * 0 + 40 \<le> (184 :: nat)" "184 + length nm < 2 ^ 61" using nm by simp_all
  have "rd32 (bcbp_init m hdr e d) (addr hdr 4) = be32 0 1 0 0"
    using hdr by (simp add: bcbp_init_eq rd32_addr wr64_def wr_addr)
  then have ver: "h_version m' hdr = BCBP_VERSION"
    using module_write_keeps(1) [OF fit, of 4] by (simp add: h_version_def hdr_addr(2) m' be32_def BCBP_VERSION_def)
  have cnt: "h_module_count m' hdr = 1" by (rule unat_eqI) (use ok in \<open>simp add: bcbp_header_ok_def\<close>)
  have md: "h_modules m' hdr = addr hdr 144" and mg: "h_magic m' hdr = BCBP_MAGIC"
    using ok by (auto simp: bcbp_header_ok_def)
  have t: "m' (addr hdr 176) = ty"
    using fit by (simp add: m' module_write_def Let_def wr64_def wr_addr)
  have nz: "addr hdr 184 \<noteq> 0" using hdr by (intro addr_nonzero) simp_all
  have u: "unat (addr hdr p) = unat hdr + p" if "p \<le> 1024" for p using hdr that by (intro unat_addr) simp
  have m0: "mod_name m' (addr hdr 144) = addr hdr 184" "mod_cmdline m' (addr hdr 144) = 0" "mod_type m' (addr hdr 144) = ty"
    using fields t by (simp_all add: mod_name_def mod_cmdline_def mod_type_def)
  have req: "calculate_required_memory m' hdr = Some (144 + 40 + of_nat (length nm + 1))"
    using hdr(1) mg md cnt nz m0 strlen_holds [OF str]
    by (simp add: calculate_required_memory_def bad_header_def mod_at_addr opt_strlen_def)
  have hr: "hdr + (144 + 40 + of_nat (length nm + 1)) = addr hdr (185 + length nm)" by (simp add: addr_def)
  have "validate_module m' hdr (144 + 40 + of_nat (length nm + 1)) (addr hdr 144) = 0"
    unfolding validate_module_def m0 Let_def hr
    using ty nm u strnlen_holds [OF str, of 256] by (auto simp: word_less_nat_alt word_le_nat_alt)
  then show ?thesis
    using hdr(1) mg ver cnt md req u nm hr
    by (simp add: bcbp_validate_def word_le_nat_alt word_less_nat_alt mod_at_addr)
qed

text \<open>The place for the strings of a second module.\<close>

lemma second_string_end:
  assumes "rd64 m (addr hdr 168) = addr hdr 184" and "rd64 m (addr hdr 160) = 0" and "holds_str m (addr hdr 184) s"
    and "unat hdr + 1024 + length s < 2 ^ 64"
  shows "string_end m (addr hdr 144) [0..<1] (addr hdr 224) = Some (addr hdr (max 224 (185 + length s)))"
proof -
  have nz: "addr hdr 184 \<noteq> 0" using assms(4) by (intro addr_nonzero) simp_all
  have u: "unat (addr hdr 224) = unat hdr + 224" "unat (addr hdr (185 + length s)) = unat hdr + (185 + length s)"
    using assms(4) by (simp_all add: unat_addr)
  have sum: "addr hdr 184 + of_nat (Suc (length s)) = addr hdr (185 + length s)" by (simp only: addr_add) simp
  have "past_string m (addr hdr 184) (addr hdr 224) = Some (addr hdr (max 224 (185 + length s)))"
    using nz u by (simp add: past_string_def strlen_holds [OF assms(3)] sum word_less_nat_alt max_def del: of_nat_add of_nat_Suc)
  then show ?thesis
    using assms(1,2) by (simp add: mod_name_def mod_cmdline_def mod_at_addr past_string_def [of _ 0])
qed

section \<open>Properties\<close>



text \<open>Adding a second module overwrites the name of the first one: its structure is placed where the
  first name is stored. When the start address of the second module is a multiple of 256, as for any aligned
  module, the first module can no longer be found under its name, although the second one can.\<close>

lemma bcbp_second_module_hides_first:
  assumes "hdr \<noteq> 0" and "unat hdr + 2 ^ 20 < 2 ^ 64" and "n1 \<noteq> 0" and "n2 \<noteq> 0"
    and "0 \<notin> set nm1" and "0 \<notin> set nm2" and "nm1 \<noteq> []" and "nm2 \<noteq> []" and "nm1 \<noteq> nm2"
    and "length nm1 < 4096" and "length nm2 < 4096" and "byte_at 0 start2 = 0"
  shows "\<exists>m1 m2. bcbp_add_module (bcbp_init m hdr e d) hdr start1 n1 (Some nm1) ty1 None = Some m1 \<and>
    bcbp_add_module m1 hdr start2 n2 (Some nm2) ty2 None = Some m2 \<and>
    bcbp_find_module m1 hdr (Some nm1) = hdr + 144 \<and>
    bcbp_find_module m2 hdr (Some nm1) = 0 \<and> bcbp_find_module m2 hdr (Some nm2) = hdr + 184"
proof -
  have "length nm1 < 2 ^ 60" using assms(10) by simp
  from first_module [OF assms(1,3,5) this] obtain m1 where
    m1: "bcbp_add_module (bcbp_init m hdr e d) hdr start1 n1 (Some nm1) ty1 None = Some m1"
      "bcbp_header_ok m1 hdr 1" "holds_str m1 (addr hdr 184) nm1" "rd64 m1 (addr hdr 168) = addr hdr 184"
      "rd64 m1 (addr hdr 160) = 0" by metis
  have nz: "addr hdr 184 \<noteq> 0" using assms(2) by (intro addr_nonzero) simp_all
  define P where "P = max 224 (185 + length nm1)"
  define m2 where "m2 = module_write m1 hdr 1 P start2 n2 nm2 ty2"
  have fit: "144 + 40 * 1 + 40 \<le> P" "P + length nm2 < 2 ^ 61" using assms(10,11) by (simp_all add: P_def)
  have "string_end m1 (addr hdr 144) [0..<1] (addr hdr (184 + 40 * 1)) = Some (addr hdr P)"
    using second_string_end [OF m1(4,5,3)] assms(2,10) by (simp add: P_def)
  then have add2: "bcbp_add_module m1 hdr start2 n2 (Some nm2) ty2 None = Some m2"
    unfolding m2_def by (rule bcbp_add_module_eq [OF m1(2) assms(4)])
  have ok2: "bcbp_header_ok m2 hdr 2" using module_write_ok [OF m1(2) fit] by (simp add: m2_def numeral_2_eq_2)
  have b0: "m2 (addr hdr 184) = 0"
    using module_write_byte(3) [OF fit, of 184] assms(12) by (simp add: m2_def le64_nth)
  have n0: "rd64 m2 (addr hdr 168) = addr hdr 184"
    using module_write_keeps(2) [OF fit, of 168] m1(4) by (simp add: m2_def)
  have n1: "rd64 m2 (addr hdr 208) = addr hdr P"
    using module_write_fields(2) [OF fit] by (simp add: m2_def)
  have h2: "holds_str m2 (addr hdr P) nm2" unfolding m2_def by (rule module_write_name [OF fit assms(6)])
  have Pnz: "addr hdr P \<noteq> 0" using assms(2,10) by (intro addr_nonzero) (simp_all add: P_def)
  have gone: "\<not> streq_mem m2 (addr hdr 184) t" if "t \<noteq> []" "0 \<notin> set t" for t using b0 that by (cases t) auto
  have two: "[0..<2] = [0, 1 :: nat]" by (simp add: upt_conv_Cons)
  have f: "bcbp_find_module m2 hdr (Some t) = (if t = nm2 then addr hdr 184 else 0)" if "t \<noteq> []" "0 \<notin> set t" for t
    using n0 n1 nz Pnz streq_holds [OF h2 that(2)] gone [OF that]
    by (simp add: bcbp_find_module_ok [OF ok2] two mod_name_def mod_at_addr)
  have "bcbp_find_module m1 hdr (Some nm1) = addr hdr 144"
    using find_in_one [OF m1(4) nz m1(3) assms(5)] by (simp only: bcbp_find_module_ok [OF m1(2)]) simp
  then show ?thesis
    using m1(1) add2 f [OF assms(7,5)] f [OF assms(8,6)] assms(9) by (simp add: hdr_addr(2))
qed

end
