(* ===== verification/Main_Boot.thy ===== *)
theory Main_Boot
  imports Coreboot Net Bloodchain
begin

text \<open>
  Starting a kernel from the boot manager \<^verbatim>\<open>main.c\<close> and from the Coreboot payload: the boot parameters and their
  validation, the choice of a region of memory, leaving the boot services, the countdown before the default entry
  is booted, and the BloodChain entry of the menu. The boot services are the record \<open>boot_services\<close>; every
  operation also yields the services it calls, in order. The parameters take 336 bytes in \<^verbatim>\<open>main.c\<close> and 64 in the
  payload, which leaves out the last fields.
\<close>

section \<open>Boot parameters\<close>

definition params_base :: "nat \<Rightarrow> mem \<Rightarrow> u64 \<Rightarrow> u64 \<Rightarrow> u64 \<Rightarrow> mem" where
  "params_base len m p kernel_base kernel_size =
     (let m1 = wr m p (replicate len 0);
          m2 = wr32 m1 p 0x12345678;
          m3 = wr32 m2 (p + 4) 1;
          m4 = wr64 m3 (p + 8) kernel_base;
          m5 = wr64 m4 (p + 16) kernel_size
      in wr32 m5 (p + 24) 1)"

definition params_framebuffer :: "mem \<Rightarrow> u64 \<Rightarrow> u64 \<times> u32 \<times> u32 \<times> u32 \<times> u32 \<Rightarrow> mem" where
  "params_framebuffer m p fb =
     (let (base, width, height, bpp, pitch) = fb;
          m1 = wr64 m (p + 32) base;
          m2 = wr32 m1 (p + 40) width;
          m3 = wr32 m2 (p + 44) height;
          m4 = wr32 m3 (p + 48) bpp;
          m5 = wr32 m4 (p + 52) pitch
      in wr32 m5 (p + 24) (rd32 m5 (p + 24) OR 2))"

definition fb_values :: "coreboot_fb \<Rightarrow> u64 \<times> u32 \<times> u32 \<times> u32 \<times> u32" where
  "fb_values fb =
     (fb_physical_address fb, fb_x_resolution fb, fb_y_resolution fb, ucast (fb_bits_per_pixel fb), fb_bytes_per_line fb)"

definition params_coreboot_fb :: "coreboot_state \<Rightarrow> mem \<Rightarrow> u64 \<Rightarrow> mem" where
  "params_coreboot_fb cb m p =
     (case CorebootGetFramebuffer m cb of None \<Rightarrow> m | Some fb \<Rightarrow> params_framebuffer m p (fb_values fb))"

definition params_initrd :: "mem \<Rightarrow> u64 \<Rightarrow> u64 \<Rightarrow> mem" where
  "params_initrd m p initrd =
     (if initrd = 0 then m
      else let m1 = wr64 m (p + 64) initrd in wr32 m1 (p + 24) (rd32 m1 (p + 24) OR 4))"

definition ValidateBootParameters :: "mem \<Rightarrow> u64 \<Rightarrow> bool" where
  "ValidateBootParameters m p =
     (if p = 0 then False
      else if rd32 m p \<noteq> 0x12345678 then False
      else if rd32 m (p + 4) \<noteq> 1 then False
      else if rd64 m (p + 8) = 0 \<or> rd64 m (p + 16) = 0 then False
      else if rd32 m (p + 24) AND 1 = 0 then False
      else if rd32 m (p + 24) AND 2 \<noteq> 0 \<and> (rd64 m (p + 32) = 0 \<or> rd32 m (p + 40) = 0 \<or> rd32 m (p + 44) = 0) then False
      else if rd32 m (p + 24) AND 4 \<noteq> 0 \<and> rd64 m (p + 64) = 0 then False
      else True)"

text \<open>The validation of the payload does not know the initial ram disk.\<close>

definition ValidatePayloadParameters :: "mem \<Rightarrow> u64 \<Rightarrow> bool" where
  "ValidatePayloadParameters m p =
     (if p = 0 then False
      else if rd32 m p \<noteq> 0x12345678 then False
      else if rd32 m (p + 4) \<noteq> 1 then False
      else if rd64 m (p + 8) = 0 \<or> rd64 m (p + 16) = 0 then False
      else if rd32 m (p + 24) AND 1 = 0 then False
      else if rd32 m (p + 24) AND 2 \<noteq> 0 \<and> (rd64 m (p + 32) = 0 \<or> rd32 m (p + 40) = 0 \<or> rd32 m (p + 44) = 0) then False
      else True)"

section \<open>Boot services\<close>

record gop_mode =
  gop_base :: u64
  gop_width :: u32
  gop_height :: u32
  gop_bgrx :: bool
  gop_scan_line :: u32

text \<open>A memory descriptor: its type, its first address, its number of pages.\<close>

type_synonym efi_memory = "u32 \<times> u64 \<times> u64"

record boot_services =
  bs_map_size :: "efi_status \<times> u64"
  bs_pool :: "u64 \<Rightarrow> bool"
  bs_map :: "efi_status \<times> efi_memory list"
  bs_exit :: efi_status
  bs_gop :: "efi_status \<times> gop_mode ptr"

datatype bs_event = Bs_Map | Bs_Pool | Bs_Free | Bs_Print | Bs_Locate | Bs_Exit efi_status | Bs_Enter

text \<open>What a failed validation prints, by itself and by its caller.\<close>

definition invalid_prints :: "u64 \<Rightarrow> bs_event list" where
  "invalid_prints p = (if p = 0 then [] else [Bs_Print]) @ [Bs_Print]"

datatype exec_outcome = Exec_Failed efi_status | Exec_Entered u64 u64 mem

definition EFI_DEVICE_ERROR :: efi_status where
  "EFI_DEVICE_ERROR = push_bit 63 1 OR 7"

definition EFI_LOAD_ERROR :: efi_status where
  "EFI_LOAD_ERROR = push_bit 63 1 OR 1"

definition EFI_INVALID_PARAMETER :: efi_status where
  "EFI_INVALID_PARAMETER = push_bit 63 1 OR 2"

text \<open>The size of the memory map is asked for first; a call without a buffer that succeeds leaves a null map.\<close>

definition get_memory_map :: "boot_services \<Rightarrow> ((efi_status + efi_memory list) \<times> bs_event list) cmem" where
  "get_memory_map bs =
     (let (st, n) = bs_map_size bs in
      if st \<noteq> EFI_BUFFER_TOO_SMALL then (if EFI_ERROR st then Some (Inl st, [Bs_Map, Bs_Print]) else None)
      else if \<not> bs_pool bs n then Some (Inl EFI_OUT_OF_RESOURCES, [Bs_Map, Bs_Pool])
      else let (st, ds) = bs_map bs in
        if EFI_ERROR st then Some (Inl st, [Bs_Map, Bs_Pool, Bs_Map, Bs_Print])
        else Some (Inr ds, [Bs_Map, Bs_Pool, Bs_Map]))"

fun efi_total :: "efi_memory list \<Rightarrow> u64 \<Rightarrow> u64" where
  "efi_total [] n = n"
| "efi_total ((ty, start, pages) # ds) n =
     efi_total ds (if ty = 7 \<or> ty = 1 \<or> ty = 2 \<or> ty = 3 \<or> ty = 4 then n + pages * 4096 else n)"

definition gop_values :: "gop_mode \<Rightarrow> u64 \<times> u32 \<times> u32 \<times> u32 \<times> u32" where
  "gop_values g =
     (let bpp = (if gop_bgrx g then 32 else 24) in
      (gop_base g, gop_width g, gop_height g, bpp, gop_scan_line g * (bpp div 8)))"

definition uefi_framebuffer :: "boot_services \<Rightarrow> gop_mode ptr" where
  "uefi_framebuffer bs = (if EFI_ERROR (fst (bs_gop bs)) then None else snd (bs_gop bs))"

text \<open>\<open>cb\<close> is the state of the platform module when the Coreboot flag is set. The parameters are written again.\<close>

definition final_params :: "coreboot_state ptr \<Rightarrow> boot_services \<Rightarrow> efi_memory list \<Rightarrow> mem \<Rightarrow> u64 \<Rightarrow> u64 \<Rightarrow> u64 \<Rightarrow> mem" where
  "final_params cb bs ds m KernelBuffer KernelSize p =
     (let m1 = params_base 336 m p KernelBuffer KernelSize in
      case cb of
        Some c \<Rightarrow>
          (let m2 = params_coreboot_fb c m1 p in wr64 m2 (p + 56) (CorebootGetTotalMemory m2 c))
      | None \<Rightarrow>
          (let m2 = (case uefi_framebuffer bs of None \<Rightarrow> m1 | Some g \<Rightarrow> params_framebuffer m1 p (gop_values g))
           in wr64 m2 (p + 56) (efi_total ds 0)))"

definition ExitBootServicesAndExecuteKernel ::
  "coreboot_state ptr \<Rightarrow> boot_services \<Rightarrow> mem \<Rightarrow> u64 \<Rightarrow> u64 \<Rightarrow> u64 \<Rightarrow> (exec_outcome \<times> bs_event list) cmem" where
  "ExitBootServicesAndExecuteKernel cb bs m KernelBuffer KernelSize p =
     (case get_memory_map bs of
        None \<Rightarrow> None
      | Some (Inl st, ev) \<Rightarrow> Some (Exec_Failed st, ev @ (if length ev = 4 then [Bs_Free] else []))
      | Some (Inr ds, ev) \<Rightarrow>
          if EFI_ERROR (bs_exit bs) then Some (Exec_Failed (bs_exit bs), ev @ [Bs_Exit (bs_exit bs), Bs_Print, Bs_Free])
          else
            let m' = final_params cb bs ds m KernelBuffer KernelSize p;
                ev' = ev @ [Bs_Exit (bs_exit bs)] @ (if cb = None then [Bs_Locate] else [])
            in if \<not> ValidateBootParameters m' p
               then Some (Exec_Failed EFI_INVALID_PARAMETER, ev' @ invalid_prints p @ [Bs_Free])
               else Some (Exec_Entered KernelBuffer p m', ev' @ [Bs_Print, Bs_Print, Bs_Print, Bs_Enter]))"

definition ExecuteKernelWithCoreboot ::
  "coreboot_state \<Rightarrow> boot_services \<Rightarrow> mem \<Rightarrow> u64 \<Rightarrow> u64 \<Rightarrow> u64 \<Rightarrow> (exec_outcome \<times> bs_event list) cmem" where
  "ExecuteKernelWithCoreboot cb bs m KernelBuffer KernelSize InitrdBuffer =
     (case CorebootGetMemoryMap m cb of
        None \<Rightarrow> Some (Exec_Failed EFI_DEVICE_ERROR, [Bs_Print])
      | Some es \<Rightarrow>
          if es = [] then Some (Exec_Failed EFI_DEVICE_ERROR, [Bs_Print])
          else let kernel_base = fst (largest_ram es (0, 0)) in
            if kernel_base = 0 then Some (Exec_Failed EFI_DEVICE_ERROR, [Bs_Print])
            else
              let p = kernel_base + 0x1000;
                  m1 = params_base 336 m p kernel_base KernelSize;
                  m2 = params_coreboot_fb cb m1 p;
                  m3 = wr64 m2 (p + 56) (CorebootGetTotalMemory m2 cb);
                  m4 = params_initrd m3 p InitrdBuffer;
                  pr = [Bs_Print, Bs_Print] @ (if cb_framebuffer cb = 0 then [] else [Bs_Print, Bs_Print])
              in if \<not> ValidateBootParameters m4 p then Some (Exec_Failed EFI_INVALID_PARAMETER, pr @ invalid_prints p)
                 else map_option (\<lambda>(r, ev). (r, pr @ [Bs_Print, Bs_Print] @ ev))
                        (ExitBootServicesAndExecuteKernel (Some cb) bs m4 KernelBuffer KernelSize p))"

fun kernel_region :: "efi_memory list \<Rightarrow> u64 \<Rightarrow> u64" where
  "kernel_region [] KernelSize = 0x100000"
| "kernel_region ((ty, start, pages) # ds) KernelSize =
     (if ty = 7 \<and> 0x100000 \<le> start \<and> KernelSize \<le> pages * 4096 then start else kernel_region ds KernelSize)"

definition ExecuteKernelWithUefi ::
  "boot_services \<Rightarrow> mem \<Rightarrow> u64 \<Rightarrow> u64 \<Rightarrow> (exec_outcome \<times> bs_event list) cmem" where
  "ExecuteKernelWithUefi bs m KernelBuffer KernelSize =
     (case get_memory_map bs of
        None \<Rightarrow> None
      | Some (Inl st, ev) \<Rightarrow> Some (Exec_Failed st, ev)
      | Some (Inr ds, ev) \<Rightarrow>
          map_option (\<lambda>(r, ev'). (r, ev @ [Bs_Locate] @ (if uefi_framebuffer bs = None then [] else [Bs_Print, Bs_Print]) @ ev' @ (case r of Exec_Failed st \<Rightarrow> [Bs_Free] | _ \<Rightarrow> [])))
            (ExitBootServicesAndExecuteKernel None bs m KernelBuffer KernelSize (kernel_region ds KernelSize + 0x1000)))"

definition main_ExecuteKernel ::
  "coreboot_state ptr \<Rightarrow> boot_services \<Rightarrow> mem \<Rightarrow> u64 \<Rightarrow> u64 \<Rightarrow> u64 \<Rightarrow> (exec_outcome \<times> bs_event list) cmem" where
  "main_ExecuteKernel cb bs m KernelBuffer KernelSize InitrdBuffer =
     map_option (\<lambda>(r, ev). (r, Bs_Print # ev))
       (case cb of
          Some c \<Rightarrow> ExecuteKernelWithCoreboot c bs m KernelBuffer KernelSize InitrdBuffer
        | None \<Rightarrow> ExecuteKernelWithUefi bs m KernelBuffer KernelSize)"

text \<open>The payload enters the kernel with boot services still running.\<close>

definition BloodhornExecuteKernel :: "coreboot_state \<Rightarrow> mem \<Rightarrow> u64 \<Rightarrow> u32 \<Rightarrow> exec_outcome option" where
  "BloodhornExecuteKernel cb m kernel_buffer kernel_size =
     (case CorebootGetMemoryMap m cb of
        None \<Rightarrow> None
      | Some es \<Rightarrow>
          if es = [] then None
          else let kernel_base = fst (largest_ram es (0, 0)) in
            if kernel_base = 0 then None
            else
              let p = kernel_base + 0x1000;
                  m1 = params_base 64 m p kernel_base (ucast kernel_size);
                  m2 = params_coreboot_fb cb m1 p;
                  m3 = wr64 m2 (p + 56) (CorebootGetTotalMemory m2 cb)
              in if \<not> ValidatePayloadParameters m3 p then None else Some (Exec_Entered kernel_buffer p m3))"

section \<open>Loading and checking the kernel\<close>

text \<open>Loading a file in the payload; the path is copied like the paths of \<open>CreateBloodhornPayload\<close>.\<close>

definition BloodhornLoadKernel :: "boot_env \<Rightarrow> string \<Rightarrow> (u8 list \<times> u32) option cmem" where
  "BloodhornLoadKernel E kernel_path =
     (if \<not> path_fits (ascii kernel_path) then None
      else if EFI_ERROR (root_status E) then Some None
      else case read_whole (zero_pool E) (root_file E kernel_path) 0 of
             None \<Rightarrow> None
           | Some (st, n, buf) \<Rightarrow> if EFI_ERROR st then Some None else Some (Some (buf, ucast n)))"

text \<open>The entries of the payload's menu that boot a kernel; \<open>at\<close> is where the pool put the file.\<close>

definition payload_boot :: "boot_env \<Rightarrow> u64 \<Rightarrow> coreboot_state \<Rightarrow> mem \<Rightarrow> string \<Rightarrow> exec_outcome cmem" where
  "payload_boot E at cb m path =
     (case BloodhornLoadKernel E path of
        None \<Rightarrow> None
      | Some None \<Rightarrow> Some (Exec_Failed EFI_NOT_FOUND)
      | Some (Some (buf, n)) \<Rightarrow>
          Some (case BloodhornExecuteKernel cb (wr m at buf) at n of None \<Rightarrow> Exec_Failed EFI_LOAD_ERROR | Some r \<Rightarrow> r))"

definition BloodhornBootLinux :: "boot_env \<Rightarrow> u64 \<Rightarrow> coreboot_state \<Rightarrow> mem \<Rightarrow> exec_outcome cmem" where
  "BloodhornBootLinux E at cb m = payload_boot E at cb m ''kernel.efi''"

definition BloodhornBootMultiboot2 :: "boot_env \<Rightarrow> u64 \<Rightarrow> coreboot_state \<Rightarrow> mem \<Rightarrow> exec_outcome cmem" where
  "BloodhornBootMultiboot2 E at cb m = payload_boot E at cb m ''kernel-mb2.efi''"

definition BloodhornBootLimine :: "boot_env \<Rightarrow> u64 \<Rightarrow> coreboot_state \<Rightarrow> mem \<Rightarrow> exec_outcome cmem" where
  "BloodhornBootLimine E at cb m = payload_boot E at cb m ''kernel-limine.efi''"

definition BloodhornBootBloodchain :: "boot_env \<Rightarrow> u64 \<Rightarrow> coreboot_state \<Rightarrow> mem \<Rightarrow> exec_outcome cmem" where
  "BloodhornBootBloodchain E at cb m = payload_boot E at cb m ''kernel-bc.efi''"

text \<open>\<open>known\<close> is the table entry with the expected digest, \<open>digest\<close> the hash function.\<close>

definition main_LoadAndVerifyKernel ::
  "(u8 list \<Rightarrow> u8 list) \<Rightarrow> u8 list \<Rightarrow> (u64 \<Rightarrow> bool) \<Rightarrow> efi_status \<Rightarrow> efi_file \<Rightarrow> (efi_status \<times> u64 \<times> u8 list) cmem" where
  "main_LoadAndVerifyKernel digest known pool root f =
     (if EFI_ERROR root then Some (root, 0, [])
      else case read_whole pool f 0 of
             None \<Rightarrow> None
           | Some (st, n, buf) \<Rightarrow>
               if EFI_ERROR st then Some (st, 0, [])
               else if known ! 0 \<noteq> 0 \<and> digest (take (unat (ucast n :: u32)) buf) \<noteq> known
               then Some (EFI_SECURITY_VIOLATION, n, buf)
               else Some (EFI_SUCCESS, n, buf))"

text \<open>The table as the program defines it; nothing writes to it.\<close>

definition g_known_hashes :: "u8 list" where
  "g_known_hashes = replicate 64 0"

section \<open>The countdown\<close>

text \<open>\<open>keys i\<close> says whether the poll with number \<open>i\<close> finds a key. Every second is ten polls, and a key opens the
  menu.\<close>

fun poll_second :: "(nat \<Rightarrow> bool) \<Rightarrow> nat \<Rightarrow> nat \<Rightarrow> bool \<times> nat" where
  "poll_second keys t 0 = (False, t)"
| "poll_second keys t (Suc n) = (if keys t then (True, t + 1) else poll_second keys (t + 1) n)"

fun countdown :: "(nat \<Rightarrow> bool) \<Rightarrow> nat \<Rightarrow> nat \<Rightarrow> bool" where
  "countdown keys t 0 = True"
| "countdown keys t (Suc secs) =
     (let (pressed, t') = poll_second keys t 10 in
      if pressed then True else if secs = 0 then False else countdown keys t' secs)"

text \<open>Whether a default entry is booted, and with what result; nothing stands for showing the menu.\<close>

definition autoboot :: "file_loader \<Rightarrow> mem \<Rightarrow> (nat \<Rightarrow> bool) \<Rightarrow> BOOT_CONFIG \<Rightarrow> boot_outcome option cmem" where
  "autoboot load_file m keys c =
     (if (if 0 < bc_menu_timeout c then countdown keys 0 (nat (bc_menu_timeout c)) else True) then Some None
      else if bc_default_entry c = ''linux'' \<and> bc_kernel c \<noteq> [] then
        (case linux_load_kernel load_file m (ascii (bc_kernel c))
                (if bc_initrd c \<noteq> [] then Some (ascii (bc_initrd c)) else None) (Some (ascii (bc_cmdline c))) of
           None \<Rightarrow> None
         | Some (Boot_Failed r) \<Rightarrow> Some None
         | Some out \<Rightarrow> Some (Some out))
      else Some None)"

section \<open>The BloodChain entry of the menu\<close>

text \<open>What the wrapper relies on: the pages for the header, the loader for files (the status, the address and the size
  it stores, and the memory), whether a file exists and the rounding of a size, which are used without being
  defined in the program, the tables of the firmware, the framebuffer and the variable \<^verbatim>\<open>SecureBoot\<close>. The kernel
  is entered whether or not the boot services could be left, so that step is left out.\<close>

record bloodchain_env =
  be_pages :: "efi_status \<times> u64"
  be_load :: "string \<Rightarrow> u64 \<Rightarrow> mem \<Rightarrow> efi_status \<times> u64 \<times> u64 \<times> mem"
  be_exists :: "string \<Rightarrow> bool"
  be_align_up :: "u64 \<Rightarrow> u64 \<Rightarrow> u64"
  be_rsdp :: u64
  be_smbios :: "u64 ptr"
  be_framebuffer :: "u64 ptr"
  be_secure :: "efi_status \<times> u8"

definition bloodchain_cmdline :: "u8 list" where
  "bloodchain_cmdline = ascii ''root=/dev/sda1 ro''"

definition bloodchain_initrd :: "bloodchain_env \<Rightarrow> u64 \<Rightarrow> u64 \<Rightarrow> mem \<Rightarrow> mem cmem" where
  "bloodchain_initrd E hdr at m =
     (if be_exists E ''initrd.img'' then
        (let (st, a, n, m') = be_load E ''initrd.img'' at m in
         if \<not> EFI_ERROR st \<and> 0 < n then bcbp_add_module m' hdr a n (Some (ascii ''initrd'')) 2 None else Some m')
      else Some m)"

definition bloodchain_tables :: "bloodchain_env \<Rightarrow> u64 \<Rightarrow> mem \<Rightarrow> mem" where
  "bloodchain_tables E hdr m =
     (let m1 = (if be_rsdp E \<noteq> 0 then bcbp_set_acpi_rsdp m hdr (be_rsdp E) else m);
          m2 = (case be_smbios E of None \<Rightarrow> m1 | Some a \<Rightarrow> bcbp_set_smbios m1 hdr a);
          m3 = (case be_framebuffer E of None \<Rightarrow> m2 | Some a \<Rightarrow> bcbp_set_framebuffer m2 hdr a);
          m4 = (if EFI_ERROR (fst (be_secure E)) then m3 else wr m3 (hdr + 72) [snd (be_secure E)])
      in wr m4 (hdr + 74) [1])"

definition BootBloodchainWrapper :: "bloodchain_env \<Rightarrow> mem \<Rightarrow> exec_outcome cmem" where
  "BootBloodchainWrapper E m =
     (let (st, hdr) = be_pages E in
      if EFI_ERROR st then Some (Exec_Failed st)
      else
        let m1 = bcbp_init m hdr 0x100000 0; (st, kernel, n, m2) = be_load E ''kernel.elf'' 0x100000 m1 in
        if EFI_ERROR st then Some (Exec_Failed st)
        else do {
          m3 \<leftarrow> bcbp_add_module m2 hdr kernel n (Some (ascii ''kernel'')) 1 (Some bloodchain_cmdline);
          m4 \<leftarrow> bloodchain_initrd E hdr (kernel + be_align_up E n 0x1000) m3;
          let m5 = bloodchain_tables E hdr m4;
          r \<leftarrow> bcbp_validate m5 hdr;
          Some (if r \<noteq> 0 then Exec_Failed EFI_LOAD_ERROR else Exec_Entered kernel hdr m5)
        })"

section \<open>The parameters the kernel gets\<close>

lemma rd64_wr64_other [simp]:
  "p < 2 ^ 59 \<Longrightarrow> q < 2 ^ 59 \<Longrightarrow> p + 8 \<le> q \<or> q + 8 \<le> p \<Longrightarrow> rd64 (wr64 m (addr b q) v) (addr b p) = rd64 m (addr b p)"
  unfolding wr64_def by (rule rd64_cong, rule wr_byte_other) auto

lemma rd64_wr32_other [simp]:
  "p < 2 ^ 59 \<Longrightarrow> q < 2 ^ 59 \<Longrightarrow> p + 8 \<le> q \<or> q + 4 \<le> p \<Longrightarrow> rd64 (wr32 m (addr b q) v) (addr b p) = rd64 m (addr b p)"
  unfolding wr32_def by (rule rd64_cong, rule wr_byte_other) auto

lemma rd64_zeros:
  "p < 2 ^ 59 \<Longrightarrow> n < 2 ^ 59 \<Longrightarrow> p + 8 \<le> n \<Longrightarrow> rd64 (wr m (addr b 0) (replicate n 0)) (addr b p) = 0"
  by (simp add: rd64_addr rd32_addr wr_addr be32_def)

definition params_ok :: "mem \<Rightarrow> u64 \<Rightarrow> u64 \<Rightarrow> u64 \<Rightarrow> bool" where
  "params_ok m b k n \<longleftrightarrow> rd32 m (addr b 0) = 0x12345678 \<and> rd32 m (addr b 4) = 1 \<and> rd64 m (addr b 8) = k \<and>
     rd64 m (addr b 16) = n \<and> rd32 m (addr b 24) \<in> {1, 3} \<and> rd64 m (addr b 64) = 0"

lemma params_base_ok: "params_ok (params_base 336 m (addr b 0) k n) b k n"
  by (simp add: params_ok_def params_base_def Let_def rd64_zeros)

lemma params_framebuffer_ok: "params_ok m b k n \<Longrightarrow> params_ok (params_framebuffer m (addr b 0) fb) b k n"
  by (auto simp: params_ok_def params_framebuffer_def Let_def split: prod.split)

lemma params_coreboot_fb_ok: "params_ok m b k n \<Longrightarrow> params_ok (params_coreboot_fb cb m (addr b 0)) b k n"
  by (simp add: params_coreboot_fb_def params_framebuffer_ok split: option.split)

lemma params_memory_ok: "params_ok m b k n \<Longrightarrow> params_ok (wr64 m (addr b 56) v) b k n"
  by (simp add: params_ok_def)

lemma final_params_ok: "params_ok (final_params cb bs ds m k n (addr b 0)) b k n"
  by (simp add: final_params_def Let_def params_base_ok params_framebuffer_ok params_coreboot_fb_ok params_memory_ok split: option.split)

lemma exit_entered:
  assumes "ExitBootServicesAndExecuteKernel cb bs m k n p = Some (Exec_Entered e p' m', ev)"
  shows "e = k \<and> p' = p \<and> params_ok m' p k n \<and> ValidateBootParameters m' p \<and>
    (\<exists>ev1 ev2. ev = ev1 @ Bs_Exit (bs_exit bs) # ev2 \<and> \<not> EFI_ERROR (bs_exit bs) \<and> Bs_Print \<in> set ev2)"
proof -
  have p: "p = addr p 0" by (simp add: addr_def)
  obtain ds ev0 where "get_memory_map bs = Some (Inr ds, ev0)" "\<not> EFI_ERROR (bs_exit bs)"
    "ValidateBootParameters (final_params cb bs ds m k n p) p" "e = k" "p' = p" "m' = final_params cb bs ds m k n p"
    "ev = ev0 @ Bs_Exit (bs_exit bs) # ((if cb = None then [Bs_Locate] else []) @ [Bs_Print, Bs_Print, Bs_Print, Bs_Enter])"
    using assms by (auto simp: ExitBootServicesAndExecuteKernel_def Let_def split: option.splits sum.splits if_splits)
  note d = this
  have "params_ok (final_params cb bs ds m k n p) p k n" using final_params_ok [of cb bs ds m k n p] p by simp
  moreover have "\<exists>ev1 ev2. ev = ev1 @ Bs_Exit (bs_exit bs) # ev2 \<and> \<not> EFI_ERROR (bs_exit bs) \<and> Bs_Print \<in> set ev2"
    using d(2,7) by (intro exI [of _ ev0]
        exI [of _ "(if cb = None then [Bs_Locate] else []) @ [Bs_Print, Bs_Print, Bs_Print, Bs_Enter]"]) simp
  ultimately show ?thesis using d by simp
qed

lemma exec_entered:
  assumes "main_ExecuteKernel cb bs m k n initrd = Some (Exec_Entered e p m', ev)"
  obtains m0 ev0 ev1 where "ExitBootServicesAndExecuteKernel cb bs m0 k n p = Some (Exec_Entered e p m', ev1)" "ev = ev0 @ ev1"
proof (cases cb)
  case (Some c)
  obtain ev2 where "ExecuteKernelWithCoreboot c bs m k n initrd = Some (Exec_Entered e p m', ev2)" "ev = Bs_Print # ev2"
    using assms Some by (auto simp: main_ExecuteKernel_def)
  then obtain m0 q pr ev1 where x: "ExitBootServicesAndExecuteKernel (Some c) bs m0 k n q = Some (Exec_Entered e p m', ev1)"
      "ev = Bs_Print # pr @ ev1"
    by (auto simp: ExecuteKernelWithCoreboot_def Let_def split: option.splits if_splits)
  then show thesis using that [of m0 ev1 "Bs_Print # pr"] exit_entered [OF x(1)] Some by auto
next
  case None
  obtain ev2 where "ExecuteKernelWithUefi bs m k n = Some (Exec_Entered e p m', ev2)" "ev = Bs_Print # ev2"
    using assms None by (auto simp: main_ExecuteKernel_def)
  then obtain q pr ev1 where x: "ExitBootServicesAndExecuteKernel None bs m k n q = Some (Exec_Entered e p m', ev1)"
      "ev = Bs_Print # pr @ ev1"
    by (auto simp: ExecuteKernelWithUefi_def Let_def split: option.splits sum.splits if_splits)
  then show thesis using that [of m ev1 "Bs_Print # pr"] exit_entered [OF x(1)] None by auto
qed

text \<open>C8: Whenever the boot manager enters a kernel, it enters it at the buffer it was loaded to, with boot
  parameters that pass the validation and name that buffer and its size. The initial ram disk is never named,
  even when one is given, since the parameters are written a second time without it; and the console of the
  boot services is used after they have been left.\<close>

theorem kernel_entered_with_parameters:
  assumes "main_ExecuteKernel cb bs m KernelBuffer KernelSize InitrdBuffer = Some (Exec_Entered entry p m', ev)"
  shows "entry = KernelBuffer \<and> ValidateBootParameters m' p \<and> rd64 m' (p + 8) = KernelBuffer \<and> rd64 m' (p + 16) = KernelSize \<and>
    rd64 m' (p + 64) = 0 \<and> rd32 m' (p + 24) AND 4 = 0 \<and>
    (\<exists>ev1 ev2. ev = ev1 @ Bs_Exit (bs_exit bs) # ev2 \<and> \<not> EFI_ERROR (bs_exit bs) \<and> Bs_Print \<in> set ev2)"
proof -
  obtain m0 ev0 ev1 where x: "ExitBootServicesAndExecuteKernel cb bs m0 KernelBuffer KernelSize p = Some (Exec_Entered entry p m', ev1)"
    and ev: "ev = ev0 @ ev1" using exec_entered [OF assms] .
  note e = exit_entered [OF x]
  then obtain ea eb where "ev1 = ea @ Bs_Exit (bs_exit bs) # eb" "\<not> EFI_ERROR (bs_exit bs)" "Bs_Print \<in> set eb" by blast
  then have "\<exists>ea eb. ev = ea @ Bs_Exit (bs_exit bs) # eb \<and> \<not> EFI_ERROR (bs_exit bs) \<and> Bs_Print \<in> set eb"
    by (intro exI [of _ "ev0 @ ea"] exI [of _ eb]) (simp add: ev)
  then show ?thesis using e by (auto simp: params_ok_def addr_def)
qed

definition sample_services :: boot_services where
  "sample_services =
     \<lparr>bs_map_size = (EFI_BUFFER_TOO_SMALL, 48), bs_pool = (\<lambda>n. True), bs_map = (EFI_SUCCESS, [(7, 0x200000, 16)]),
      bs_exit = EFI_SUCCESS, bs_gop = (EFI_DEVICE_ERROR, None)\<rparr>"

theorem kernel_entered_with_parameters_witness:
  "\<exists>m' ev. main_ExecuteKernel None sample_services (\<lambda>x. 0) 0x400000 0x8000 0x900000 =
      Some (Exec_Entered 0x400000 0x201000 m', ev) \<and> rd64 m' 0x201008 = 0x400000 \<and> rd64 m' 0x201040 = 0"
proof -
  have e: "\<not> EFI_ERROR EFI_SUCCESS" "EFI_ERROR EFI_DEVICE_ERROR"
    by (simp_all add: EFI_ERROR_def EFI_SUCCESS_def EFI_DEVICE_ERROR_def bit_or_iff bit_push_bit_iff)
  have "addr 0x201000 0 \<noteq> 0" by (simp add: addr_def)
  then have "ValidateBootParameters (wr64 (params_base 336 (\<lambda>x. 0) (addr 0x201000 0) 0x400000 0x8000) (addr 0x201000 56) v) (addr 0x201000 0)" for v
    by (simp add: ValidateBootParameters_def params_base_def Let_def)
  then have v: "ValidateBootParameters (wr64 (params_base 336 (\<lambda>x. 0) 0x201000 0x400000 0x8000) 0x201038 v) 0x201000" for v
    by (simp add: addr_def)
  then obtain m' ev where x: "main_ExecuteKernel None sample_services (\<lambda>x. 0) 0x400000 0x8000 0x900000 =
      Some (Exec_Entered 0x400000 0x201000 m', ev)"
    by (simp add: main_ExecuteKernel_def ExecuteKernelWithUefi_def ExitBootServicesAndExecuteKernel_def get_memory_map_def
        sample_services_def final_params_def uefi_framebuffer_def Let_def e)
  then show ?thesis using kernel_entered_with_parameters [OF x] by simp
qed

text \<open>The payload enters the kernel where the file was loaded, but tells it that it is in the largest region of
  memory, whose beginning is a page below the parameters; the kernel is not moved there.\<close>

lemma payload_names_largest_region:
  assumes "BloodhornExecuteKernel cb m kernel_buffer n = Some (Exec_Entered entry p m')"
  obtains es where "CorebootGetMemoryMap m cb = Some es" "entry = kernel_buffer"
    "p = fst (largest_ram es (0, 0)) + 0x1000" "rd64 m' (p + 8) = fst (largest_ram es (0, 0))"
proof -
  obtain es where es: "CorebootGetMemoryMap m cb = Some es" "entry = kernel_buffer" and p: "p = fst (largest_ram es (0, 0)) + 0x1000"
    and m': "m' = wr64 (params_coreboot_fb cb (params_base 64 m p (fst (largest_ram es (0, 0))) (ucast n)) p) (p + 56)
      (CorebootGetTotalMemory (params_coreboot_fb cb (params_base 64 m p (fst (largest_ram es (0, 0))) (ucast n)) p) cb)"
    using assms by (auto simp: BloodhornExecuteKernel_def Let_def split: option.splits if_splits)
  let ?k = "fst (largest_ram es (0, 0))"
  have "rd64 (wr64 (params_coreboot_fb cb (params_base 64 m (addr p 0) ?k (ucast n)) (addr p 0)) (addr p 56) v) (addr p 8) = ?k" for v
    by (simp add: params_base_def params_coreboot_fb_def params_framebuffer_def Let_def split: option.split prod.split)
  then have "rd64 m' (p + 8) = ?k" unfolding m' by (simp add: addr_def)
  then show thesis using that es p by blast
qed

section \<open>The digest table is empty\<close>

text \<open>The boot manager does not check the digest of the kernel: with the table of digests as the program has
  it, which nothing writes to, loading and verifying a kernel is loading a file, whatever the hash function.\<close>

lemma kernel_digest_never_checked:
  "main_LoadAndVerifyKernel digest g_known_hashes pool root f = LoadFileRaw pool root f"
proof -
  have "(case read_whole pool f 0 of None \<Rightarrow> None | Some (st, n, buf) \<Rightarrow>
      if EFI_ERROR st then Some (st, 0, []) else Some (EFI_SUCCESS, n, buf)) = read_whole pool f 0"
    by (auto simp: read_whole_def Let_def split: option.split prod.split)
  moreover have "g_known_hashes ! 0 = 0" unfolding g_known_hashes_def by (rule nth_replicate) simp
  ultimately show ?thesis by (cases "read_whole pool f 0") (auto simp: main_LoadAndVerifyKernel_def LoadFileRaw_def)
qed

section \<open>The countdown ends\<close>

lemma poll_second_eq:
  "poll_second keys t n = (r, t') \<Longrightarrow> (r \<longleftrightarrow> (\<exists>i < n. keys (t + i))) \<and> (\<not> r \<longrightarrow> t' = t + n)"
proof (induction keys t n rule: poll_second.induct)
  case (2 keys t n)
  show ?case
  proof (cases "keys t")
    case True
    then show ?thesis using 2 by auto
  next
    case False
    then have "poll_second keys (t + 1) n = (r, t')" using 2 by simp
    with 2(1) [OF False this] have IH: "r \<longleftrightarrow> (\<exists>i < n. keys (t + 1 + i))" "\<not> r \<longrightarrow> t' = t + 1 + n" by auto
    have "(\<exists>i < Suc n. keys (t + i)) \<longleftrightarrow> (\<exists>i < n. keys (t + 1 + i))" using False by (auto simp: Ex_less_Suc2)
    then show ?thesis using IH by auto
  qed
qed auto

lemma countdown_eq: "0 < n \<Longrightarrow> countdown keys t n \<longleftrightarrow> (\<exists>i < 10 * n. keys (t + i))"
proof (induction n arbitrary: t)
  case (Suc n)
  obtain r t' where p: "poll_second keys t 10 = (r, t')" by fastforce
  note q = poll_second_eq [OF p]
  have split: "(\<exists>i < 10 * Suc n. keys (t + i)) \<longleftrightarrow> (\<exists>i < 10. keys (t + i)) \<or> (\<exists>i < 10 * n. keys (t + 10 + i))"
  proof
    assume "\<exists>i < 10 * Suc n. keys (t + i)"
    then obtain i where i: "i < 10 * Suc n" "keys (t + i)" by blast
    show "(\<exists>i < 10. keys (t + i)) \<or> (\<exists>i < 10 * n. keys (t + 10 + i))"
    proof (cases "i < 10")
      case False
      then have "i - 10 < 10 * n \<and> keys (t + 10 + (i - 10))" using i by simp
      then show ?thesis by blast
    qed (use i in blast)
  next
    assume "(\<exists>i < 10. keys (t + i)) \<or> (\<exists>i < 10 * n. keys (t + 10 + i))"
    then show "\<exists>i < 10 * Suc n. keys (t + i)"
    proof
      assume "\<exists>i < 10. keys (t + i)"
      then show ?thesis by (metis add_lessD1 less_trans mult_Suc_right not_add_less1 not_less_eq trans_less_add1)
    next
      assume "\<exists>i < 10 * n. keys (t + 10 + i)"
      then obtain i where "i < 10 * n" "keys (t + 10 + i)" by blast
      then show ?thesis by (intro exI [of _ "10 + i"]) (simp add: add.assoc)
    qed
  qed
  show ?case
  proof (cases "n = 0")
    case True
    then show ?thesis using q p by auto
  next
    case False
    then show ?thesis using q p Suc.IH [of t'] split by auto
  qed
qed simp

text \<open>C20: The default entry is booted unless somebody wants the menu. With a timeout of \<open>n\<close> seconds, a kernel
  configured and \<^verbatim>\<open>linux\<close> as the default entry, the countdown ends after at most \<open>10 n\<close> polls of the keyboard: a key
  in one of them opens the menu, and otherwise the kernel of the configuration is loaded with its ram disk and
  its command line, and entered unless the loader refuses it.\<close>

theorem autoboot_after_countdown:
  assumes "0 < bc_menu_timeout c" and "bc_default_entry c = ''linux''" and "bc_kernel c \<noteq> []"
    and "linux_load_kernel load_file m (ascii (bc_kernel c))
           (if bc_initrd c \<noteq> [] then Some (ascii (bc_initrd c)) else None) (Some (ascii (bc_cmdline c))) = Some out"
  shows "autoboot load_file m keys c =
    Some (if \<exists>i < 10 * nat (bc_menu_timeout c). keys i then None
          else case out of Boot_Failed r \<Rightarrow> None | Boot_Jump a args m' \<Rightarrow> Some out)"
proof -
  have "countdown keys 0 (nat (bc_menu_timeout c)) \<longleftrightarrow> (\<exists>i < 10 * nat (bc_menu_timeout c). keys i)"
    using countdown_eq [of "nat (bc_menu_timeout c)" keys 0] assms(1) by simp
  then show ?thesis using assms by (simp add: autoboot_def split: boot_outcome.split)
qed

definition sample_config :: BOOT_CONFIG where
  "sample_config =
     \<lparr>bc_default_entry = ''linux'', bc_menu_timeout = 5, bc_kernel = ''k'', bc_initrd = [], bc_cmdline = [],
      bc_tpm_enabled = False, bc_secure_boot = False, bc_use_gui = False, bc_font_path = [], bc_font_size = 12,
      bc_header_font_size = 16, bc_language = ''en'', bc_enable_networking = False\<rparr>"

theorem autoboot_after_countdown_witness:
  "\<exists>m'. autoboot (\<lambda>q. Some (linux_sample, 516)) (\<lambda>x. 0) (\<lambda>i. False) sample_config =
      Some (Some (Boot_Jump 0x100000 [0x90000] m')) \<and>
    autoboot (\<lambda>q. Some (linux_sample, 516)) (\<lambda>x. 0) (\<lambda>i. i = 49) sample_config = Some None"
proof -
  let ?lf = "\<lambda>q :: u8 list. Some (linux_sample, 516 :: u32)"
  have c: "0 < bc_menu_timeout sample_config" "bc_default_entry sample_config = ''linux''" "bc_kernel sample_config \<noteq> []"
    "bc_menu_timeout sample_config = 5" "bc_initrd sample_config = []" "bc_cmdline sample_config = []"
    by (simp_all add: sample_config_def)
  have "(unat (512 :: u32)) = 512" "unat (516 - 512 :: u32) = 4" by simp_all
  then obtain m' where m': "linux_load_kernel ?lf (\<lambda>x. 0) (ascii (bc_kernel sample_config))
      (if bc_initrd sample_config \<noteq> [] then Some (ascii (bc_initrd sample_config)) else None)
      (Some (ascii (bc_cmdline sample_config))) = Some (Boot_Jump 0x100000 [0x90000] m')"
    by (simp add: linux_load_kernel_def linux_start_def linux_sample_def peek32_def peek_def le32_at_def be32_def nth_append
        linux_setup_size_def copy_in_def linux_initrd_def linux_params_def Let_def c)
  note a = autoboot_after_countdown [OF c(1,2,3) m']
  have "\<exists>i < 10 * nat (bc_menu_timeout sample_config). i = 49" using c(4) by simp
  then show ?thesis using a [of "\<lambda>i. False"] a [of "\<lambda>i. i = 49"] by auto
qed

end
