(* ===== verification/Boot_Menu.thy ===== *)
theory Boot_Menu
  imports Main_Config
begin

text \<open>
  The boot menu, \<^verbatim>\<open>boot/menu.c\<close>, with the mouse of \<^verbatim>\<open>boot/mouse.c\<close>: the table of entries, the hot keys, what is shown and
  the loop that handles the keyboard and the mouse. Drawing itself is left out; what it shows is the list \<open>DrawBootMenu\<close>.
  A function to boot an entry is the status that it returns. Every turn of the loop is one \<open>menu_input\<close>.
\<close>

section \<open>The table of entries\<close>

record menu_entry =
  me_name :: "u16 list"
  me_boot :: "efi_status ptr"

record menu =
  BootEntries :: "menu_entry list"
  SelectedEntry :: int
  MenuScrollOffset :: int
  BootEntryHotkeys :: "u16 list"

definition empty_menu :: menu where
  "empty_menu = \<lparr>BootEntries = [], SelectedEntry = 0, MenuScrollOffset = 0, BootEntryHotkeys = replicate 128 0\<rparr>"

definition AddBootEntry :: "u16 list \<Rightarrow> efi_status ptr \<Rightarrow> menu \<Rightarrow> efi_status \<times> menu" where
  "AddBootEntry Name BootFunction M =
     (if 128 \<le> length (BootEntries M) then (EFI_OUT_OF_RESOURCES, M)
      else (EFI_SUCCESS, M\<lparr>BootEntries := BootEntries M @ [\<lparr>me_name = take 63 Name, me_boot = BootFunction\<rparr>]\<rparr>))"

section \<open>Hot keys\<close>

text \<open>\<open>towlower\<close> in the C locale.\<close>

definition towlower :: "u16 \<Rightarrow> u16" where
  "towlower c = (if 65 \<le> c \<and> c \<le> 90 then c + 32 else c)"

fun pick_hotkey :: "u16 list \<Rightarrow> u16 list \<Rightarrow> u16 option" where
  "pick_hotkey used [] = None"
| "pick_hotkey used (n # name) =
     (let c = towlower n in if 32 \<le> c \<and> c < 128 \<and> c \<notin> set used then Some c else pick_hotkey used name)"

text \<open>An entry without a free letter keeps the key that it had.\<close>

fun assign_hotkeys :: "u16 list \<Rightarrow> menu_entry list \<Rightarrow> u16 list \<Rightarrow> u16 list" where
  "assign_hotkeys used (e # es) (h # hs) =
     (case pick_hotkey used (me_name e) of
        None \<Rightarrow> h # assign_hotkeys used es hs
      | Some c \<Rightarrow> c # assign_hotkeys (c # used) es hs)"
| "assign_hotkeys used es hs = hs"

definition AssignHotkeys :: "menu \<Rightarrow> menu" where
  "AssignHotkeys M = M\<lparr>BootEntryHotkeys := assign_hotkeys [] (BootEntries M) (BootEntryHotkeys M)\<rparr>"

section \<open>What is shown\<close>

text \<open>The indices from the scroll offset on, ten at most. A negative offset is a very large index.\<close>

definition visible :: "menu \<Rightarrow> nat list" where
  "visible M =
     (if MenuScrollOffset M < 0 then []
      else [nat (MenuScrollOffset M)..<min (length (BootEntries M)) (nat (MenuScrollOffset M) + 10)])"

definition entry_label :: "menu \<Rightarrow> nat \<Rightarrow> u16 list" where
  "entry_label M i =
     (let name = me_name (BootEntries M ! i); h = BootEntryHotkeys M ! i in if h \<noteq> 0 then [0x28, h, 0x29, 0x20] @ name else name)"

text \<open>The entries with the one that is highlighted, and the arrows for more entries above and below.\<close>

definition DrawBootMenu :: "menu \<Rightarrow> (bool \<times> u16 list) list \<times> bool \<times> bool" where
  "DrawBootMenu M =
     (map (\<lambda>i. (int i = SelectedEntry M, entry_label M i)) (visible M), 0 < MenuScrollOffset M,
      MenuScrollOffset M + 10 < int (length (BootEntries M)))"

section \<open>The mouse\<close>

record mouse_state =
  ms_x :: int
  ms_y :: int
  ms_left :: bool
  ms_right :: bool

text \<open>\<open>None\<close> for the pointer means that there is no pointer, or an error; the sums of 32-bit integers must not
  overflow.\<close>

definition int32 :: "int \<Rightarrow> bool" where
  "int32 x \<longleftrightarrow> - (2 ^ 31) \<le> x \<and> x < 2 ^ 31"

definition GetMouseState :: "(int \<times> int \<times> bool \<times> bool) option \<Rightarrow> mouse_state \<Rightarrow> mouse_state cmem" where
  "GetMouseState pointer s =
     (case pointer of
        None \<Rightarrow> Some s
      | Some (dx, dy, l, r) \<Rightarrow>
          if int32 (ms_x s + dx) \<and> int32 (ms_y s + dy)
          then Some \<lparr>ms_x = ms_x s + dx, ms_y = ms_y s + dy, ms_left = l, ms_right = r\<rparr>
          else None)"

section \<open>The loop\<close>

record menu_input =
  in_pointer :: "(int \<times> int \<times> bool \<times> bool) option"
  in_wait :: efi_status
  in_read :: efi_status
  in_char :: u16
  in_scan :: u16

datatype menu_result = Menu_Again menu mouse_state | Menu_Return efi_status menu

definition EFI_ABORTED :: efi_status where
  "EFI_ABORTED = push_bit 63 1 OR 21"

text \<open>Booting the selected entry; entries behind the last one are zero.\<close>

definition boot_selected :: "menu \<Rightarrow> efi_status cmem" where
  "boot_selected M =
     (if SelectedEntry M < 0 \<or> 128 \<le> SelectedEntry M then None
      else if length (BootEntries M) \<le> nat (SelectedEntry M) then Some EFI_SUCCESS
      else Some (case me_boot (BootEntries M ! nat (SelectedEntry M)) of None \<Rightarrow> EFI_SUCCESS | Some st \<Rightarrow> st))"

definition mouse_over :: "int \<Rightarrow> menu \<Rightarrow> mouse_state \<Rightarrow> nat \<Rightarrow> bool" where
  "mouse_over width M s i \<longleftrightarrow>
     (let TextX = width div 4 + 20; entryY = 120 + (int i - MenuScrollOffset M) * 50 in
      TextX \<le> ms_x s \<and> ms_x s < TextX + width div 2 - 40 \<and> entryY \<le> ms_y s \<and> ms_y s < entryY + 40)"

fun mouse_select :: "int \<Rightarrow> mouse_state \<Rightarrow> nat list \<Rightarrow> menu \<Rightarrow> menu_result cmem" where
  "mouse_select width s [] M = Some (Menu_Again M s)"
| "mouse_select width s (i # is) M =
     (if mouse_over width M s i then
        (let M1 = M\<lparr>SelectedEntry := int i\<rparr> in
         if ms_left s then map_option (\<lambda>st. Menu_Return st M1) (boot_selected M1) else mouse_select width s is M1)
      else mouse_select width s is M)"

fun first_hotkey :: "u16 \<Rightarrow> u16 list \<Rightarrow> nat \<Rightarrow> nat option" where
  "first_hotkey c [] i = None"
| "first_hotkey c (h # hs) i = (if h = c then Some i else first_hotkey c hs (i + 1))"

definition hotkey :: "u16 \<Rightarrow> menu \<Rightarrow> menu" where
  "hotkey ch M =
     (if ch = 0 then M
      else case first_hotkey (towlower ch) (take (length (BootEntries M)) (BootEntryHotkeys M)) 0 of
             None \<Rightarrow> M
           | Some i \<Rightarrow> M\<lparr>SelectedEntry := int i\<rparr>)"

definition scan_up :: "menu \<Rightarrow> menu" where
  "scan_up M =
     (let n = int (length (BootEntries M)) in
      if 0 < SelectedEntry M then
        (let M1 = M\<lparr>SelectedEntry := SelectedEntry M - 1\<rparr> in
         if SelectedEntry M1 < MenuScrollOffset M1 then M1\<lparr>MenuScrollOffset := MenuScrollOffset M1 - 1\<rparr> else M1)
      else M\<lparr>SelectedEntry := n - 1, MenuScrollOffset := (if 10 < n then n - 10 else 0)\<rparr>)"

definition scan_down :: "menu \<Rightarrow> menu" where
  "scan_down M =
     (if (of_int (SelectedEntry M) :: u64) < of_nat (length (BootEntries M)) - 1 then
        (let M1 = M\<lparr>SelectedEntry := SelectedEntry M + 1\<rparr> in
         if MenuScrollOffset M1 + 10 \<le> SelectedEntry M1 then M1\<lparr>MenuScrollOffset := MenuScrollOffset M1 + 1\<rparr> else M1)
      else M\<lparr>SelectedEntry := 0, MenuScrollOffset := 0\<rparr>)"

definition menu_key :: "u16 \<Rightarrow> u16 \<Rightarrow> mouse_state \<Rightarrow> menu \<Rightarrow> menu_result cmem" where
  "menu_key ch scan s M =
     (let M1 = hotkey ch M in
      if ch = 0x0D then map_option (\<lambda>st. Menu_Return st M1) (boot_selected M1)
      else if ch = 0 then
        (if scan = 1 then Some (Menu_Again (scan_up M1) s)
         else if scan = 2 then Some (Menu_Again (scan_down M1) s)
         else if scan = 0x17 then Some (Menu_Return EFI_ABORTED M1)
         else Some (Menu_Again M1 s))
      else Some (Menu_Again M1 s))"

text \<open>One turn; \<open>width\<close> is the horizontal resolution, which is read through a null pointer without graphics.\<close>

definition menu_turn :: "int ptr \<Rightarrow> menu_input \<Rightarrow> mouse_state \<Rightarrow> menu \<Rightarrow> menu_result cmem" where
  "menu_turn width inp s M = do {
     s1 \<leftarrow> GetMouseState (in_pointer inp) s;
     w \<leftarrow> width;
     r \<leftarrow> mouse_select w s1 (visible M) M;
     (case r of
        Menu_Return st M1 \<Rightarrow> Some r
      | Menu_Again M1 s2 \<Rightarrow>
          if EFI_ERROR (in_wait inp) then Some r
          else if EFI_ERROR (in_read inp) then Some r
          else menu_key (in_char inp) (in_scan inp) s2 M1)
   }"

fun menu_loop :: "int ptr \<Rightarrow> menu_input list \<Rightarrow> mouse_state \<Rightarrow> menu \<Rightarrow> menu_result cmem" where
  "menu_loop width [] s M = Some (Menu_Again M s)"
| "menu_loop width (inp # inps) s M =
     (case menu_turn width inp s M of
        None \<Rightarrow> None
      | Some (Menu_Return st M') \<Rightarrow> Some (Menu_Return st M')
      | Some (Menu_Again M' s') \<Rightarrow> menu_loop width inps s' M')"

text \<open>An empty menu gets an entry that only leaves it; its name is the text \<^verbatim>\<open>Exit to UEFI Firmware\<close>.\<close>

definition exit_name :: "u16 list" where
  "exit_name = map (\<lambda>c. of_nat (of_char c)) ''Exit to UEFI Firmware''"

definition ShowBootMenu :: "int ptr \<Rightarrow> menu_input list \<Rightarrow> menu \<Rightarrow> menu_result cmem" where
  "ShowBootMenu width inps M =
     (let M1 = AssignHotkeys M;
          M2 = (if BootEntries M1 = [] then snd (AddBootEntry exit_name None M1) else M1)
      in menu_loop width inps \<lparr>ms_x = 0, ms_y = 0, ms_left = False, ms_right = False\<rparr> M2)"

section \<open>The invariant of the menu\<close>

definition menu_wf :: "menu \<Rightarrow> bool" where
  "menu_wf M \<longleftrightarrow>
     length (BootEntries M) \<le> 128 \<and> length (BootEntryHotkeys M) = 128 \<and>
     (\<forall>h \<in> set (BootEntryHotkeys M). h = 0 \<or> 32 \<le> h) \<and>
     0 \<le> SelectedEntry M \<and> SelectedEntry M < max 1 (int (length (BootEntries M))) \<and>
     0 \<le> MenuScrollOffset M \<and> MenuScrollOffset M \<le> max 0 (int (length (BootEntries M)) - 10)"

lemma menu_wf_empty: "menu_wf empty_menu"
  by (simp add: menu_wf_def empty_menu_def)

lemma menu_wf_add: "menu_wf M \<Longrightarrow> menu_wf (snd (AddBootEntry name f M))"
  by (auto simp: menu_wf_def AddBootEntry_def)

lemma pick_hotkey_eq:
  "pick_hotkey used name = Some c \<Longrightarrow> 32 \<le> c \<and> c < 128 \<and> c \<notin> set used \<and> towlower c = c"
proof (induction name)
  case (Cons n name)
  have "towlower (towlower n) = towlower n"
    by (cases "65 \<le> n \<and> n \<le> 90") (auto simp: towlower_def word_le_nat_alt unat_add_small)
  then show ?case using Cons by (auto simp: Let_def split: if_splits)
qed simp

lemma length_assign_hotkeys [simp]: "length (assign_hotkeys used es hs) = length hs"
  by (induction used es hs rule: assign_hotkeys.induct) (auto split: option.split)

lemma set_assign_hotkeys:
  "h \<in> set (assign_hotkeys used es hs) \<Longrightarrow> h \<in> set hs \<or> 32 \<le> h"
  by (induction used es hs rule: assign_hotkeys.induct) (auto split: option.splits dest: pick_hotkey_eq)

lemma menu_wf_assign: "menu_wf M \<Longrightarrow> menu_wf (AssignHotkeys M)"
  using set_assign_hotkeys [of _ "[]" "BootEntries M" "BootEntryHotkeys M"] by (auto simp: menu_wf_def AssignHotkeys_def)

text \<open>A menu whose table is not empty, as the loop has it; the loop never changes the table or the keys.\<close>

definition menu_ok :: "menu_entry list \<Rightarrow> u16 list \<Rightarrow> menu \<Rightarrow> bool" where
  "menu_ok es hs M \<longleftrightarrow> menu_wf M \<and> es \<noteq> [] \<and> BootEntries M = es \<and> BootEntryHotkeys M = hs"

lemma first_hotkey_less: "first_hotkey c hs i = Some j \<Longrightarrow> i \<le> j \<and> j < i + length hs \<and> hs ! (j - i) = c"
proof (induction hs arbitrary: i)
  case (Cons h hs)
  show ?case
  proof (cases "h = c")
    case False
    then have "i + 1 \<le> j \<and> j < i + 1 + length hs \<and> hs ! (j - (i + 1)) = c" using Cons.IH [of "i + 1"] Cons.prems by simp
    then show ?thesis by (auto simp: nth_Cons')
  qed (use Cons.prems in auto)
qed simp

lemma menu_ok_hotkey: "menu_ok es hs M \<Longrightarrow> menu_ok es hs (hotkey ch M)"
  by (auto simp: menu_ok_def menu_wf_def hotkey_def dest!: first_hotkey_less split: option.split)

lemma menu_ok_up: "menu_ok es hs M \<Longrightarrow> menu_ok es hs (scan_up M)"
  by (auto simp: menu_ok_def menu_wf_def scan_up_def Let_def)

lemma down_guard:
  assumes "menu_ok es hs M"
  shows "(of_int (SelectedEntry M) :: u64) < of_nat (length (BootEntries M)) - 1 \<longleftrightarrow> SelectedEntry M < int (length es) - 1"
proof -
  have a: "0 \<le> SelectedEntry M" "SelectedEntry M < 128" "0 < length es" "length es \<le> 128" "BootEntries M = es"
    using assms by (auto simp: menu_ok_def menu_wf_def)
  have s: "unat (of_int (SelectedEntry M) :: u64) = nat (SelectedEntry M)"
  proof -
    have "(of_int (SelectedEntry M) :: u64) = of_nat (nat (SelectedEntry M))" using a(1) by (simp add: of_nat_nat)
    then show ?thesis using a(1,2) by (simp only:) (rule unat_of_nat_small, simp)
  qed
  have "(of_nat (length es) - 1 :: u64) = of_nat (length es - 1)" using a(3) by (cases es) simp_all
  then have "unat (of_nat (length es) - 1 :: u64) = length es - 1" using a(4) by (simp only:) (rule unat_of_nat_small, simp)
  then show ?thesis unfolding word_less_nat_alt a(5) s using a(1,3) by auto
qed

lemma scan_down_eq:
  assumes "menu_ok es hs M"
  shows "scan_down M =
    (if SelectedEntry M < int (length es) - 1
     then M\<lparr>SelectedEntry := SelectedEntry M + 1,
            MenuScrollOffset := (if MenuScrollOffset M + 10 \<le> SelectedEntry M + 1 then MenuScrollOffset M + 1 else MenuScrollOffset M)\<rparr>
     else M\<lparr>SelectedEntry := 0, MenuScrollOffset := 0\<rparr>)"
  unfolding scan_down_def Let_def down_guard [OF assms] by simp

lemma menu_ok_down: "menu_ok es hs M \<Longrightarrow> menu_ok es hs (scan_down M)"
  unfolding scan_down_eq by (auto simp: menu_ok_def menu_wf_def)

text \<open>What a turn of the loop may yield.\<close>

fun result_ok :: "menu_entry list \<Rightarrow> u16 list \<Rightarrow> menu_result \<Rightarrow> bool" where
  "result_ok es hs (Menu_Again M s) = menu_ok es hs M"
| "result_ok es hs (Menu_Return st M) \<longleftrightarrow> menu_ok es hs M \<and>
     (st = EFI_ABORTED \<or> st = (case me_boot (es ! nat (SelectedEntry M)) of None \<Rightarrow> EFI_SUCCESS | Some st \<Rightarrow> st))"

lemma menu_ok_range:
  assumes "menu_ok es hs M"
  shows "0 \<le> SelectedEntry M" and "nat (SelectedEntry M) < length es" and "SelectedEntry M < 128" and "BootEntries M = es"
proof -
  have "0 < length es" using assms by (simp add: menu_ok_def)
  then have m: "max 1 (int (length es)) = int (length es)" by (cases es) auto
  show "0 \<le> SelectedEntry M" "nat (SelectedEntry M) < length es" "SelectedEntry M < 128" "BootEntries M = es"
    using assms m by (auto simp: menu_ok_def menu_wf_def)
qed

lemma boot_selected_ok:
  "menu_ok es hs M \<Longrightarrow>
   boot_selected M = Some (case me_boot (es ! nat (SelectedEntry M)) of None \<Rightarrow> EFI_SUCCESS | Some st \<Rightarrow> st)"
  using menu_ok_range [of es hs M] by (simp add: boot_selected_def)

lemma mouse_select_ok:
  "menu_ok es hs M \<Longrightarrow> \<forall>i \<in> set is. i < length es \<Longrightarrow>
   \<exists>r. mouse_select w s is M = Some r \<and> result_ok es hs r \<and> (\<forall>M' s'. r = Menu_Again M' s' \<longrightarrow> s' = s)"
proof (induction "is" arbitrary: M)
  case (Cons i "is")
  show ?case
  proof (cases "mouse_over w M s i")
    case True
    have ok: "menu_ok es hs (M\<lparr>SelectedEntry := int i\<rparr>)" using Cons.prems by (auto simp: menu_ok_def menu_wf_def)
    show ?thesis
    proof (cases "ms_left s")
      case l: True
      then show ?thesis using True ok boot_selected_ok [OF ok] by simp
    next
      case False
      then show ?thesis using True Cons.IH [OF ok] Cons.prems(2) by simp
    qed
  next
    case False
    then show ?thesis using Cons by simp
  qed
qed simp

lemma menu_key_ok: "menu_ok es hs M \<Longrightarrow> \<exists>r. menu_key ch scan s M = Some r \<and> result_ok es hs r \<and> (\<forall>M' s'. r = Menu_Again M' s' \<longrightarrow> s' = s)"
  by (cases "ch = 0x0D") (auto simp: menu_key_def Let_def menu_ok_hotkey menu_ok_up menu_ok_down boot_selected_ok [OF menu_ok_hotkey])

lemma visible_less: "menu_ok es hs M \<Longrightarrow> \<forall>i \<in> set (visible M). i < length es"
  by (auto simp: visible_def menu_ok_def)

lemma menu_turn_ok:
  assumes "menu_ok es hs M" and "GetMouseState (in_pointer inp) s = Some s1"
  shows "\<exists>r. menu_turn (Some w) inp s M = Some r \<and> result_ok es hs r \<and> (\<forall>M' s'. r = Menu_Again M' s' \<longrightarrow> s' = s1)"
proof -
  obtain r where r: "mouse_select w s1 (visible M) M = Some r" "result_ok es hs r" "\<forall>M' s'. r = Menu_Again M' s' \<longrightarrow> s' = s1"
    using mouse_select_ok [OF assms(1) visible_less [OF assms(1)]] by blast
  show ?thesis
  proof (cases r)
    case (Menu_Again M1 s2)
    then show ?thesis using r assms(2) menu_key_ok [of es hs M1] by (auto simp: menu_turn_def)
  next
    case (Menu_Return st M1)
    then show ?thesis using r assms(2) by (simp add: menu_turn_def)
  qed
qed

fun mouse_fits :: "mouse_state \<Rightarrow> menu_input list \<Rightarrow> bool" where
  "mouse_fits s [] \<longleftrightarrow> True"
| "mouse_fits s (inp # inps) \<longleftrightarrow> (case GetMouseState (in_pointer inp) s of None \<Rightarrow> False | Some s' \<Rightarrow> mouse_fits s' inps)"

lemma menu_loop_ok:
  "menu_ok es hs M \<Longrightarrow> mouse_fits s inps \<Longrightarrow> \<exists>r. menu_loop (Some w) inps s M = Some r \<and> result_ok es hs r"
proof (induction inps arbitrary: s M)
  case (Cons inp inps)
  obtain s1 where s1: "GetMouseState (in_pointer inp) s = Some s1" "mouse_fits s1 inps"
    using Cons.prems(2) by (auto split: option.splits)
  obtain r where r: "menu_turn (Some w) inp s M = Some r" "result_ok es hs r" "\<forall>M' s'. r = Menu_Again M' s' \<longrightarrow> s' = s1"
    using menu_turn_ok [OF Cons.prems(1) s1(1)] by blast
  show ?case
  proof (cases r)
    case (Menu_Again M1 s2)
    then show ?thesis using r Cons.IH [of M1 s1] s1(2) by simp
  next
    case (Menu_Return st M1)
    then show ?thesis using r by simp
  qed
qed simp

lemma ShowBootMenu_start:
  assumes "menu_wf M"
  obtains M2 where "menu_ok (BootEntries M2) (BootEntryHotkeys M2) M2"
    "ShowBootMenu width inps M = menu_loop width inps \<lparr>ms_x = 0, ms_y = 0, ms_left = False, ms_right = False\<rparr> M2"
    "M2 = (if BootEntries M = [] then snd (AddBootEntry exit_name None (AssignHotkeys M)) else AssignHotkeys M)"
proof -
  let ?M2 = "if BootEntries M = [] then snd (AddBootEntry exit_name None (AssignHotkeys M)) else AssignHotkeys M"
  have "menu_ok (BootEntries ?M2) (BootEntryHotkeys ?M2) ?M2"
    using menu_wf_add [OF menu_wf_assign [OF assms]] menu_wf_assign [OF assms]
    by (simp add: menu_ok_def) (simp add: AssignHotkeys_def AddBootEntry_def)
  moreover have "ShowBootMenu width inps M = menu_loop width inps \<lparr>ms_x = 0, ms_y = 0, ms_left = False, ms_right = False\<rparr> ?M2"
    by (simp add: ShowBootMenu_def Let_def AssignHotkeys_def)
  ultimately show thesis using that by blast
qed


section \<open>Choosing an entry\<close>

definition down_key :: menu_input where
  "down_key = \<lparr>in_pointer = None, in_wait = 0, in_read = 0, in_char = 0, in_scan = 2\<rparr>"

definition enter_key :: menu_input where
  "enter_key = \<lparr>in_pointer = None, in_wait = 0, in_read = 0, in_char = 0x0D, in_scan = 0\<rparr>"

abbreviation mouse_start :: mouse_state where
  "mouse_start \<equiv> \<lparr>ms_x = 0, ms_y = 0, ms_left = False, ms_right = False\<rparr>"

lemma mouse_select_away:
  assumes "0 \<le> w"
  shows "mouse_select w mouse_start is M = Some (Menu_Again M mouse_start)"
proof -
  have "0 \<le> w div 4" using assms by simp
  then have "\<not> mouse_over w M mouse_start i" for i by (auto simp: mouse_over_def Let_def)
  then show ?thesis by (induction "is") auto
qed

lemma turn_down:
  "0 \<le> w \<Longrightarrow> menu_turn (Some w) down_key mouse_start M = Some (Menu_Again (scan_down M) mouse_start)"
  by (simp add: menu_turn_def down_key_def GetMouseState_def mouse_select_away menu_key_def hotkey_def)

lemma hotkey_return:
  assumes "menu_ok es hs M"
  shows "hotkey 0x0D M = M"
proof -
  have "first_hotkey 0x0D (take (length (BootEntries M)) (BootEntryHotkeys M)) 0 \<noteq> Some i" for i
  proof
    assume "first_hotkey 0x0D (take (length (BootEntries M)) (BootEntryHotkeys M)) 0 = Some i"
    from first_hotkey_less [OF this] have "0x0D \<in> set (BootEntryHotkeys M)"
      by (metis diff_zero in_set_takeD nth_mem plus_nat.add_0)
    then show False using assms by (force simp: menu_ok_def menu_wf_def)
  qed
  then have "first_hotkey 0x0D (take (length (BootEntries M)) (BootEntryHotkeys M)) 0 = None" by (metis not_Some_eq)
  then show ?thesis by (simp add: hotkey_def towlower_def)
qed

lemma turn_enter:
  "0 \<le> w \<Longrightarrow> menu_ok es hs M \<Longrightarrow> menu_turn (Some w) enter_key mouse_start M =
    Some (Menu_Return (case me_boot (es ! nat (SelectedEntry M)) of None \<Rightarrow> EFI_SUCCESS | Some st \<Rightarrow> st) M)"
  by (simp add: menu_turn_def enter_key_def GetMouseState_def mouse_select_away menu_key_def hotkey_return boot_selected_ok)

lemma loop_down:
  "menu_ok es hs M \<Longrightarrow> 0 \<le> w \<Longrightarrow> SelectedEntry M + int k < int (length es) \<Longrightarrow>
   \<exists>M'. menu_loop (Some w) (replicate k down_key @ inps) mouse_start M = menu_loop (Some w) inps mouse_start M' \<and>
     menu_ok es hs M' \<and> SelectedEntry M' = SelectedEntry M + int k"
proof (induction k arbitrary: M)
  case (Suc k)
  have "SelectedEntry (scan_down M) = SelectedEntry M + 1"
    unfolding scan_down_eq [OF Suc.prems(1)] using Suc.prems(3) by simp
  then show ?case
    using Suc.IH [OF menu_ok_down [OF Suc.prems(1)] Suc.prems(2)] Suc.prems turn_down [OF Suc.prems(2), of M]
    by (auto simp: algebra_simps)
qed auto

text \<open>Every entry can be booted from the keyboard: from the first entry on, pressing the arrow down as often as
  the index of the entry says and then the return key calls the function of that entry and leaves the menu with
  its status.\<close>

lemma menu_chosen:
  assumes "menu_wf M" and "SelectedEntry M = 0" and "k < length (BootEntries M)" and "0 \<le> w"
  shows "\<exists>M'. ShowBootMenu (Some w) (replicate k down_key @ [enter_key]) M =
      Some (Menu_Return (case me_boot (BootEntries M ! k) of None \<Rightarrow> EFI_SUCCESS | Some st \<Rightarrow> st) M') \<and>
    SelectedEntry M' = int k"
proof -
  have ne: "BootEntries M \<noteq> []" using assms(3) by auto
  obtain M2 where M2: "menu_ok (BootEntries M2) (BootEntryHotkeys M2) M2"
    "ShowBootMenu (Some w) (replicate k down_key @ [enter_key]) M = menu_loop (Some w) (replicate k down_key @ [enter_key]) mouse_start M2"
    "M2 = AssignHotkeys M"
    using ShowBootMenu_start [OF assms(1)] ne by metis
  have e: "BootEntries M2 = BootEntries M" "SelectedEntry M2 = 0" using M2(3) assms(2) by (simp_all add: AssignHotkeys_def)
  obtain M' where M': "menu_loop (Some w) (replicate k down_key @ [enter_key]) mouse_start M2 = menu_loop (Some w) [enter_key] mouse_start M'"
    "menu_ok (BootEntries M) (BootEntryHotkeys M2) M'" "SelectedEntry M' = int k"
    using loop_down [OF M2(1) assms(4), of k "[enter_key]"] assms(3) e by auto
  then show ?thesis using M2(2) turn_enter [OF assms(4) M'(2)] by simp
qed

section \<open>Hot keys\<close>

lemma assign_fresh:
  assumes "hs = replicate n 0" and "i < length es" and "i < n" and "assign_hotkeys used es hs ! i = c" and "c \<noteq> 0"
  shows "c \<notin> set used \<and> towlower c = c \<and> first_hotkey c (take (length es) (assign_hotkeys used es hs)) b = Some (b + i)"
  using assms
proof (induction used es hs arbitrary: n i b rule: assign_hotkeys.induct)
  case (1 used e es h hs)
  obtain n' where n: "n = Suc n'" "hs = replicate n' 0" "h = 0" using "1.prems"(1) by (cases n) auto
  show ?case
  proof (cases "pick_hotkey used (me_name e)")
    case None
    obtain i' where i: "i = Suc i'" using "1.prems" n None by (cases i) auto
    have "c \<notin> set used \<and> towlower c = c \<and> first_hotkey c (take (length es) (assign_hotkeys used es hs)) (b + 1) = Some (b + 1 + i')"
      by (rule "1.IH"(1) [OF None, of n' i']) (use "1.prems" n i None in auto)
    then show ?thesis using "1.prems"(5) None n i by simp
  next
    case (Some d)
    show ?thesis
    proof (cases i)
      case 0
      then show ?thesis using "1.prems"(4) Some pick_hotkey_eq [OF Some] by auto
    next
      case (Suc i')
      have "c \<notin> set (d # used) \<and> towlower c = c \<and>
          first_hotkey c (take (length es) (assign_hotkeys (d # used) es hs)) (b + 1) = Some (b + 1 + i')"
        by (rule "1.IH"(2) [OF Some, of n' i']) (use "1.prems" n Suc Some in auto)
      then show ?thesis using Some Suc by auto
    qed
  qed
qed auto

text \<open>Hot keys are unambiguous: after the keys have been assigned to a fresh menu, pressing the key of an
  entry selects that entry and no other.\<close>

lemma hotkey_selects_its_entry:
  assumes "BootEntryHotkeys M = replicate 128 0" and "length (BootEntries M) \<le> 128" and "i < length (BootEntries M)"
    and "BootEntryHotkeys (AssignHotkeys M) ! i = c" and "c \<noteq> 0"
  shows "SelectedEntry (hotkey c (AssignHotkeys M)) = int i"
proof -
  have "towlower c = c" "first_hotkey c (take (length (BootEntries M)) (BootEntryHotkeys (AssignHotkeys M))) 0 = Some i"
    using assign_fresh [OF assms(1,3), of "[]" c 0] assms by (auto simp: AssignHotkeys_def)
  moreover have "BootEntries (AssignHotkeys M) = BootEntries M" by (simp add: AssignHotkeys_def)
  ultimately show ?thesis using assms(5) by (simp add: hotkey_def)
qed

section \<open>What the user sees\<close>

text \<open>The arrows keep the selection among the lines shown.\<close>

definition selection_shown :: "menu \<Rightarrow> bool" where
  "selection_shown M \<longleftrightarrow> MenuScrollOffset M \<le> SelectedEntry M \<and> SelectedEntry M < MenuScrollOffset M + 10"

lemma arrows_show_selection:
  assumes "menu_ok es hs M" and "selection_shown M"
  shows "selection_shown (scan_down M)" and "selection_shown (scan_up M)"
proof -
  show "selection_shown (scan_down M)"
    unfolding scan_down_eq [OF assms(1)] using assms(2) by (auto simp: selection_shown_def)
  have "0 < length es" using assms(1) by (simp add: menu_ok_def)
  then show "selection_shown (scan_up M)"
    using assms menu_ok_range(1,4) [OF assms(1)] by (auto simp: selection_shown_def scan_up_def Let_def)
qed

lemma shown_is_drawn:
  assumes "menu_ok es hs M" and "selection_shown M"
  shows "\<exists>l. (True, l) \<in> set (fst (DrawBootMenu M))"
proof -
  have "nat (SelectedEntry M) \<in> set (visible M)" "int (nat (SelectedEntry M)) = SelectedEntry M"
    using assms menu_ok_range [OF assms(1)] by (auto simp: visible_def selection_shown_def menu_ok_def menu_wf_def)
  then show ?thesis by (force simp: DrawBootMenu_def)
qed

text \<open>A hot key does not scroll: here the eleventh entry is selected and not drawn.\<close>

definition long_menu :: menu where
  "long_menu = AssignHotkeys
     (fold (\<lambda>i M. snd (AddBootEntry [of_nat i] None M)) [97..<108] empty_menu)"

lemma hotkey_hides_selection:
  "SelectedEntry (hotkey 107 long_menu) = 10 \<and> \<not> selection_shown (hotkey 107 long_menu)"
  by code_simp

section \<open>Witnesses\<close>

definition two_entries :: menu where
  "two_entries = snd (AddBootEntry [0x50, 0x58] (Some 7) (snd (AddBootEntry [0x50] (Some 5) empty_menu)))"

lemma two_entries_wf: "menu_wf two_entries"
  unfolding two_entries_def by (intro menu_wf_add menu_wf_empty)

lemma two_entries_eq:
  "BootEntries two_entries = [\<lparr>me_name = [0x50], me_boot = Some 5\<rparr>, \<lparr>me_name = [0x50, 0x58], me_boot = Some 7\<rparr>]"
  "SelectedEntry two_entries = 0" "BootEntryHotkeys two_entries = replicate 128 0"
  by (simp_all add: two_entries_def AddBootEntry_def empty_menu_def)


end
