(* ===== verification/Localization.thy ===== *)
theory Localization
  imports Main_Config
begin

text \<open>
  The texts of the boot menu, \<^verbatim>\<open>boot/localization.c\<close>: the file of a language is read into a table, and a text is looked up
  there and then among the built-in ones. The table is the list of its keys and values; \<open>pool\<close> says whether an
  allocation of a size succeeds, as in the theory of the configuration.
\<close>

section \<open>Built-in texts\<close>

definition wtext :: "string \<Rightarrow> u16 list" where
  "wtext s = map (\<lambda>c. of_nat (of_char c)) s"

text \<open>The arrows and the accented letter are given by their code points.\<close>

definition builtin_table :: "(string \<times> u16 list \<times> u16 list) list" where
  "builtin_table =
     [(''menu_title'', wtext ''BloodHorn Boot Menu'', wtext ''Men'' @ [0xFA] @ wtext '' de Arranque BloodHorn''),
      (''select'', wtext ''Select'', wtext ''Seleccionar''),
      (''boot'', wtext ''Boot'', wtext ''Arrancar''),
      (''exit'', wtext ''Exit'', wtext ''Salir''),
      (''instructions'', [0x2191, 0x2F, 0x2193] @ wtext '': Select  Enter: Boot  ESC: Exit'',
       [0x2191, 0x2F, 0x2193] @ wtext '': Seleccionar  Enter: Arrancar  ESC: Salir'')]"

section \<open>Reading a file\<close>

type_synonym loc_table = "(string \<times> u16 list) list"

text \<open>The number of lines that have an equals sign in them or behind them.\<close>

function count_lines :: "string \<Rightarrow> nat" where
  "count_lines p =
     (if p = [] then 0 else (if AsciiStrStr p ''='' \<noteq> None then 1 else 0) + count_lines (after (CHR 0x0A) p))"
  by pat_completeness auto
termination
  by (relation "measure length") (auto simp: after_def)

declare count_lines.simps [simp del]

definition blank_tab :: "char \<Rightarrow> bool" where
  "blank_tab c \<longleftrightarrow> c = CHR '' '' \<or> c = CHR 0x09"

definition trim_end :: "string \<Rightarrow> string" where
  "trim_end v = rev (dropWhile (\<lambda>c. c = CHR 0x0D \<or> blank_tab c) (rev v))"

definition locale_line :: "string \<Rightarrow> (string \<times> string) option" where
  "locale_line line =
     (if line \<noteq> [] \<and> (line ! 0 = CHR ''#'' \<or> line ! 0 = CHR '';'') then None
      else case AsciiStrStr line ''='' of
             None \<Rightarrow> None
           | Some eq \<Rightarrow> Some (dropWhile blank_tab (take (length line - length eq) line), trim_end (dropWhile blank_tab (tl eq))))"

text \<open>The lines are stored into a table of \<open>cap\<close> places; no places stand for a null pointer.\<close>

function locale_loop :: "(u64 \<Rightarrow> bool) \<Rightarrow> nat \<Rightarrow> string \<Rightarrow> loc_table \<Rightarrow> loc_table cmem" where
  "locale_loop pool cap p g =
     (if p = [] then Some g
      else let line = before (CHR 0x0A) p; p' = after (CHR 0x0A) p in
        if \<not> pool (of_nat (length line) + 1) then Some g
        else (case locale_line line of
                None \<Rightarrow> locale_loop pool cap p' g
              | Some (k, v) \<Rightarrow>
                  if \<not> pool ((of_nat (length v) + 1) * 2) then Some g
                  else if \<not> pool (of_nat (length k) + 1) then Some g
                  else if cap \<le> length g then None
                  else locale_loop pool cap p' (g @ [(k, wtext v)])))"
  by pat_completeness auto
termination
  by (relation "measure (\<lambda>(pool, cap, p, g). length p)") (auto simp: after_def)

declare locale_loop.simps [simp del]

definition parse_locale_ini :: "(u64 \<Rightarrow> bool) \<Rightarrow> string \<Rightarrow> loc_table cmem" where
  "parse_locale_ini pool text =
     (let count = count_lines text; cap = (if count \<noteq> 0 then count else 1) in
      locale_loop pool (if pool (16 * of_nat cap) then cap else 0) text [])"

section \<open>Choosing a language\<close>

record locale_state =
  current_lang :: string
  g_loc :: loc_table

definition locale_path :: "string \<Rightarrow> string" where
  "locale_path lang = take 63 ([CHR 0x5C] @ ''locales'' @ [CHR 0x5C] @ lang @ ''.ini'')"

text \<open>A file that cannot be read leaves an empty table.\<close>

definition SetLanguage :: "boot_env \<Rightarrow> string ptr \<Rightarrow> locale_state cmem" where
  "SetLanguage E lang_code =
     (let lang = (case lang_code of None \<Rightarrow> ''en'' | Some s \<Rightarrow> if s = [] then ''en'' else s) in
      if EFI_ERROR (root_status E) then Some \<lparr>current_lang = lang, g_loc = []\<rparr>
      else case ReadWholeFileAscii (zero_pool E) (root_file E (locale_path lang)) of
             None \<Rightarrow> None
           | Some (st, n, buf) \<Rightarrow>
               if EFI_ERROR st then Some \<lparr>current_lang = lang, g_loc = []\<rparr>
               else map_option (\<lambda>g. \<lparr>current_lang = lang, g_loc = g\<rparr>) (parse_locale_ini (zero_pool E) (text_of buf)))"

definition GetLocalizedString :: "locale_state \<Rightarrow> string \<Rightarrow> u16 list" where
  "GetLocalizedString L key =
     (case map_of (g_loc L) key of
        Some w \<Rightarrow> w
      | None \<Rightarrow>
          (case map_of builtin_table key of
             Some (en, es) \<Rightarrow> if current_lang L = ''es'' then es else en
           | None \<Rightarrow> []))"

section \<open>The table is large enough\<close>

lemma after_suffix: "set (after c p) \<subseteq> set p"
  by (auto simp: after_def dest: in_set_dropD)

lemma before_subset: "set (before c p) \<subseteq> set p"
  by (auto simp: before_def dest: set_takeWhileD)

lemma locale_line_eq_sign: "locale_line line = Some kv \<Longrightarrow> CHR ''='' \<in> set line"
  by (auto simp: locale_line_def AsciiStrStr_char split: if_splits)

lemma locale_loop_fits:
  assumes "length g + count_lines p \<le> cap"
  shows "\<exists>g'. locale_loop pool cap p g = Some g'"
  using assms
proof (induction "length p" arbitrary: p g rule: less_induct)
  case less
  show ?case
  proof (cases "p = []")
    case True
    then show ?thesis by (simp add: locale_loop.simps)
  next
    case False
    let ?line = "before (CHR 0x0A) p" and ?p' = "after (CHR 0x0A) p"
    have short: "length ?p' < length p" using False by (auto simp: after_def)
    have c: "count_lines ?p' \<le> count_lines p" by (subst (2) count_lines.simps) (use False in simp)
    have "\<exists>g'. locale_loop pool cap ?p' g = Some g'" using less.hyps [OF short] less.prems c by simp
    moreover have "length g < cap \<and> (\<exists>g'. locale_loop pool cap ?p' (g @ [(k, wtext v)]) = Some g')"
      if l: "locale_line ?line = Some (k, v)" for k v
    proof -
      have "CHR ''='' \<in> set p" using locale_line_eq_sign [OF l] before_subset by fast
      then have "count_lines p = Suc (count_lines ?p')"
        by (subst count_lines.simps) (use False in \<open>simp add: AsciiStrStr_char\<close>)
      then show ?thesis using less.hyps [OF short] less.prems by simp
    qed
    ultimately show ?thesis
      by (subst locale_loop.simps) (auto simp: False Let_def split: option.split)
  qed
qed

text \<open>Reading the file of a language is defined for every text, and whichever allocation fails, as long as the one
  for the table succeeds: the table is large enough for the lines that are stored.\<close>

lemma parse_locale_ini_returns:
  assumes "\<And>n. pool (16 * n)"
  shows "\<exists>g. parse_locale_ini pool text = Some g"
  unfolding parse_locale_ini_def Let_def using assms by (auto intro!: locale_loop_fits)

section \<open>Reading back a file\<close>

definition good_loc :: "string \<times> string \<Rightarrow> bool" where
  "good_loc kv \<longleftrightarrow>
     fst kv \<noteq> [] \<and> CHR ''='' \<notin> set (fst kv) \<and> CHR 0x0A \<notin> set (fst kv @ snd kv) \<and>
     hd (fst kv) \<notin> {CHR ''#'', CHR '';'', CHR '' '', CHR 0x09} \<and>
     trim_end (dropWhile blank_tab (snd kv)) = snd kv"

definition locale_text :: "(string \<times> string) list \<Rightarrow> string" where
  "locale_text kvs = concat (map (\<lambda>(k, v). k @ ''='' @ v @ [CHR 0x0A]) kvs)"

lemma locale_line_print: "good_loc (k, v) \<Longrightarrow> locale_line (k @ CHR ''='' # v) = Some (k, v)"
proof -
  assume g: "good_loc (k, v)"
  then obtain c k' where k: "k = c # k'" "c \<notin> {CHR ''#'', CHR '';'', CHR '' '', CHR 0x09}" by (cases k) (auto simp: good_loc_def)
  have s: "AsciiStrStr (k @ CHR ''='' # v) ''='' = Some (CHR ''='' # v)"
    using g by (auto simp: AsciiStrStr_char good_loc_def dropWhile_append)
  have "dropWhile blank_tab k = k" using k by (simp add: blank_tab_def)
  then show ?thesis using g k s by (simp add: locale_line_def good_loc_def)
qed

lemma locale_loop_print:
  assumes "\<forall>n. pool n"
  shows "\<forall>kv \<in> set kvs. good_loc kv \<Longrightarrow> length g + length kvs \<le> cap \<Longrightarrow>
    locale_loop pool cap (locale_text kvs) g = Some (g @ map (map_prod id wtext) kvs)"
proof (induction kvs arbitrary: g)
  case Nil
  then show ?case by (simp add: locale_text_def locale_loop.simps)
next
  case (Cons kv kvs)
  obtain k v where kv: "kv = (k, v)" by force
  have g: "good_loc (k, v)" using Cons.prems(1) kv by simp
  have n: "CHR 0x0A \<notin> set (k @ CHR ''='' # v)" using g by (auto simp: good_loc_def)
  have p: "locale_text (kv # kvs) = (k @ CHR ''='' # v) @ CHR 0x0A # locale_text kvs" by (simp add: locale_text_def kv)
  have "locale_loop pool cap (locale_text (kv # kvs)) g = locale_loop pool cap (locale_text kvs) (g @ [(k, wtext v)])"
    unfolding p by (subst locale_loop.simps)
      (use Cons.prems(2) assms locale_line_print [OF g] before_append [OF n] after_append [OF n] in \<open>simp add: Let_def\<close>)
  then show ?case using Cons.IH [of "g @ [(k, wtext v)]"] Cons.prems kv by simp
qed

lemma count_lines_print: "\<forall>kv \<in> set kvs. good_loc kv \<Longrightarrow> count_lines (locale_text kvs) = length kvs"
proof (induction kvs)
  case Nil
  then show ?case by (simp add: locale_text_def count_lines.simps)
next
  case (Cons kv kvs)
  obtain k v where kv: "kv = (k, v)" by force
  have n: "CHR 0x0A \<notin> set (k @ CHR ''='' # v)" using Cons.prems kv by (auto simp: good_loc_def)
  have p: "locale_text (kv # kvs) = (k @ CHR ''='' # v) @ CHR 0x0A # locale_text kvs" by (simp add: locale_text_def kv)
  show ?case
    unfolding p by (subst count_lines.simps) (use Cons after_append [OF n] in \<open>simp add: AsciiStrStr_char\<close>)
qed

text \<open>What a language file says is what the menu shows: after reading a file that has a line for a key, the
  text for that key is the value of the first such line, as long as the allocations succeed.\<close>

lemma locale_file_roundtrip:
  assumes "\<forall>kv \<in> set kvs. good_loc kv" and "\<forall>n. pool n" and "map_of kvs key = Some v"
  shows "\<exists>g. parse_locale_ini pool (locale_text kvs) = Some g \<and>
    GetLocalizedString \<lparr>current_lang = lang, g_loc = g\<rparr> key = wtext v"
proof -
  have "parse_locale_ini pool (locale_text kvs) = Some (map (map_prod id wtext) kvs)"
  proof -
    have "locale_loop pool cap (locale_text kvs) [] = Some (map (map_prod id wtext) kvs)" if "length kvs \<le> cap" for cap
      using locale_loop_print [OF assms(2,1), of "[]" cap] that by simp
    then show ?thesis unfolding parse_locale_ini_def Let_def count_lines_print [OF assms(1)] using assms(2) by simp
  qed
  moreover have "map_of (map (map_prod id wtext) kvs) key = Some (wtext v)"
    using assms(3) by (induction kvs) (auto split: if_splits)
  ultimately show ?thesis by (simp add: GetLocalizedString_def)
qed

end
