(* ===== verification/Graphics.thy ===== *)
theory Graphics
  imports Main_Config
begin

text \<open>
  Drawing: \<^verbatim>\<open>uefi/graphics.c\<close> and the bitmap fonts of \<^verbatim>\<open>boot/font.c\<close>. The screen is the record \<open>screen\<close> with the framebuffer as a
  list of pixels; a store outside of it is \<open>None\<close>. A screen that is not there is the null pointer. Fonts are records; the
  cache of fonts, which only decides when memory is released, is left out.
\<close>

section \<open>Choosing a mode\<close>

text \<open>What the graphics protocol answers: finding it, the current mode, the number of modes, the size of a mode, and
  setting a mode.\<close>

record gop =
  gop_locate :: efi_status
  gop_current :: u32
  gop_max :: u32
  gop_query :: "u32 \<Rightarrow> efi_status \<times> u32 \<times> u32"
  gop_set :: "u32 \<Rightarrow> efi_status"

fun best_mode :: "gop \<Rightarrow> nat list \<Rightarrow> u32 \<times> u32 \<times> u32 \<Rightarrow> u32 \<times> u32 \<times> u32" where
  "best_mode G [] best = best"
| "best_mode G (i # is) best =
     (let (st, w, h) = gop_query G (of_nat i); (bm, bw, bh) = best in
      best_mode G is (if \<not> EFI_ERROR st \<and> bw * bh < w * h then (of_nat i, w, h) else best))"

text \<open>The status, and the mode that is set, if one is.\<close>

definition InitializeGraphics :: "gop \<Rightarrow> efi_status \<times> u32 option" where
  "InitializeGraphics G =
     (if EFI_ERROR (gop_locate G) then (gop_locate G, None)
      else let (st, w, h) = gop_query G (gop_current G) in
        if EFI_ERROR st then (st, None)
        else let (m, bw, bh) = best_mode G [0..<unat (gop_max G)] (0, 0, 0) in
          if m \<noteq> gop_current G
          then (if EFI_ERROR (gop_set G m) then (gop_set G m, None) else (EFI_SUCCESS, Some m))
          else (EFI_SUCCESS, None))"

section \<open>Rectangles\<close>

record screen =
  scr_width :: u32
  scr_height :: u32
  scr_line :: u32
  scr_fb :: "u32 list"

definition EFI_NOT_READY :: efi_status where
  "EFI_NOT_READY = push_bit 63 1 OR 6"

definition EFI_BAD_PARAMETER :: efi_status where
  "EFI_BAD_PARAMETER = push_bit 63 1 OR 2"

fun store_all :: "nat list \<Rightarrow> u32 \<Rightarrow> u32 list \<Rightarrow> u32 list cmem" where
  "store_all [] c fb = Some fb"
| "store_all (i # is) c fb = Option.bind (poke fb i c) (store_all is c)"

text \<open>The indices that the two loops store to; the ends of the loops and the index wrap.\<close>

definition rect_indices :: "u32 \<Rightarrow> u32 \<Rightarrow> u32 \<Rightarrow> u32 \<Rightarrow> u32 \<Rightarrow> nat list" where
  "rect_indices line X Y Width Height =
     concat (map (\<lambda>y. map (\<lambda>x. unat (of_nat y * line + of_nat x :: u32)) [unat X..<unat (X + Width)]) [unat Y..<unat (Y + Height)])"

definition DrawRect :: "u32 \<Rightarrow> u32 \<Rightarrow> u32 \<Rightarrow> u32 \<Rightarrow> u32 \<Rightarrow> screen ptr \<Rightarrow> (efi_status \<times> screen ptr) cmem" where
  "DrawRect X Y Width Height Color GraphicsOutput =
     (case GraphicsOutput of
        None \<Rightarrow> Some (EFI_NOT_READY, None)
      | Some s \<Rightarrow>
          if scr_width s \<le> X \<or> scr_height s \<le> Y then Some (EFI_BAD_PARAMETER, Some s)
          else
            let W = (if scr_width s < X + Width then scr_width s - X else Width);
                H = (if scr_height s < Y + Height then scr_height s - Y else Height)
            in map_option (\<lambda>fb. (EFI_SUCCESS, Some (s\<lparr>scr_fb := fb\<rparr>)))
                 (store_all (rect_indices (scr_line s) X Y W H) Color (scr_fb s)))"

definition ClearScreen :: "u32 \<Rightarrow> screen ptr \<Rightarrow> (efi_status \<times> screen ptr) cmem" where
  "ClearScreen Color GraphicsOutput =
     (case GraphicsOutput of
        None \<Rightarrow> Some (EFI_NOT_READY, None)
      | Some s \<Rightarrow> DrawRect 0 0 (scr_width s) (scr_height s) Color (Some s))"

section \<open>Fonts\<close>

datatype font_format = FONT_FORMAT_BITMAP | FONT_FORMAT_PSF | FONT_FORMAT_TTF | FONT_FORMAT_OTF

record font =
  f_format :: font_format
  f_line_height :: u16
  f_baseline :: u16
  f_max_width :: u16
  f_data :: "u8 list ptr"

record glyph_options =
  o_color :: u32
  o_bg_color :: u32
  o_use_bg :: bool

definition int_ok :: "int \<Rightarrow> bool" where
  "int_ok v \<longleftrightarrow> - (2 ^ 31) \<le> v \<and> v < 2 ^ 31"

definition bytes_per_glyph :: "font \<Rightarrow> u32 cmem" where
  "bytes_per_glyph f =
     (let n = unat (f_line_height f) * unat (f_max_width f) + 7 in
      if 2 ^ 31 \<le> n then None
      else if f_line_height f = 16 \<and> f_max_width f = 8 then Some 16
      else if f_line_height f = 8 \<and> f_max_width f = 8 then Some 8
      else Some (of_nat (n div 8)))"

text \<open>The pixel's place is computed in signed arithmetic and then read as unsigned.\<close>

definition put_pixel :: "int \<Rightarrow> int \<Rightarrow> u32 \<Rightarrow> screen ptr \<Rightarrow> screen ptr cmem" where
  "put_pixel px py c G =
     (if \<not> (int_ok px \<and> int_ok py) then None
      else case G of
        None \<Rightarrow> Some None
      | Some s \<Rightarrow>
          let pixel_x = of_int px; pixel_y = of_int py in
          if pixel_x < scr_width s \<and> pixel_y < scr_height s
          then map_option (\<lambda>fb. Some (s\<lparr>scr_fb := fb\<rparr>)) (poke (scr_fb s) (unat (pixel_y * scr_line s + pixel_x)) c)
          else Some G)"

fun render_cols :: "glyph_options \<Rightarrow> u8 \<Rightarrow> int \<Rightarrow> int \<Rightarrow> nat list \<Rightarrow> screen ptr \<Rightarrow> screen ptr cmem" where
  "render_cols opt b x py [] G = Some G"
| "render_cols opt b x py (col # cols) G =
     (if b AND drop_bit col 0x80 \<noteq> 0
      then Option.bind (put_pixel (x + int col) py (o_color opt) G) (render_cols opt b x py cols)
      else if o_use_bg opt
      then Option.bind (put_pixel (x + int col) py (o_bg_color opt) G) (render_cols opt b x py cols)
      else render_cols opt b x py cols G)"

fun render_rows :: "glyph_options \<Rightarrow> u8 list \<Rightarrow> nat \<Rightarrow> int \<Rightarrow> int \<Rightarrow> nat list \<Rightarrow> screen ptr \<Rightarrow> screen ptr cmem" where
  "render_rows opt data at x y [] G = Some G"
| "render_rows opt data at x y (row # rows) G =
     (case peek data (at + row) of
        None \<Rightarrow> None
      | Some b \<Rightarrow> Option.bind (render_cols opt b x (y + int row) [0..<8] G) (render_rows opt data at x y rows))"

definition RenderBitmapGlyph :: "font \<Rightarrow> u32 \<Rightarrow> int \<Rightarrow> int \<Rightarrow> glyph_options \<Rightarrow> screen ptr \<Rightarrow> (int \<times> screen ptr) cmem" where
  "RenderBitmapGlyph f codepoint x y opt G =
     (case f_data f of
        None \<Rightarrow> Some (0, G)
      | Some data \<Rightarrow>
          if codepoint < 32 \<or> 126 < codepoint then Some (0, G)
          else (case bytes_per_glyph f of
                  None \<Rightarrow> None
                | Some k \<Rightarrow>
                    map_option (Pair (int (unat (f_max_width f))))
                      (render_rows opt data (unat ((codepoint - 32) * k)) x y [0..<unat (f_line_height f)] G)))"

definition RenderGlyph :: "font ptr \<Rightarrow> u32 \<Rightarrow> int \<Rightarrow> int \<Rightarrow> glyph_options ptr \<Rightarrow> screen ptr \<Rightarrow> (int \<times> screen ptr) cmem" where
  "RenderGlyph font codepoint x y options G =
     (case (font, options) of
        (Some f, Some opt) \<Rightarrow>
          if f_format f = FONT_FORMAT_BITMAP then RenderBitmapGlyph f codepoint x y opt G else Some (0, G)
      | _ \<Rightarrow> Some (0, G))"

text \<open>The characters of a text are 16 bits wide.\<close>

fun render_text_loop :: "font \<Rightarrow> u16 list \<Rightarrow> int \<Rightarrow> int \<Rightarrow> int \<Rightarrow> glyph_options \<Rightarrow> screen ptr \<Rightarrow> (int \<times> screen ptr) cmem" where
  "render_text_loop f [] cx y w opt G = Some (w, G)"
| "render_text_loop f (c # text) cx y w opt G =
     (case RenderGlyph (Some f) (ucast c) cx y (Some opt) G of
        None \<Rightarrow> None
      | Some (g, G') \<Rightarrow>
          if int_ok (cx + g) \<and> int_ok (w + g) then render_text_loop f text (cx + g) y (w + g) opt G' else None)"

definition RenderText :: "font ptr \<Rightarrow> u16 list ptr \<Rightarrow> int \<Rightarrow> int \<Rightarrow> glyph_options ptr \<Rightarrow> screen ptr \<Rightarrow> (int \<times> screen ptr) cmem" where
  "RenderText font text x y options G =
     (case (font, text, options) of
        (Some f, Some t, Some opt) \<Rightarrow> render_text_loop f t x y 0 opt G
      | _ \<Rightarrow> Some (0, G))"

text \<open>Width, height, ascent and descent.\<close>

fun measure_loop :: "font \<Rightarrow> u16 list \<Rightarrow> int \<Rightarrow> int cmem" where
  "measure_loop f [] w = Some w"
| "measure_loop f (c # text) w =
     (if 32 \<le> c \<and> c \<le> 126
      then let w' = w + int (unat (f_max_width f)) in if int_ok w' then measure_loop f text w' else None
      else measure_loop f text w)"

definition MeasureText :: "font \<Rightarrow> u16 list \<Rightarrow> (int \<times> int \<times> int \<times> int) cmem" where
  "MeasureText f text =
     map_option (\<lambda>w. (w, int (unat (f_line_height f)), int (unat (f_baseline f)),
                      int (unat (f_line_height f)) - int (unat (f_baseline f)))) (measure_loop f text 0)"

section \<open>Font files\<close>

text \<open>The height, the glyphs and their number.\<close>

definition parse_psf1 :: "u8 list \<Rightarrow> u64 \<Rightarrow> (u8 \<times> u8 list \<times> nat) option cmem" where
  "parse_psf1 data n =
     (if n < 4 then Some None
      else if length data < 4 then None
      else if \<not> (data ! 0 = 0x36 \<and> data ! 1 = 0x04) then Some None
      else let count = (if data ! 2 AND 1 \<noteq> 0 then 512 else 256) in
        if n < 4 + ucast (data ! 3) * of_nat count then Some None
        else Some (Some (data ! 3, drop 4 data, count)))"

definition psf_font :: "u8 \<Rightarrow> u8 list \<Rightarrow> font" where
  "psf_font h table =
     \<lparr>f_format = FONT_FORMAT_BITMAP, f_line_height = ucast h, f_baseline = (if 4 < h then ucast h - 4 else ucast h),
      f_max_width = 8, f_data = Some table\<rparr>"

text \<open>\<open>alloc\<close> says whether the record can be allocated; the default font stands for every failure.\<close>

definition LoadFontFile :: "boot_env \<Rightarrow> bool \<Rightarrow> font ptr \<Rightarrow> string ptr \<Rightarrow> font ptr cmem" where
  "LoadFontFile E alloc fallback filename =
     (case filename of
        None \<Rightarrow> Some fallback
      | Some name \<Rightarrow>
          if name = [] then Some fallback
          else if EFI_ERROR (root_status E) then Some fallback
          else case read_whole (zero_pool E) (root_file E (take 255 name)) 0 of
                 None \<Rightarrow> None
               | Some (st, filesz, buf) \<Rightarrow>
                   if EFI_ERROR st \<or> filesz < 4 then Some fallback
                   else (case parse_psf1 buf filesz of
                           None \<Rightarrow> None
                         | Some None \<Rightarrow> Some fallback
                         | Some (Some (h, glyphs, count)) \<Rightarrow>
                             if \<not> zero_pool E (ucast h * of_nat count) then Some fallback
                             else case memcpy (replicate (unat h * count) 0) 0 glyphs 0 (unat h * count) of
                                    None \<Rightarrow> None
                                  | Some table \<Rightarrow> Some (if alloc then Some (psf_font h table) else fallback)))"

text \<open>A font from memory keeps a copy of the data with fixed measures. \<open>font_alloc\<close> and \<open>data_alloc\<close> say whether the two
  allocations succeed.\<close>

definition LoadFontFromMemory :: "bool \<Rightarrow> bool \<Rightarrow> u8 list ptr \<Rightarrow> u32 \<Rightarrow> font_format \<Rightarrow> font ptr cmem" where
  "LoadFontFromMemory font_alloc data_alloc data sz format =
     (case data of
        None \<Rightarrow> Some None
      | Some d \<Rightarrow>
          if sz = 0 \<or> \<not> font_alloc \<or> \<not> data_alloc then Some None
          else map_option (\<lambda>copy. Some \<lparr>f_format = format, f_line_height = 16, f_baseline = 12, f_max_width = 8, f_data = Some copy\<rparr>)
                 (memcpy (replicate (unat sz) 0) 0 d 0 (unat sz)))"

section \<open>The built-in font\<close>

text \<open>The table of the built-in font has glyphs for six characters only.\<close>

definition builtin_font_8x16 :: "u8 list" where
  "builtin_font_8x16 =
     replicate 16 0 @
     [0, 0, 0x18, 0x3C, 0x3C, 0x3C, 0x18, 0x18, 0x18, 0, 0x18, 0x18, 0, 0, 0, 0] @
     [0, 0, 0x66, 0x66, 0x66, 0x24, 0, 0, 0, 0, 0, 0, 0, 0, 0, 0] @
     [0, 0, 0x6C, 0x6C, 0xFE, 0x6C, 0x6C, 0x6C, 0xFE, 0x6C, 0x6C, 0, 0, 0, 0, 0] @
     [0, 0, 0x10, 0x38, 0x6C, 0xC6, 0xC6, 0xFE, 0xC6, 0xC6, 0xC6, 0xC6, 0, 0, 0, 0] @
     [0, 0, 0xFC, 0x66, 0x66, 0x66, 0x7C, 0x66, 0x66, 0x66, 0x66, 0xFC, 0, 0, 0, 0]"

definition default_font :: font where
  "default_font =
     \<lparr>f_format = FONT_FORMAT_BITMAP, f_line_height = 16, f_baseline = 12, f_max_width = 8, f_data = Some builtin_font_8x16\<rparr>"

definition builtin_mono_font_8x8 :: "u8 list" where
  "builtin_mono_font_8x8 = replicate 8 0 @ [0x18, 0x3C, 0x3C, 0x18, 0x18, 0, 0x18, 0]"

definition mono_font :: font where
  "mono_font =
     \<lparr>f_format = FONT_FORMAT_BITMAP, f_line_height = 8, f_baseline = 6, f_max_width = 8, f_data = Some builtin_mono_font_8x8\<rparr>"

definition builtin_bold_font_8x16 :: "u8 list" where
  "builtin_bold_font_8x16 = replicate 16 0"

definition bold_font :: font where
  "bold_font =
     \<lparr>f_format = FONT_FORMAT_BITMAP, f_line_height = 16, f_baseline = 12, f_max_width = 8, f_data = Some builtin_bold_font_8x16\<rparr>"

section \<open>Rectangles are filled\<close>

definition screen_ok :: "screen \<Rightarrow> bool" where
  "screen_ok s \<longleftrightarrow>
     scr_width s \<le> scr_line s \<and> unat (scr_line s) * unat (scr_height s) \<le> length (scr_fb s) \<and>
     unat (scr_line s) * unat (scr_height s) < 2 ^ 32"

definition pixel :: "screen \<Rightarrow> nat \<Rightarrow> nat \<Rightarrow> u32" where
  "pixel s x y = scr_fb s ! (y * unat (scr_line s) + x)"

lemma pixel_index:
  assumes "screen_ok s" and "x < unat (scr_width s)" and "y < unat (scr_height s)"
  shows "y * unat (scr_line s) + x < unat (scr_line s) * unat (scr_height s)"
    and "unat (of_nat y * scr_line s + of_nat x :: u32) = y * unat (scr_line s) + x"
proof -
  have w: "unat (scr_width s) \<le> unat (scr_line s)" using assms(1) by (simp add: screen_ok_def word_le_nat_alt)
  have "y * unat (scr_line s) + x < Suc y * unat (scr_line s)" using assms(2) w by simp
  also have "\<dots> \<le> unat (scr_height s) * unat (scr_line s)" using assms(3) by (intro mult_le_mono1) simp
  finally show i: "y * unat (scr_line s) + x < unat (scr_line s) * unat (scr_height s)" by (simp add: mult.commute)
  have "(of_nat y * scr_line s + of_nat x :: u32) = of_nat (y * unat (scr_line s) + x)" by simp
  then show "unat (of_nat y * scr_line s + of_nat x :: u32) = y * unat (scr_line s) + x"
    using i assms(1) by (simp only:) (rule unat_of_nat_small, simp add: screen_ok_def)
qed

lemma store_all_eq:
  "\<forall>i \<in> set is. i < length fb \<Longrightarrow>
   \<exists>fb'. store_all is c fb = Some fb' \<and> length fb' = length fb \<and> (\<forall>j < length fb. fb' ! j = (if j \<in> set is then c else fb ! j))"
proof (induction "is" arbitrary: fb)
  case (Cons i "is")
  then obtain fb' where "store_all is c (fb[i := c]) = Some fb'" "length fb' = length fb"
    "\<forall>j < length fb. fb' ! j = (if j \<in> set is then c else fb[i := c] ! j)"
    using Cons.IH [of "fb[i := c]"] by auto
  then show ?case using Cons.prems by (auto simp: poke_def nth_list_update)
qed simp

lemma clamp_end:
  assumes "X < width" and "unat X + unat W < 2 ^ 32"
  shows "unat (X + (if width < X + W then width - X else W) :: u32) = min (unat width) (unat X + unat W)"
proof -
  have "unat (X + W) = unat X + unat W" by (rule unat_add_small) (use assms(2) in simp)
  then show ?thesis by (auto simp: word_less_nat_alt min_def)
qed

lemma rect_indices_mem:
  assumes "screen_ok s" and "unat (X + W) \<le> unat (scr_width s)" and "unat (Y + H) \<le> unat (scr_height s)"
  shows "j \<in> set (rect_indices (scr_line s) X Y W H) \<longleftrightarrow>
    (\<exists>x y. unat X \<le> x \<and> x < unat (X + W) \<and> unat Y \<le> y \<and> y < unat (Y + H) \<and> j = y * unat (scr_line s) + x)"
proof -
  define A where "A = unat (X + W)"
  define B where "B = unat (Y + H)"
  have le: "A \<le> unat (scr_width s)" "B \<le> unat (scr_height s)" using assms(2,3) by (simp_all only: A_def B_def)
  have f: "unat (of_nat y * scr_line s + of_nat x :: u32) = y * unat (scr_line s) + x" if "x < A" "y < B" for x y
    using pixel_index(2) [OF assms(1)] that le by (meson less_le_trans)
  have "set (rect_indices (scr_line s) X Y W H) =
      (\<Union>y \<in> {unat Y..<B}. (\<lambda>x. unat (of_nat y * scr_line s + of_nat x :: u32)) ` {unat X..<A})"
    unfolding rect_indices_def A_def [symmetric] B_def [symmetric] by simp
  also have "\<dots> = (\<Union>y \<in> {unat Y..<B}. (\<lambda>x. y * unat (scr_line s) + x) ` {unat X..<A})"
    by (intro SUP_cong image_cong refl f) auto
  finally have e: "set (rect_indices (scr_line s) X Y W H) = (\<Union>y \<in> {unat Y..<B}. (\<lambda>x. y * unat (scr_line s) + x) ` {unat X..<A})" .
  show ?thesis unfolding e A_def [symmetric] B_def [symmetric] UN_iff image_iff atLeastLessThan_iff Bex_def by blast
qed

lemma index_inj:
  assumes "(x :: nat) < n" and "x' < n" and "y * n + x = y' * n + x'"
  shows "x = x'" and "y = y'"
proof -
  show "x = x'" using assms by (metis mod_less mod_mult_self3)
  then show "y = y'" using assms by simp
qed

text \<open>\<open>DrawRect\<close> fills the part of the rectangle that is on the screen and nothing else: on a screen whose
  framebuffer is large enough, for a corner on the screen and a size that does not wrap, the pixels of the rectangle get
  the colour, every other pixel of the screen keeps its own, and no store is outside of the framebuffer.\<close>

lemma draw_rect_fills:
  assumes "screen_ok s" and "X < scr_width s" and "Y < scr_height s" and "unat X + unat Width < 2 ^ 32" and "unat Y + unat Height < 2 ^ 32"
  shows "\<exists>s'. DrawRect X Y Width Height Color (Some s) = Some (EFI_SUCCESS, Some s') \<and> screen_ok s' \<and>
    (\<forall>x y. x < unat (scr_width s) \<longrightarrow> y < unat (scr_height s) \<longrightarrow>
       pixel s' x y = (if unat X \<le> x \<and> x < unat X + unat Width \<and> unat Y \<le> y \<and> y < unat Y + unat Height then Color else pixel s x y))"
proof -
  define W where "W = (if scr_width s < X + Width then scr_width s - X else Width)"
  define H where "H = (if scr_height s < Y + Height then scr_height s - Y else Height)"
  have ends: "unat (X + W) = min (unat (scr_width s)) (unat X + unat Width)" "unat (Y + H) = min (unat (scr_height s)) (unat Y + unat Height)"
    unfolding W_def H_def by (rule clamp_end [OF assms(2,4)], rule clamp_end [OF assms(3,5)])
  note mem = rect_indices_mem [OF assms(1), of X W Y H, unfolded ends, OF min.cobounded1 min.cobounded1]
  let ?is = "rect_indices (scr_line s) X Y W H"
  have len: "unat (scr_line s) * unat (scr_height s) \<le> length (scr_fb s)" using assms(1) by (simp add: screen_ok_def)
  have "\<forall>i \<in> set ?is. i < length (scr_fb s)"
  proof
    fix i assume "i \<in> set ?is"
    then obtain x y where "x < unat (scr_width s)" "y < unat (scr_height s)" "i = y * unat (scr_line s) + x" using mem by auto
    then show "i < length (scr_fb s)" using pixel_index(1) [OF assms(1), of x y] len by simp
  qed
  then obtain fb where fb: "store_all ?is Color (scr_fb s) = Some fb" "length fb = length (scr_fb s)"
    "\<forall>j < length (scr_fb s). fb ! j = (if j \<in> set ?is then Color else scr_fb s ! j)"
    using store_all_eq by blast
  have "(scr_width s \<le> X \<or> scr_height s \<le> Y) = False" using assms(2,3) by auto
  then have "DrawRect X Y Width Height Color (Some s) = Some (EFI_SUCCESS, Some (s\<lparr>scr_fb := fb\<rparr>))"
    unfolding DrawRect_def option.case Let_def W_def [symmetric] H_def [symmetric] using fb(1) by (simp only: if_False option.map)
  moreover have "screen_ok (s\<lparr>scr_fb := fb\<rparr>)" using assms(1) fb(2) by (simp add: screen_ok_def)
  moreover have "pixel (s\<lparr>scr_fb := fb\<rparr>) x y =
      (if unat X \<le> x \<and> x < unat X + unat Width \<and> unat Y \<le> y \<and> y < unat Y + unat Height then Color else pixel s x y)"
    if x: "x < unat (scr_width s)" and y: "y < unat (scr_height s)" for x y
  proof -
    have w: "unat (scr_width s) \<le> unat (scr_line s)" using assms(1) by (simp add: screen_ok_def word_le_nat_alt)
    have "y * unat (scr_line s) + x \<in> set ?is \<longleftrightarrow> unat X \<le> x \<and> x < unat X + unat Width \<and> unat Y \<le> y \<and> y < unat Y + unat Height"
    proof
      assume "y * unat (scr_line s) + x \<in> set ?is"
      then obtain x' y' where i: "unat X \<le> x'" "x' < min (unat (scr_width s)) (unat X + unat Width)" "unat Y \<le> y'"
        "y' < min (unat (scr_height s)) (unat Y + unat Height)" "y * unat (scr_line s) + x = y' * unat (scr_line s) + x'"
        using mem by blast
      have "x = x'" "y = y'" using index_inj [OF _ _ i(5)] x i(2) w by auto
      then show "unat X \<le> x \<and> x < unat X + unat Width \<and> unat Y \<le> y \<and> y < unat Y + unat Height" using i by simp
    qed (use mem x y in auto)
    moreover have "y * unat (scr_line s) + x < length (scr_fb s)" using pixel_index(1) [OF assms(1) x y] len by simp
    ultimately show ?thesis using fb(3) by (simp add: pixel_def)
  qed
  ultimately show ?thesis by blast
qed

section \<open>Text\<close>

fun graphics_ok :: "screen ptr \<Rightarrow> bool" where
  "graphics_ok None \<longleftrightarrow> True"
| "graphics_ok (Some s) \<longleftrightarrow> screen_ok s"

lemma put_pixel_ok:
  assumes "graphics_ok G" and "int_ok px" and "int_ok py"
  shows "\<exists>G'. put_pixel px py c G = Some G' \<and> graphics_ok G'"
proof (cases G)
  case (Some s)
  then have ok: "screen_ok s" using assms(1) by simp
  have "unat (py' * scr_line s + px') < length (scr_fb s)" if "px' < scr_width s" "py' < scr_height s" for px' py'
    using pixel_index [OF ok, of "unat px'" "unat py'"] that ok by (auto simp: word_less_nat_alt screen_ok_def)
  then show ?thesis using Some ok assms(2,3) by (auto simp: put_pixel_def poke_def screen_ok_def Let_def)
qed (use assms in \<open>simp add: put_pixel_def\<close>)

lemma render_cols_ok:
  "graphics_ok G \<Longrightarrow> int_ok py \<Longrightarrow> \<forall>col \<in> set cols. int_ok (x + int col) \<Longrightarrow>
   \<exists>G'. render_cols opt b x py cols G = Some G' \<and> graphics_ok G'"
proof (induction cols arbitrary: G)
  case (Cons col cols)
  have i: "int_ok (x + int col)" using Cons.prems(3) by simp
  obtain G1 where "put_pixel (x + int col) py (o_color opt) G = Some G1" "graphics_ok G1"
    using put_pixel_ok [OF Cons.prems(1) i Cons.prems(2)] by blast
  moreover obtain G2 where "put_pixel (x + int col) py (o_bg_color opt) G = Some G2" "graphics_ok G2"
    using put_pixel_ok [OF Cons.prems(1) i Cons.prems(2)] by blast
  ultimately show ?case using Cons.IH [of G1] Cons.IH [of G2] Cons.IH [of G] Cons.prems by simp
qed simp

lemma render_rows_ok:
  "graphics_ok G \<Longrightarrow> \<forall>row \<in> set rows. at + row < length data \<and> int_ok (y + int row) \<Longrightarrow> \<forall>col < 8. int_ok (x + int col) \<Longrightarrow>
   \<exists>G'. render_rows opt data at x y rows G = Some G' \<and> graphics_ok G'"
proof (induction rows arbitrary: G)
  case (Cons row rows)
  have c: "\<forall>col \<in> set [0..<8]. int_ok (x + int col)" using Cons.prems(3) by simp
  have "int_ok (y + int row)" using Cons.prems(2) by simp
  from render_cols_ok [OF Cons.prems(1) this c, of opt "data ! (at + row)"]
  obtain G1 where "render_cols opt (data ! (at + row)) x (y + int row) [0..<8] G = Some G1" "graphics_ok G1" by blast
  then show ?case using Cons.IH [of G1] Cons.prems by (simp add: peek_def)
qed simp

text \<open>A font as \<open>LoadFontFile\<close> makes it from a file: a table of at least 256 glyphs.\<close>

lemma glyph_ok:
  assumes "graphics_ok G" and "256 * unat h \<le> length table" and "int_ok x" and "int_ok (x + 8)" and "int_ok y" and "int_ok (y + 256)"
  shows "\<exists>G'. RenderGlyph (Some (psf_font h table)) c x y (Some opt) G = Some (if 32 \<le> c \<and> c \<le> 126 then 8 else 0, G') \<and> graphics_ok G'"
proof (cases "32 \<le> c \<and> c \<le> 126")
  case True
  have hb: "unat h < 256" using unsigned_less [of h, where ?'a = nat] by simp
  have u: "unat (ucast h :: u16) = unat h" by (simp add: unsigned_ucast_eq take_bit_nat_eq_self less_trans [OF unsigned_less])
  have k: "bytes_per_glyph (psf_font h table) = Some (of_nat (unat h))"
  proof -
    have "h = 16" if "ucast h = (16 :: u16)" using u unfolding that by (intro unat_eqI) simp
    moreover have "h = 8" if "ucast h = (8 :: u16)" using u unfolding that by (intro unat_eqI) simp
    ultimately show ?thesis using hb u by (auto simp: bytes_per_glyph_def psf_font_def Let_def)
  qed
  have i: "unat (c - 32) \<le> 94" using True by (auto simp: word_le_nat_alt unat_sub)
  have "unat ((c - 32) * of_nat (unat h)) = unat (c - 32) * unat h"
  proof -
    have "unat (of_nat (unat h) :: u32) = unat h" by (rule unat_of_nat_small) (use hb in simp)
    moreover have "unat (c - 32) * unat h < 2 ^ 32"
      using mult_le_mono [OF i, of "unat h" 256] hb by simp
    ultimately show ?thesis by (subst unat_mult_small) simp_all
  qed
  moreover have "unat (c - 32) * unat h + row < length table" if "row < unat h" for row
  proof -
    have "unat (c - 32) * unat h + row < 95 * unat h" using mult_le_mono1 [OF i, of "unat h"] that by linarith
    then show ?thesis using assms(2) by linarith
  qed
  ultimately obtain G' where "render_rows opt table (unat ((c - 32) * of_nat (unat h))) x y [0..<unat h] G = Some G'" "graphics_ok G'"
    using render_rows_ok [OF assms(1), of "[0..<unat h]" "unat ((c - 32) * of_nat (unat h))" table y x opt] assms(3-6) hb
    by (force simp: int_ok_def)
  moreover have "(c < 32 \<or> 126 < c) = False" using True by auto
  ultimately show ?thesis
    using True k u by (simp add: RenderGlyph_def RenderBitmapGlyph_def del: not_less) (simp add: psf_font_def)
next
  case False
  then show ?thesis using assms(1) by (auto simp: RenderGlyph_def RenderBitmapGlyph_def psf_font_def not_le)
qed

text \<open>How wide a text is, by the number of its printable characters.\<close>

definition printable_count :: "u16 list \<Rightarrow> nat" where
  "printable_count cs = length (filter (\<lambda>c. 32 \<le> c \<and> c \<le> 126) cs)"

lemma printable_count_simps [simp]:
  "printable_count [] = 0" "printable_count (c # cs) = (if 32 \<le> c \<and> c \<le> 126 then 1 else 0) + printable_count cs"
  by (simp_all add: printable_count_def)

lemma measure_loop_eq:
  "f_max_width f = 8 \<Longrightarrow> 0 \<le> w \<Longrightarrow> int_ok (w + 8 * int (printable_count cs)) \<Longrightarrow>
   measure_loop f cs w = Some (w + 8 * int (printable_count cs))"
proof (induction cs arbitrary: w)
  case (Cons c cs)
  show ?case
  proof (cases "32 \<le> c \<and> c \<le> 126")
    case True
    then have i: "int_ok (w + 8 + 8 * int (printable_count cs))" using Cons.prems(3) by (simp add: algebra_simps)
    then have "int_ok (w + 8)" using Cons.prems(2) by (simp add: int_ok_def)
    moreover have "measure_loop f (c # cs) w = (if int_ok (w + 8) then measure_loop f cs (w + 8) else None)"
      using True Cons.prems(1) by (simp add: Let_def)
    ultimately show ?thesis using True Cons.IH [of "w + 8"] Cons.prems i by (simp add: algebra_simps del: measure_loop.simps)
  next
    case False
    then have m: "measure_loop f (c # cs) w = measure_loop f cs w" by auto
    have p: "printable_count (c # cs) = printable_count cs" using False by auto
    show ?thesis using Cons.IH [of w] Cons.prems unfolding m p by blast
  qed
qed simp

lemma ucast_range: "32 \<le> (ucast (c :: u16) :: u32) \<and> (ucast c :: u32) \<le> 126 \<longleftrightarrow> 32 \<le> c \<and> c \<le> 126"
proof -
  have "unat (ucast c :: u32) = unat c" by (simp add: unsigned_ucast_eq take_bit_nat_eq_self less_trans [OF unsigned_less])
  then show ?thesis by (simp add: word_le_nat_alt)
qed

lemma render_text_ok:
  "graphics_ok G \<Longrightarrow> 256 * unat h \<le> length table \<Longrightarrow> int_ok y \<Longrightarrow> int_ok (y + 256) \<Longrightarrow> int_ok x \<Longrightarrow>
   int_ok (x + 8 * int (length cs) + 8) \<Longrightarrow> 0 \<le> w \<Longrightarrow> int_ok (w + 8 * int (length cs)) \<Longrightarrow>
   \<exists>G'. render_text_loop (psf_font h table) cs x y w opt G = Some (w + 8 * int (printable_count cs), G') \<and> graphics_ok G'"
proof (induction cs arbitrary: x w G)
  case (Cons c cs)
  define g where "g = (if 32 \<le> c \<and> c \<le> 126 then 8 else 0 :: int)"
  have g: "0 \<le> g" "g \<le> 8" by (simp_all add: g_def)
  have "int_ok (x + 8)" using Cons.prems(5,6) by (simp add: int_ok_def)
  from glyph_ok [OF Cons.prems(1,2,5) this Cons.prems(3,4), of "ucast c" opt]
  obtain G1 where G1: "RenderGlyph (Some (psf_font h table)) (ucast c) x y (Some opt) G = Some (g, G1)" "graphics_ok G1"
    unfolding ucast_range g_def by blast
  have i: "int_ok (x + g)" "int_ok (w + g)" "int_ok (x + g + 8 * int (length cs) + 8)" "int_ok (w + g + 8 * int (length cs))"
    using Cons.prems(5-8) g by (auto simp: int_ok_def)
  obtain G' where "render_text_loop (psf_font h table) cs (x + g) y (w + g) opt G1 = Some (w + g + 8 * int (printable_count cs), G')"
    "graphics_ok G'"
    using Cons.IH [OF G1(2) Cons.prems(2,3,4) i(1,3) _ i(4)] Cons.prems(7) g by auto
  moreover have "g = 8 * int (if 32 \<le> c \<and> c \<le> 126 then 1 else 0)" by (simp add: g_def)
  ultimately show ?case using G1(1) i(1,2) by (simp add: algebra_simps)
qed simp

lemma psf_glyphs_enough:
  assumes "parse_psf1 data n = Some (Some (h, glyphs, count))" and "unat n \<le> length data"
  shows "unat h * count \<le> length glyphs" and "256 * unat h \<le> unat h * count"
proof -
  have c: "count = 256 \<or> count = 512" and "\<not> n < 4 + ucast h * of_nat count" and gl: "glyphs = drop 4 data"
    using assms(1) by (auto simp: parse_psf1_def Let_def split: if_splits)
  have hb: "unat h < 256" using unsigned_less [of h, where ?'a = nat] by simp
  have "(4 + ucast h * of_nat count :: u64) = of_nat (4 + unat h * count)" by simp
  then have "unat (4 + ucast h * of_nat count :: u64) = 4 + unat h * count"
    using c hb by (simp only:) (rule unat_of_nat_small, auto)
  then have "4 + unat h * count \<le> length data"
    using \<open>\<not> n < 4 + ucast h * of_nat count\<close> assms(2) by (simp add: word_less_nat_alt)
  then show "unat h * count \<le> length glyphs" by (simp add: gl)
  show "256 * unat h \<le> unat h * count" using c by auto
qed

lemma psf_table_large:
  assumes "parse_psf1 data n = Some (Some (h, glyphs, count))" and "unat n \<le> length data"
  shows "256 * unat h \<le> length (take (unat h * count) glyphs)"
  using psf_glyphs_enough [OF assms] by simp

text \<open>C37: Text in a font from a file is drawn safely and is as wide as it is measured: with a font that was read from a PSF
  file, on a screen with a large enough framebuffer or without one, \<open>RenderText\<close> reads no byte outside the font and stores no
  pixel outside the framebuffer, for every text and every position that does not overflow, and it returns the
  width that \<open>MeasureText\<close> reports.\<close>

theorem psf_text_drawn_as_measured:
  assumes "parse_psf1 data n = Some (Some (h, glyphs, count))" and "unat n \<le> length data" and "graphics_ok G"
    and "int_ok x" and "int_ok (x + 8 * int (length cs) + 8)" and "int_ok (8 * int (length cs))" and "int_ok y" and "int_ok (y + 256)"
  shows "\<exists>w m G'. RenderText (Some (psf_font h (take (unat h * count) glyphs))) (Some cs) x y (Some opt) G = Some (w, G') \<and>
    graphics_ok G' \<and> MeasureText (psf_font h (take (unat h * count) glyphs)) cs = Some (w, m)"
proof -
  let ?f = "psf_font h (take (unat h * count) glyphs)"
  obtain G' where "render_text_loop ?f cs x y 0 opt G = Some (8 * int (printable_count cs), G')" "graphics_ok G'"
    using render_text_ok [OF assms(3) psf_table_large [OF assms(1,2)] assms(7,8,4,5), of 0 opt] assms(6) by auto
  moreover have "measure_loop ?f cs 0 = Some (8 * int (printable_count cs))"
  proof -
    have "printable_count cs \<le> length cs" by (simp add: printable_count_def)
    then have "int_ok (0 + 8 * int (printable_count cs))" using assms(6) by (simp add: int_ok_def)
    then show ?thesis using measure_loop_eq [of ?f 0 cs] by (simp add: psf_font_def)
  qed
  ultimately show ?thesis by (simp add: RenderText_def MeasureText_def)
qed

text \<open>The built-in font has no glyph for most characters: drawing a lower-case letter reads behind its table.\<close>

lemma builtin_font_too_short: "RenderText (Some default_font) (Some [97]) 0 0 (Some opt) None = None"
proof -
  have "length builtin_font_8x16 = 96" by (simp add: builtin_font_8x16_def)
  moreover have "unat (((ucast (97 :: u16) :: u32) - 32) * 16) = 1040" by simp
  moreover have "[0..<16] = 0 # [1..<16]" by (simp add: upt_conv_Cons)
  ultimately show ?thesis
    by (simp add: RenderText_def RenderGlyph_def RenderBitmapGlyph_def default_font_def bytes_per_glyph_def peek_def)
qed

section \<open>The mode that is set\<close>

text \<open>Among the modes that can be queried and whose area does not wrap, the one with the largest area is chosen.\<close>

definition mode_area :: "u32 \<times> u32 \<times> u32 \<Rightarrow> u32" where
  "mode_area m = fst (snd m) * snd (snd m)"

lemma best_mode_max:
  "\<forall>i \<in> set is. \<not> EFI_ERROR (fst (gop_query G (of_nat i))) \<Longrightarrow>
   mode_area best \<le> mode_area (best_mode G is best) \<and>
   (\<forall>i \<in> set is. fst (snd (gop_query G (of_nat i))) * snd (snd (gop_query G (of_nat i))) \<le> mode_area (best_mode G is best))"
proof (induction "is" arbitrary: best)
  case (Cons i "is")
  obtain st w h where q: "gop_query G (of_nat i) = (st, w, h)" by (rule prod_cases3)
  obtain bm bw bh where b: "best = (bm, bw, bh)" by (rule prod_cases3)
  define best' where "best' = (if bw * bh < w * h then (of_nat i, w, h) else best)"
  have e: "best_mode G (i # is) best = best_mode G is best'" using Cons.prems q b by (simp add: best'_def)
  have "w * h \<le> mode_area best'" "mode_area best \<le> mode_area best'" using b by (auto simp: best'_def mode_area_def)
  then show ?case unfolding e using Cons.IH [of best'] Cons.prems q by (auto intro: order_trans)
qed simp

section \<open>Witnesses\<close>

definition tiny_screen :: screen where
  "tiny_screen = \<lparr>scr_width = 2, scr_height = 2, scr_line = 2, scr_fb = [0, 0, 0, 0]\<rparr>"

theorem psf_text_drawn_as_measured_witness:
  "\<exists>w m G'. RenderText (Some (psf_font 1 (replicate 256 0))) (Some [65, 66]) 0 0
     (Some \<lparr>o_color = 1, o_bg_color = 0, o_use_bg = False\<rparr>) (Some tiny_screen) = Some (w, G') \<and>
    MeasureText (psf_font 1 (replicate 256 0)) [65, 66] = Some (w, m)"
proof -
  have "parse_psf1 ([0x36, 0x04, 0, 1] @ replicate 256 0) 260 = Some (Some (1, replicate 256 0, 256))"
    by (simp add: parse_psf1_def)
  from psf_text_drawn_as_measured [OF this, of "Some tiny_screen" 0 "[65, 66]" 0 "\<lparr>o_color = 1, o_bg_color = 0, o_use_bg = False\<rparr>"] show ?thesis
    by (auto simp: screen_ok_def tiny_screen_def int_ok_def)
qed

end
