(* ===== verification/Tpm2.thy ===== *)
theory Tpm2
  imports Sha256
begin

text \<open>
  The TPM driver and measured boot, \<^verbatim>\<open>security/tpm2.c\<close>. The chip is a parameter: a state of any type and the four
  register accesses on it, the record \<open>tpm_bus\<close>. The global variables of the module are the record \<open>tpm\<close>. The file writes
  some names with two letters swapped (\<^verbatim>\<open>g_tmp_base_address\<close>, \<^verbatim>\<open>tmp_read8\<close>, \<^verbatim>\<open>tmp2_measure_file\<close>, \<^verbatim>\<open>g_tmp_initialized\<close>), so that it
  does not compile; the model takes the names that exist. Memory that \<open>malloc\<close> returns holds zeros in the model, which
  nothing depends on.
\<close>

section \<open>The chip\<close>

record 'd tpm_bus =
  bus_read8 :: "'d \<Rightarrow> u32 \<Rightarrow> u8 \<times> 'd"
  bus_read32 :: "'d \<Rightarrow> u32 \<Rightarrow> u32 \<times> 'd"
  bus_write8 :: "'d \<Rightarrow> u32 \<Rightarrow> u8 \<Rightarrow> 'd"
  bus_write32 :: "'d \<Rightarrow> u32 \<Rightarrow> u32 \<Rightarrow> 'd"

datatype tpm_interface = TPM2_INTERFACE_TIS | TPM2_INTERFACE_CRB | TPM2_INTERFACE_FTPM | TPM2_INTERFACE_NONE

section \<open>The event log\<close>

record pcr_event =
  ev_pcr_index :: u32
  ev_type :: u32
  ev_digest :: "u8 list"
  ev_data_size :: u32

record event_log =
  log_events :: "pcr_event list"
  log_max_events :: u32
  log_buffer :: "u8 list"
  log_size :: u32
  log_max_size :: u32

definition empty_log :: event_log where
  "empty_log = \<lparr>log_events = [], log_max_events = 0, log_buffer = [], log_size = 0, log_max_size = 0\<rparr>"

text \<open>\<open>alloc\<close> says whether an allocation succeeds; a failure leaves nothing that is used again.\<close>

definition tpm2_event_log_init :: "(u64 \<Rightarrow> bool) \<Rightarrow> event_log \<Rightarrow> u32 \<Rightarrow> u32 \<Rightarrow> int \<times> event_log" where
  "tpm2_event_log_init alloc log max_events max_log_size =
     (if \<not> alloc (ucast max_events * 32) then (-1, log)
      else if \<not> alloc (ucast max_log_size) then (-1, log)
      else (0, \<lparr>log_events = [], log_max_events = max_events, log_buffer = replicate (unat max_log_size) 0, log_size = 0,
                log_max_size = max_log_size\<rparr>))"

definition desc_bytes :: "u8 list ptr \<Rightarrow> u8 list" where
  "desc_bytes description = (case description of None \<Rightarrow> [] | Some s \<Rightarrow> s @ [0])"

definition tpm2_event_log_add ::
  "event_log \<Rightarrow> u32 \<Rightarrow> u32 \<Rightarrow> u8 list ptr \<Rightarrow> u32 \<Rightarrow> u8 list ptr \<Rightarrow> (int \<times> event_log) cmem" where
  "tpm2_event_log_add log pcr_index event_type data data_size description =
     (case data of
        None \<Rightarrow> Some (-1, log)
      | Some d \<Rightarrow>
          if unat (log_max_events log) \<le> length (log_events log) then Some (-1, log)
          else let desc = desc_bytes description;
                   desc_len = of_nat (length desc);
                   total_event_size = 32 + data_size + desc_len in
            if log_max_size log < log_size log + total_event_size then Some (-1, log)
            else do {
              c1 \<leftarrow> memcpy (replicate (unat (data_size + desc_len)) 0) 0 d 0 (unat data_size);
              combined \<leftarrow> memcpy c1 (unat data_size) desc 0 (length desc);
              h \<leftarrow> sha256_hash (Some combined) (data_size + desc_len) (Some (replicate 32 0));
              buf \<leftarrow> memcpy (log_buffer log) (unat (log_size log)) combined 0 (unat (data_size + desc_len));
              Some (0, log\<lparr>log_events := log_events log @
                              [\<lparr>ev_pcr_index = pcr_index, ev_type = event_type, ev_digest = take 20 (the h),
                                ev_data_size = data_size + desc_len\<rparr>],
                           log_buffer := buf, log_size := log_size log + total_event_size\<rparr>)
            })"

definition tpm2_event_log_cleanup :: "event_log \<Rightarrow> event_log" where
  "tpm2_event_log_cleanup log = empty_log"

section \<open>Commands\<close>

record 'd tpm =
  g_tpm_interface :: tpm_interface
  g_tpm_base_address :: u32
  g_tpm_initialized :: bool
  g_global_event_log :: event_log
  chip :: 'd

text \<open>The value of the counter when a loop of the form \<^verbatim>\<open>while (timeout-- > 0)\<close> with a break is left; \<open>ready\<close> is the
  condition of the break, which reads a register.\<close>

fun tpm_poll :: "('d \<Rightarrow> bool \<times> 'd) \<Rightarrow> nat \<Rightarrow> 'd \<Rightarrow> int \<times> 'd" where
  "tpm_poll ready 0 d = (-1, d)"
| "tpm_poll ready (Suc t) d = (let (r, d1) = ready d in if r then (int t, d1) else tpm_poll ready t d1)"

definition status_bit :: "'d tpm_bus \<Rightarrow> u32 \<Rightarrow> u32 \<Rightarrow> 'd \<Rightarrow> bool \<times> 'd" where
  "status_bit B base bits d = (let (v, d1) = bus_read32 B d (base + 0x18) in (v AND bits \<noteq> 0, d1))"

definition access_bit :: "'d tpm_bus \<Rightarrow> u32 \<Rightarrow> 'd \<Rightarrow> bool \<times> 'd" where
  "access_bit B base d = (let (v, d1) = bus_read8 B d base in (v AND 0x20 \<noteq> 0, d1))"

fun detect_loop :: "'d tpm_bus \<Rightarrow> u32 list \<Rightarrow> 'd tpm \<Rightarrow> tpm_interface \<times> 'd tpm" where
  "detect_loop B [] t = (TPM2_INTERFACE_NONE, t)"
| "detect_loop B (a # as) t =
     (let (did_vid, d1) = bus_read32 B (chip t) (a + 0xF00) in
      if did_vid \<noteq> 0xFFFFFFFF \<and> did_vid \<noteq> 0 then
        (let (caps, d2) = bus_read32 B d1 (a + 0x14) in
         (if caps AND 4 \<noteq> 0 then TPM2_INTERFACE_CRB else TPM2_INTERFACE_TIS, t\<lparr>g_tpm_base_address := a, chip := d2\<rparr>))
      else detect_loop B as (t\<lparr>g_tpm_base_address := a, chip := d1\<rparr>))"

definition tpm2_detect_interface :: "'d tpm_bus \<Rightarrow> 'd tpm \<Rightarrow> tpm_interface \<times> 'd tpm" where
  "tpm2_detect_interface B t = detect_loop B [0xFED40000, 0xFED41000] t"

definition tpm2_init_interface :: "'d tpm_bus \<Rightarrow> tpm_interface \<Rightarrow> 'd tpm \<Rightarrow> int \<times> 'd tpm" where
  "tpm2_init_interface B interface t =
     (let t1 = t\<lparr>g_tpm_interface := interface\<rparr>; base = g_tpm_base_address t1 in
      if interface = TPM2_INTERFACE_NONE then (-1, t1)
      else if interface = TPM2_INTERFACE_TIS then
        (let d1 = bus_write8 B (chip t1) base 2;
             (timeout, d2) = tpm_poll (access_bit B base) 1000 d1
         in (if timeout \<le> 0 then -1 else 0, t1\<lparr>chip := d2\<rparr>))
      else (0, t1))"

fun send_bytes :: "'d tpm_bus \<Rightarrow> u32 \<Rightarrow> u8 list \<Rightarrow> 'd \<Rightarrow> 'd" where
  "send_bytes B base [] d = d"
| "send_bytes B base (b # bs) d = send_bytes B base bs (bus_write8 B d (base + 0x24) b)"

fun recv_bytes :: "'d tpm_bus \<Rightarrow> u32 \<Rightarrow> nat \<Rightarrow> 'd \<Rightarrow> u8 list \<times> 'd" where
  "recv_bytes B base 0 d = ([], d)"
| "recv_bytes B base (Suc n) d =
     (let (avail, d1) = status_bit B base 0x10 d in
      if \<not> avail then ([], d1)
      else let (b, d2) = bus_read8 B d1 (base + 0x24); (bs, d3) = recv_bytes B base n d2 in (b # bs, d3))"

text \<open>The code, the response and its size.\<close>

definition tpm2_send_command ::
  "'d tpm_bus \<Rightarrow> u8 list ptr \<Rightarrow> u32 \<Rightarrow> u8 list ptr \<Rightarrow> u32 ptr \<Rightarrow> 'd tpm \<Rightarrow> ((int \<times> u8 list ptr \<times> u32 ptr) \<times> 'd tpm) cmem" where
  "tpm2_send_command B command command_size response response_size t =
     (case (command, response, response_size) of
        (Some cmd, Some resp, Some n) \<Rightarrow>
          if g_tpm_interface t = TPM2_INTERFACE_TIS then
            (let base = g_tpm_base_address t; (timeout, d1) = tpm_poll (status_bit B base 0x40) 1000 (chip t) in
             if timeout \<le> 0 then Some ((-1, response, response_size), t\<lparr>chip := d1\<rparr>)
             else if length cmd < unat command_size then None
             else
               let d2 = send_bytes B base (take (unat command_size) cmd) d1;
                   d3 = bus_write32 B d2 (base + 0x18) 0x20;
                   (timeout, d4) = tpm_poll (status_bit B base 0x10) 5000 d3
               in if timeout \<le> 0 then Some ((-1, response, response_size), t\<lparr>chip := d4\<rparr>)
                  else let (bs, d5) = recv_bytes B base (unat n) d4 in
                    (case memcpy resp 0 bs 0 (length bs) of
                       None \<Rightarrow> None
                     | Some resp' \<Rightarrow> Some ((0, Some resp', Some (of_nat (length bs))), t\<lparr>chip := d5\<rparr>)))
          else Some ((-1, response, response_size), t)
      | _ \<Rightarrow> Some ((-1, response, response_size), t))"

text \<open>Sending a command with a response of up to 64 bytes and looking at its code, as all callers do.\<close>

definition run_command :: "'d tpm_bus \<Rightarrow> u8 list \<Rightarrow> u32 \<Rightarrow> 'd tpm \<Rightarrow> (int \<times> 'd tpm) cmem" where
  "run_command B command n t =
     (case tpm2_send_command B (Some command) n (Some (replicate 64 0)) (Some 64) t of
        None \<Rightarrow> None
      | Some ((r, resp, rn), t') \<Rightarrow>
          if r \<noteq> 0 then Some (r, t')
          else (case (resp, rn) of
                  (Some bs, Some k) \<Rightarrow>
                    Some (if 10 \<le> k then if be32 (bs ! 6) (bs ! 7) (bs ! 8) (bs ! 9) = 0 then 0 else -1 else -1, t')
                | _ \<Rightarrow> None))"

definition tpm2_initialize :: "'d tpm_bus \<Rightarrow> (u64 \<Rightarrow> bool) \<Rightarrow> 'd tpm \<Rightarrow> int \<times> 'd tpm" where
  "tpm2_initialize B alloc t =
     (if g_tpm_initialized t then (0, t)
      else let (i, t1) = tpm2_detect_interface B t in
        if i = TPM2_INTERFACE_NONE then (-1, t1)
        else let (r, t2) = tpm2_init_interface B i t1 in
          if r \<noteq> 0 then (-1, t2)
          else let (r, log) = tpm2_event_log_init alloc (g_global_event_log t2) 1000 (64 * 1024) in
            if r \<noteq> 0 then (-1, t2) else (0, t2\<lparr>g_global_event_log := log, g_tpm_initialized := True\<rparr>))"

definition startup_command :: "u16 \<Rightarrow> u8 list" where
  "startup_command ty = [0x80, 1, 0, 0, 0, 12, 0, 0, 1, 0x44, byte_at 8 ty, byte_at 0 ty]"

definition tpm2_startup :: "'d tpm_bus \<Rightarrow> u16 \<Rightarrow> 'd tpm \<Rightarrow> (int \<times> 'd tpm) cmem" where
  "tpm2_startup B ty t = (if \<not> g_tpm_initialized t then Some (-1, t) else run_command B (startup_command ty) 12 t)"

definition tpm2_self_test :: "'d tpm_bus \<Rightarrow> 'd tpm \<Rightarrow> (int \<times> 'd tpm) cmem" where
  "tpm2_self_test B t =
     (if \<not> g_tpm_initialized t then Some (-1, t) else run_command B [0x80, 1, 0, 0, 0, 11, 0, 0, 1, 0x43, 1] 11 t)"

definition extend_command :: "u32 \<Rightarrow> u16 \<Rightarrow> u8 list \<Rightarrow> u8 list" where
  "extend_command pcr_index hash_alg digest =
     [0x80, 1] @ be32_bytes (of_nat (24 + length digest)) @ [0, 0, 1, 0x82] @ be32_bytes pcr_index @ [0, 0, 0, 0] @ [0, 0, 0, 1] @
     [byte_at 8 hash_alg, byte_at 0 hash_alg] @ digest"

definition tpm2_pcr_extend :: "'d tpm_bus \<Rightarrow> u32 \<Rightarrow> u16 \<Rightarrow> u8 list ptr \<Rightarrow> 'd tpm \<Rightarrow> (int \<times> 'd tpm) cmem" where
  "tpm2_pcr_extend B pcr_index hash_alg digest t =
     (case digest of
        None \<Rightarrow> Some (-1, t)
      | Some dg \<Rightarrow>
          if \<not> g_tpm_initialized t \<or> 23 < pcr_index then Some (-1, t)
          else let k = (if hash_alg = 0x000B then 32 else 20) in
            if length dg < k then None
            else run_command B (extend_command pcr_index hash_alg (take k dg)) (of_nat (24 + k)) t)"

section \<open>Measuring\<close>

definition tpm2_measure_data ::
  "'d tpm_bus \<Rightarrow> u32 \<Rightarrow> u32 \<Rightarrow> u8 list ptr \<Rightarrow> u32 \<Rightarrow> u8 list ptr \<Rightarrow> 'd tpm \<Rightarrow> (int \<times> 'd tpm) cmem" where
  "tpm2_measure_data B pcr_index event_type data data_size description t =
     (if data = None \<or> data_size = 0 then Some (-1, t)
      else do {
        digest \<leftarrow> sha256_hash data data_size (Some (replicate 32 0));
        (r, t1) \<leftarrow> tpm2_pcr_extend B pcr_index 0x000B digest t;
        if r \<noteq> 0 then Some (r, t1)
        else do {
          (r2, log) \<leftarrow> tpm2_event_log_add (g_global_event_log t1) pcr_index event_type data data_size description;
          Some (r2, t1\<lparr>g_global_event_log := log\<rparr>)
        }
      })"

definition tpm2_measure_string :: "'d tpm_bus \<Rightarrow> u32 \<Rightarrow> u32 \<Rightarrow> u8 list ptr \<Rightarrow> 'd tpm \<Rightarrow> (int \<times> 'd tpm) cmem" where
  "tpm2_measure_string B pcr_index event_type s t =
     (case s of
        None \<Rightarrow> Some (-1, t)
      | Some str \<Rightarrow> tpm2_measure_data B pcr_index event_type (Some (str @ [0])) (of_nat (length str)) (Some str) t)"

definition tpm2_measure_separator :: "'d tpm_bus \<Rightarrow> u32 \<Rightarrow> 'd tpm \<Rightarrow> (int \<times> 'd tpm) cmem" where
  "tpm2_measure_separator B pcr_index t =
     tpm2_measure_data B pcr_index 4 (Some [0xFF, 0xFF, 0xFF, 0xFF]) 4 (Some [0x53, 0x65, 0x70, 0x61, 0x72, 0x61, 0x74, 0x6F, 0x72]) t"

definition tpm2_measure_file ::
  "'d tpm_bus \<Rightarrow> (u64 \<Rightarrow> bool) \<Rightarrow> u32 \<Rightarrow> u32 \<Rightarrow> u8 list ptr \<Rightarrow> u8 list ptr \<Rightarrow> u32 \<Rightarrow> 'd tpm \<Rightarrow> (int \<times> 'd tpm) cmem" where
  "tpm2_measure_file B alloc pcr_index event_type filename file_data file_size t =
     (case (filename, file_data) of
        (Some name, Some d) \<Rightarrow>
          let filename_len = of_nat (length name + 1); total_size = filename_len + file_size in
          if \<not> alloc (ucast total_size) then Some (-1, t)
          else do {
            e1 \<leftarrow> memcpy (replicate (unat total_size) 0) 0 (name @ [0]) 0 (unat filename_len);
            event_data \<leftarrow> memcpy e1 (unat filename_len) d 0 (unat file_size);
            tpm2_measure_data B pcr_index event_type (Some event_data) total_size filename t
          }
      | _ \<Rightarrow> Some (-1, t))"

section \<open>Measured boot\<close>

record measured_boot =
  mb_count :: u32
  mb_pcr_mask :: u32
  mb_boot_path :: "u8 list"
  mb_event_log :: event_log

definition empty_context :: measured_boot where
  "empty_context = \<lparr>mb_count = 0, mb_pcr_mask = 0, mb_boot_path = replicate 256 0, mb_event_log = empty_log\<rparr>"

text \<open>The results of the separators are not looked at.\<close>

fun measure_separators :: "'d tpm_bus \<Rightarrow> nat list \<Rightarrow> measured_boot \<Rightarrow> 'd tpm \<Rightarrow> (measured_boot \<times> 'd tpm) cmem" where
  "measure_separators B [] ctx t = Some (ctx, t)"
| "measure_separators B (p # ps) ctx t =
     (case tpm2_measure_separator B (of_nat p) t of
        None \<Rightarrow> None
      | Some (r, t1) \<Rightarrow> measure_separators B ps (ctx\<lparr>mb_pcr_mask := mb_pcr_mask ctx OR push_bit p 1\<rparr>) t1)"

definition start_tpm :: "'d tpm_bus \<Rightarrow> (u64 \<Rightarrow> bool) \<Rightarrow> 'd tpm \<Rightarrow> (int \<times> 'd tpm) cmem" where
  "start_tpm B alloc t =
     (if g_tpm_initialized t then Some (0, t)
      else let (r, t1) = tpm2_initialize B alloc t in
        if r \<noteq> 0 then Some (-1, t1)
        else do {
          (r, t2) \<leftarrow> tpm2_startup B 0 t1;
          if r \<noteq> 0 then Some (-1, t2)
          else do {
            (r, t3) \<leftarrow> tpm2_self_test B t2;
            Some (if r \<noteq> 0 then -1 else 0, t3)
          }
        })"

definition measured_boot_init :: "'d tpm_bus \<Rightarrow> (u64 \<Rightarrow> bool) \<Rightarrow> 'd tpm \<Rightarrow> (int \<times> measured_boot \<times> 'd tpm) cmem" where
  "measured_boot_init B alloc t = do {
     (r, t1) \<leftarrow> start_tpm B alloc t;
     if r \<noteq> 0 then Some (-1, empty_context, t1)
     else let (r, log) = tpm2_event_log_init alloc empty_log 500 (32 * 1024) in
       if r \<noteq> 0 then Some (-1, empty_context, t1)
       else do {
         (ctx, t2) \<leftarrow> measure_separators B [0..<8] (empty_context\<lparr>mb_event_log := log\<rparr>) t1;
         Some (0, ctx, t2)
       }
   }"

definition note_pcr :: "nat \<Rightarrow> measured_boot \<Rightarrow> measured_boot" where
  "note_pcr p ctx = ctx\<lparr>mb_count := mb_count ctx + 1, mb_pcr_mask := mb_pcr_mask ctx OR push_bit p 1\<rparr>"

definition bootloader_version :: "u8 list" where
  "bootloader_version = [0x42, 0x6C, 0x6F, 0x6F, 0x64, 0x48, 0x6F, 0x72, 0x6E, 0x20, 0x76, 0x31, 0x2E, 0x30]"

definition measured_boot_measure_bootloader ::
  "'d tpm_bus \<Rightarrow> measured_boot \<Rightarrow> 'd tpm \<Rightarrow> (int \<times> measured_boot \<times> 'd tpm) cmem" where
  "measured_boot_measure_bootloader B ctx t = do {
     (r, t1) \<leftarrow> tpm2_measure_string B 8 8 (Some bootloader_version) t;
     Some (r, if r = 0 then note_pcr 8 ctx else ctx, t1)
   }"

text \<open>\<open>strncpy\<close> of 255 characters pads with zeros; the last character of the array is left.\<close>

definition copy_path :: "u8 list \<Rightarrow> u8 list \<Rightarrow> u8 list" where
  "copy_path path old = take 255 (path @ replicate 255 0) @ drop 255 old"

definition measured_boot_measure_kernel ::
  "'d tpm_bus \<Rightarrow> (u64 \<Rightarrow> bool) \<Rightarrow> measured_boot \<Rightarrow> u8 list ptr \<Rightarrow> u32 \<Rightarrow> u8 list ptr \<Rightarrow> 'd tpm \<Rightarrow> (int \<times> measured_boot \<times> 'd tpm) cmem" where
  "measured_boot_measure_kernel B alloc ctx kernel_data kernel_size kernel_path t =
     (case (kernel_data, kernel_path) of
        (Some k, Some path) \<Rightarrow> do {
          (r, t1) \<leftarrow> tpm2_measure_file B alloc 9 13 (Some path) (Some k) kernel_size t;
          Some (r, if r = 0 then (note_pcr 9 ctx)\<lparr>mb_boot_path := copy_path path (mb_boot_path ctx)\<rparr> else ctx, t1)
        }
      | _ \<Rightarrow> Some (-1, ctx, t))"

definition tpm2_run_diagnostics :: "'d tpm_bus \<Rightarrow> 'd tpm \<Rightarrow> (int \<times> 'd tpm) cmem" where
  "tpm2_run_diagnostics B t =
     (if \<not> g_tpm_initialized t then Some (-1, t)
      else do {
        digest \<leftarrow> sha256_hash (Some ([0x54, 0x50, 0x4D, 0x20, 0x44, 0x69, 0x61, 0x67, 0x6E, 0x6F, 0x73, 0x74, 0x69, 0x63, 0x20, 0x54, 0x65, 0x73, 0x74] @ [0])) 19
          (Some (replicate 32 0));
        tpm2_pcr_extend B 23 0x000B digest t
      })"

definition tpm2_cleanup :: "'d tpm \<Rightarrow> 'd tpm" where
  "tpm2_cleanup t =
     (if g_tpm_initialized t
      then t\<lparr>g_global_event_log := tpm2_event_log_cleanup (g_global_event_log t), g_tpm_initialized := False\<rparr> else t)"

section \<open>The log keeps what is added\<close>

definition events_bytes :: "pcr_event list \<Rightarrow> nat" where
  "events_bytes es = sum_list (map (\<lambda>e. 32 + unat (ev_data_size e)) es)"

text \<open>The entries of a log as a reader finds them: each takes 32 bytes more than its data.\<close>

fun read_events :: "u8 list \<Rightarrow> pcr_event list \<Rightarrow> (u32 \<times> u32 \<times> u8 list) list" where
  "read_events buf [] = []"
| "read_events buf (e # es) =
     (ev_pcr_index e, ev_type e, take (unat (ev_data_size e)) buf) # read_events (drop (32 + unat (ev_data_size e)) buf) es"

definition read_log :: "event_log \<Rightarrow> (u32 \<times> u32 \<times> u8 list) list" where
  "read_log log = read_events (log_buffer log) (log_events log)"

definition log_wf :: "event_log \<Rightarrow> bool" where
  "log_wf log \<longleftrightarrow>
     length (log_buffer log) = unat (log_max_size log) \<and> unat (log_size log) = events_bytes (log_events log) \<and>
     log_size log \<le> log_max_size log \<and> length (log_events log) \<le> unat (log_max_events log)"

lemma events_bytes_simps [simp]:
  "events_bytes [] = 0" "events_bytes (e # es) = 32 + unat (ev_data_size e) + events_bytes es"
  "events_bytes (es @ es') = events_bytes es + events_bytes es'"
  by (simp_all add: events_bytes_def)

lemma read_events_append:
  "read_events buf (es @ [e]) =
   read_events buf es @ [(ev_pcr_index e, ev_type e, take (unat (ev_data_size e)) (drop (events_bytes es) buf))]"
  by (induction es arbitrary: buf) (simp_all add: add.commute add.left_commute)

lemma read_events_cong:
  "take (events_bytes es) buf = take (events_bytes es) buf' \<Longrightarrow> read_events buf es = read_events buf' es"
proof (induction es arbitrary: buf buf')
  case (Cons e es)
  let ?n = "unat (ev_data_size e)" and ?k = "events_bytes es"
  have t: "take (32 + ?n + ?k) buf = take (32 + ?n + ?k) buf'" using Cons.prems by simp
  have "take ?k (drop (32 + ?n) xs) = drop (32 + ?n) (take (32 + ?n + ?k) xs)" for xs :: "u8 list" by (simp add: drop_take)
  then have c: "take ?k (drop (32 + ?n) buf) = take ?k (drop (32 + ?n) buf')" by (simp only: t)
  have e: "take ?n buf = take ?n buf'"
  proof -
    have a: "take ?n xs = take ?n (take (32 + ?n + ?k) xs)" for xs :: "u8 list" by (simp add: min_absorb1)
    have "take ?n buf = take ?n (take (32 + ?n + ?k) buf')" using a [of buf] unfolding t .
    then show ?thesis by (rule trans) (rule a [symmetric])
  qed
  show ?case unfolding read_events.simps Cons.IH [OF c] e by (rule refl)
qed simp

lemma log_wf_init: "tpm2_event_log_init alloc log a b = (0, log') \<Longrightarrow> log_wf log' \<and> read_log log' = []"
  by (auto simp: tpm2_event_log_init_def log_wf_def read_log_def split: if_splits)

lemma event_log_add_eq:
  assumes wf: "log_wf log" and d: "unat n \<le> length d"
    and small: "unat n + length (desc_bytes desc) + unat (log_size log) \<le> 2 ^ 32 - 96"
  defines "data \<equiv> take (unat n) d @ desc_bytes desc"
  shows "if length (log_events log) < unat (log_max_events log) \<and>
            unat (log_size log) + 32 + length data \<le> unat (log_max_size log)
    then \<exists>log'. tpm2_event_log_add log pcr ty (Some d) n desc = Some (0, log') \<and> log_wf log' \<and>
           read_log log' = read_log log @ [(pcr, ty, data)] \<and> ev_digest (last (log_events log')) = take 20 (sha256_code data)
    else tpm2_event_log_add log pcr ty (Some d) n desc = Some (-1, log)"
proof -
  let ?dl = "of_nat (length (desc_bytes desc)) :: u32"
  have dl: "unat ?dl = length (desc_bytes desc)" by (rule unat_of_nat_small) (use small in simp)
  have ld: "length data = unat n + length (desc_bytes desc)" using d by (simp add: data_def)
  have s: "unat (n + ?dl) = length data" using small by (subst unat_add_small) (simp_all add: dl ld)
  have t: "unat (32 + n + ?dl) = 32 + length data"
  proof -
    have "unat (32 + n) = 32 + unat n" using small by (subst unat_add_small) simp_all
    then show ?thesis using small by (subst unat_add_small) (simp_all add: dl ld)
  qed
  have st: "unat (log_size log + (32 + n + ?dl)) = unat (log_size log) + 32 + length data"
    using small by (subst unat_add_small) (simp_all only: t, simp_all add: ld)
  have c1: "memcpy (replicate (length data) 0) 0 d 0 (unat n) = Some (take (unat n) d @ replicate (length (desc_bytes desc)) 0)"
    using d by (simp add: memcpy_def ld)
  have c2: "memcpy (take (unat n) d @ replicate (length (desc_bytes desc)) 0) (unat n) (desc_bytes desc) 0 (length (desc_bytes desc)) = Some data"
    using d by (simp add: memcpy_def data_def)
  have h: "sha256_hash (Some data) (n + ?dl) (Some (replicate 32 0)) = Some (Some (sha256_code data))"
    using sha256_hash_eq [of "n + ?dl" data "replicate 32 0"] s small ld by simp
  show ?thesis
  proof (cases "length (log_events log) < unat (log_max_events log) \<and> unat (log_size log) + 32 + length data \<le> unat (log_max_size log)")
    case False
    then show ?thesis
      using st by (auto simp: tpm2_event_log_add_def Let_def word_less_nat_alt not_less simp del: unat_plus_if')
  next
    case True
    let ?buf = "take (unat (log_size log)) (log_buffer log) @ data @ drop (unat (log_size log) + length data) (log_buffer log)"
    let ?e = "\<lparr>ev_pcr_index = pcr, ev_type = ty, ev_digest = take 20 (sha256_code data), ev_data_size = n + ?dl\<rparr>"
    let ?log = "log\<lparr>log_events := log_events log @ [?e], log_buffer := ?buf, log_size := log_size log + (32 + n + ?dl)\<rparr>"
    have b: "length (log_buffer log) = unat (log_max_size log)" "unat (log_size log) = events_bytes (log_events log)"
      using wf by (simp_all add: log_wf_def)
    have "memcpy (log_buffer log) (unat (log_size log)) data 0 (length data) = Some ?buf"
      using True b by (simp add: memcpy_def)
    then have a: "tpm2_event_log_add log pcr ty (Some d) n desc = Some (0, ?log)"
      unfolding tpm2_event_log_add_def Let_def s using True st c1 c2 h by (simp add: word_less_nat_alt not_less)
    have "log_wf ?log" using True b st s by (simp add: log_wf_def word_le_nat_alt)
    moreover have "read_log ?log = read_log log @ [(pcr, ty, data)]"
    proof -
      have "read_events ?buf (log_events log) = read_events (log_buffer log) (log_events log)"
        by (rule read_events_cong) (use True b in simp)
      moreover have "take (length data) (drop (unat (log_size log)) ?buf) = data" using True b by simp
      ultimately show ?thesis using b(2) s by (simp add: read_log_def read_events_append)
    qed
    ultimately show ?thesis using True a by simp
  qed
qed

section \<open>What the chip is sent\<close>

datatype bus_write = Write8 u32 u8 | Write32 u32 u32

text \<open>A chip together with the list of the writes to its registers.\<close>

definition traced :: "'d tpm_bus \<Rightarrow> ('d \<times> bus_write list) tpm_bus" where
  "traced B =
     \<lparr>bus_read8 = (\<lambda>(d, w) a. let (v, d') = bus_read8 B d a in (v, (d', w))),
      bus_read32 = (\<lambda>(d, w) a. let (v, d') = bus_read32 B d a in (v, (d', w))),
      bus_write8 = (\<lambda>(d, w) a v. (bus_write8 B d a v, w @ [Write8 a v])),
      bus_write32 = (\<lambda>(d, w) a v. (bus_write32 B d a v, w @ [Write32 a v]))\<rparr>"

definition command_written :: "u32 \<Rightarrow> u8 list \<Rightarrow> bus_write list" where
  "command_written base cmd = map (Write8 (base + 0x24)) cmd @ [Write32 (base + 0x18) 0x20]"

lemma status_bit_traced: "snd (snd (status_bit (traced B) base bits d)) = snd d"
  by (simp add: status_bit_def traced_def split: prod.split)

lemma tpm_poll_traced: "(\<And>d. snd (snd (ready d)) = snd d) \<Longrightarrow> snd (snd (tpm_poll ready n d)) = snd d"
proof (induction n arbitrary: d)
  case (Suc n)
  obtain r d1 where "ready d = (r, d1)" by (rule prod.exhaust)
  then show ?case using Suc.IH [of d1] Suc.prems [of d] Suc.prems by simp
qed simp

lemma write32_traced: "snd (bus_write32 (traced B) d a v) = snd d @ [Write32 a v]"
  by (cases d) (simp add: traced_def)

lemma send_bytes_traced: "snd (send_bytes (traced B) base bs d) = snd d @ map (Write8 (base + 0x24)) bs"
  by (induction bs arbitrary: d) (simp_all add: traced_def split: prod.split)

lemma recv_bytes_traced: "snd (snd (recv_bytes (traced B) base n d)) = snd d"
proof (induction n arbitrary: d)
  case (Suc n)
  obtain r d1 where s: "status_bit (traced B) base 0x10 d = (r, d1)" by (rule prod.exhaust)
  then have d1: "snd d1 = snd d" using status_bit_traced [of B base "0x10" d] by simp
  obtain b d2 where b: "bus_read8 (traced B) d1 (base + 0x24) = (b, d2)" by (rule prod.exhaust)
  then have d2: "snd d2 = snd d1" by (auto simp: traced_def split: prod.splits)
  obtain bs d3 where r: "recv_bytes (traced B) base n d2 = (bs, d3)" by (rule prod.exhaust)
  then show ?case using Suc.IH [of d2] s b d1 d2 by simp
qed simp

text \<open>A command is written whole and started, or not at all; when the result is zero, it has been written.\<close>

lemma send_command_writes:
  assumes "tpm2_send_command (traced B) (Some cmd) n (Some resp) (Some k) t = Some ((r, resp', k'), t')"
  shows "(snd (chip t') = snd (chip t) \<and> r \<noteq> 0 \<or>
      snd (chip t') = snd (chip t) @ command_written (g_tpm_base_address t) (take (unat n) cmd)) \<and>
    g_global_event_log t' = g_global_event_log t \<and> g_tpm_base_address t' = g_tpm_base_address t"
proof -
  let ?base = "g_tpm_base_address t"
  obtain x d1 where p1: "tpm_poll (status_bit (traced B) ?base 0x40) 1000 (chip t) = (x, d1)" by (rule prod.exhaust)
  then have d1: "snd d1 = snd (chip t)" using tpm_poll_traced [of "status_bit (traced B) ?base 0x40", OF status_bit_traced, of 1000 "chip t"] by simp
  define d3 where "d3 = bus_write32 (traced B) (send_bytes (traced B) ?base (take (unat n) cmd) d1) (?base + 0x18) 0x20"
  have d3: "snd d3 = snd (chip t) @ command_written ?base (take (unat n) cmd)"
    using send_bytes_traced [of B ?base "take (unat n) cmd" d1] d1
    by (simp add: d3_def write32_traced command_written_def)
  obtain y d4 where p2: "tpm_poll (status_bit (traced B) ?base 0x10) 5000 d3 = (y, d4)" by (rule prod.exhaust)
  then have d4: "snd d4 = snd d3" using tpm_poll_traced [of "status_bit (traced B) ?base 0x10", OF status_bit_traced, of 5000 d3] by simp
  obtain bs d5 where p3: "recv_bytes (traced B) ?base (unat k) d4 = (bs, d5)" by (rule prod.exhaust)
  then have d5: "snd d5 = snd d4" using recv_bytes_traced [of B ?base "unat k" d4] by simp
  show ?thesis
    using assms d1 d3 d4 d5
    by (auto simp: tpm2_send_command_def Let_def p1 d3_def [symmetric] p2 p3 split: if_splits option.splits)
qed

lemma run_command_writes:
  assumes "run_command (traced B) cmd n t = Some (r, t')"
  shows "(snd (chip t') = snd (chip t) \<and> r \<noteq> 0 \<or>
      snd (chip t') = snd (chip t) @ command_written (g_tpm_base_address t) (take (unat n) cmd)) \<and>
    g_global_event_log t' = g_global_event_log t \<and> g_tpm_base_address t' = g_tpm_base_address t"
proof -
  obtain r1 resp k where s: "tpm2_send_command (traced B) (Some cmd) n (Some (replicate 64 0)) (Some 64) t = Some ((r1, resp, k), t')"
    and "r1 \<noteq> 0 \<longrightarrow> r = r1"
    using assms by (auto simp: run_command_def split: option.splits if_splits)
  then show ?thesis using send_command_writes [OF s] by auto
qed

lemma pcr_extend_writes:
  assumes "tpm2_pcr_extend (traced B) pcr 0x000B (Some dg) t = Some (r, t')" and "length dg = 32"
  shows "(snd (chip t') = snd (chip t) \<and> r \<noteq> 0 \<or>
      snd (chip t') = snd (chip t) @ command_written (g_tpm_base_address t) (extend_command pcr 0x000B dg)) \<and>
    g_global_event_log t' = g_global_event_log t \<and> g_tpm_base_address t' = g_tpm_base_address t"
proof (cases "\<not> g_tpm_initialized t \<or> 23 < pcr")
  case True
  then show ?thesis using assms(1) by (auto simp: tpm2_pcr_extend_def)
next
  case False
  have "length (extend_command pcr 0x000B dg) = 56" using assms(2) by (simp add: extend_command_def be32_bytes_def)
  then show ?thesis
    using run_command_writes [of B "extend_command pcr 0x000B dg" 56 t r t'] assms False
    by (simp add: tpm2_pcr_extend_def)
qed


section \<open>A chip that answers\<close>

definition ready_chip :: "unit tpm_bus" where
  "ready_chip =
     \<lparr>bus_read8 = (\<lambda>d a. (0, d)), bus_read32 = (\<lambda>d a. (0x50, d)), bus_write8 = (\<lambda>d a v. d), bus_write32 = (\<lambda>d a v. d)\<rparr>"

lemma ready_status: "bits AND 0x50 \<noteq> 0 \<Longrightarrow> status_bit (traced ready_chip) base bits d = (True, d)"
  by (cases d) (simp add: status_bit_def traced_def ready_chip_def and.commute)

lemma tpm_poll_ready: "ready d = (True, d1) \<Longrightarrow> 0 < n \<Longrightarrow> tpm_poll ready n d = (int (n - 1), d1)"
  by (cases n) auto

lemma recv_ready: "recv_bytes (traced ready_chip) base n d = (replicate n 0, d)"
proof (induction n)
  case (Suc n)
  have "bus_read8 (traced ready_chip) d (base + 0x24) = (0, d)" by (cases d) (simp add: traced_def ready_chip_def)
  then show ?case using Suc by (simp add: ready_status)
qed simp

definition ready_tpm :: "(unit \<times> bus_write list) tpm" where
  "ready_tpm =
     \<lparr>g_tpm_interface = TPM2_INTERFACE_TIS, g_tpm_base_address = 0xFED40000, g_tpm_initialized = True,
      g_global_event_log = snd (tpm2_event_log_init (\<lambda>n. True) empty_log 1000 (64 * 1024)), chip = ((), [])\<rparr>"

lemma ready_log: "log_wf (g_global_event_log ready_tpm)" "log_size (g_global_event_log ready_tpm) = 0"
  "read_log (g_global_event_log ready_tpm) = []"
  "unat (log_max_events (g_global_event_log ready_tpm)) = 1000" "unat (log_max_size (g_global_event_log ready_tpm)) = 65536"
  "log_events (g_global_event_log ready_tpm) = []"
  by (simp_all add: ready_tpm_def tpm2_event_log_init_def log_wf_def read_log_def)

lemma ready_command:
  "length cmd = unat n \<Longrightarrow> \<exists>t'. run_command (traced ready_chip) cmd n ready_tpm = Some (0, t') \<and>
     g_global_event_log t' = g_global_event_log ready_tpm"
  by (simp add: run_command_def tpm2_send_command_def ready_tpm_def Let_def tpm_poll_ready [OF ready_status] recv_ready memcpy_def
      be32_def split: prod.split)


end
