(* ===== verification/Scripting.thy ===== *)
theory Scripting
  imports BH_Prelude
begin

text \<open>
  The extension mechanisms: the stack machine for scripts \<^verbatim>\<open>scripting/lua.c\<close> and the tables beside it (\<^verbatim>\<open>script_api.c\<close>,
  \<^verbatim>\<open>script_env.c\<close>, \<^verbatim>\<open>script_loader.c\<close>), the plugin tables of \<^verbatim>\<open>plugins\<close>, and the command line and history of the
  recovery shell (\<^verbatim>\<open>recovery/shell.c\<close>, \<^verbatim>\<open>shell_history.c\<close>). Strings are character lists without the terminating zero. A table with
  a counter is the list of its first entries. Callbacks, plugins and files are parameters.
\<close>

section \<open>Splitting a string\<close>

text \<open>The tokens that \<open>strtok\<close> yields one after the other.\<close>

function strtok_all :: "(char \<Rightarrow> bool) \<Rightarrow> string \<Rightarrow> string list" where
  "strtok_all sep s =
     (let p = dropWhile sep s in
      if p = [] then [] else takeWhile (\<lambda>c. \<not> sep c) p # strtok_all sep (dropWhile (\<lambda>c. \<not> sep c) p))"
  by pat_completeness auto
termination
proof (relation "measure (\<lambda>(sep, s). length s)", goal_cases)
  case (2 sep s p)
  then obtain c r where p: "dropWhile sep s = c # r" by (cases "dropWhile sep s") auto
  have "\<not> sep c" using p by (metis hd_dropWhile list.distinct(1) list.sel(1))
  then have "length (dropWhile (\<lambda>c. \<not> sep c) (c # r)) \<le> length r" by (simp add: length_dropWhile_le)
  moreover have "length (c # r) \<le> length s" using length_dropWhile_le [of sep s] p by simp
  ultimately show ?case using 2 p by simp
qed simp

declare strtok_all.simps [simp del]

section \<open>The stack machine\<close>

record 'f lua_state =
  lua_stack :: "int list"
  lua_functions :: "(string \<times> 'f) list"

definition lua_init :: "'f lua_state" where
  "lua_init = \<lparr>lua_stack = [], lua_functions = []\<rparr>"

text \<open>The top of the stack is the last element. A full stack drops what is pushed.\<close>

definition lua_push :: "int \<Rightarrow> 'f lua_state \<Rightarrow> 'f lua_state" where
  "lua_push v st = (if length (lua_stack st) < 256 then st\<lparr>lua_stack := lua_stack st @ [v]\<rparr> else st)"

definition lua_pop :: "'f lua_state \<Rightarrow> int \<times> 'f lua_state" where
  "lua_pop st =
     (if lua_stack st \<noteq> [] then (last (lua_stack st), st\<lparr>lua_stack := butlast (lua_stack st)\<rparr>) else (0, st))"

text \<open>The names are copied to arrays of 32 characters.\<close>

definition lua_add_function :: "string \<Rightarrow> 'f \<Rightarrow> 'f lua_state \<Rightarrow> 'f lua_state cmem" where
  "lua_add_function name f st =
     (if length (lua_functions st) < 64 then
        (if length name < 32 then Some (st\<lparr>lua_functions := lua_functions st @ [(name, f)]\<rparr>) else None)
      else Some st)"

text \<open>\<open>call\<close> is what a callback does: its result and the state it leaves.\<close>

definition lua_call_function ::
  "('f \<Rightarrow> 'f lua_state \<Rightarrow> (int \<times> 'f lua_state) cmem) \<Rightarrow> string \<Rightarrow> 'f lua_state \<Rightarrow> (int \<times> 'f lua_state) cmem" where
  "lua_call_function call name st =
     (case map_of (lua_functions st) name of None \<Rightarrow> Some (0, st) | Some f \<Rightarrow> call f st)"

definition in_int :: "int \<Rightarrow> bool" where
  "in_int v \<longleftrightarrow> - (2 ^ 31) \<le> v \<and> v < 2 ^ 31"

text \<open>\<open>atoi\<close>, undefined when the number does not fit.\<close>

definition dec_digit :: "char \<Rightarrow> bool" where
  "dec_digit c \<longleftrightarrow> 48 \<le> (of_char c :: nat) \<and> (of_char c :: nat) \<le> 57"

definition digits_value :: "string \<Rightarrow> int" where
  "digits_value s = foldl (\<lambda>v c. 10 * v + (int (of_char c) - 48)) 0 (takeWhile dec_digit s)"

definition white_space :: "char \<Rightarrow> bool" where
  "white_space c \<longleftrightarrow> c = CHR '' '' \<or> 9 \<le> (of_char c :: nat) \<and> (of_char c :: nat) \<le> 13"

definition str_atoi :: "string \<Rightarrow> int cmem" where
  "str_atoi s =
     (let p = dropWhile white_space s;
          v = (case p of
                 [] \<Rightarrow> 0
               | c # cs \<Rightarrow> if c = CHR ''-'' then - digits_value cs else if c = CHR ''+'' then digits_value cs else digits_value p)
      in if in_int v then Some v else None)"

definition lua_arith :: "(int \<Rightarrow> int \<Rightarrow> int) \<Rightarrow> 'f lua_state \<Rightarrow> 'f lua_state cmem" where
  "lua_arith f st =
     (let (b, st1) = lua_pop st; (a, st2) = lua_pop st1 in if in_int (f a b) then Some (lua_push (f a b) st2) else None)"

fun lua_run ::
  "('f \<Rightarrow> 'f lua_state \<Rightarrow> (int \<times> 'f lua_state) cmem) \<Rightarrow> string list \<Rightarrow> 'f lua_state \<Rightarrow> 'f lua_state cmem" where
  "lua_run call [] st = Some st"
| "lua_run call (tok # toks) st =
     (if tok = ''push'' then
        (case toks of
           [] \<Rightarrow> Some st
         | n # ts \<Rightarrow> Option.bind (str_atoi n) (\<lambda>v. lua_run call ts (lua_push v st)))
      else if tok = ''add'' then Option.bind (lua_arith (+) st) (lua_run call toks)
      else if tok = ''sub'' then Option.bind (lua_arith (-) st) (lua_run call toks)
      else if tok = ''call'' then
        (case toks of
           [] \<Rightarrow> Some st
         | f # ts \<Rightarrow> Option.bind (lua_call_function call f st) (\<lambda>(r, st'). lua_run call ts st'))
      else lua_run call toks st)"

definition lua_sep :: "char \<Rightarrow> bool" where
  "lua_sep c \<longleftrightarrow> c = CHR '' '' \<or> c = CHR 0x0A"

definition lua_execute_script ::
  "('f \<Rightarrow> 'f lua_state \<Rightarrow> (int \<times> 'f lua_state) cmem) \<Rightarrow> string \<Rightarrow> 'f lua_state \<Rightarrow> (int \<times> 'f lua_state) cmem" where
  "lua_execute_script call script st = map_option lua_pop (lua_run call (strtok_all lua_sep script) st)"

section \<open>Tables of names\<close>

definition plugin_registry_register ::
  "string \<Rightarrow> u8 list \<times> u32 \<Rightarrow> (string \<times> u8 list \<times> u32) list \<Rightarrow> int \<times> (string \<times> u8 list \<times> u32) list" where
  "plugin_registry_register name data plugins =
     (if length plugins < 16 then (0, plugins @ [(take 63 name, data)]) else (-1, plugins))"

definition plugin_registry_find :: "(string \<times> u8 list \<times> u32) list \<Rightarrow> string \<Rightarrow> (u8 list \<times> u32) option" where
  "plugin_registry_find plugins name = map_option snd (find (\<lambda>p. fst p = name) plugins)"

definition plugin_loader_load ::
  "(string \<Rightarrow> (u8 list \<times> u32) option) \<Rightarrow> string \<Rightarrow> (string \<times> u8 list \<times> u32) list \<Rightarrow> int \<times> (string \<times> u8 list \<times> u32) list" where
  "plugin_loader_load load_file path plugins =
     (case load_file path of None \<Rightarrow> (-1, plugins) | Some data \<Rightarrow> plugin_registry_register path data plugins)"

definition script_api_register :: "string \<Rightarrow> 'f \<Rightarrow> (string \<times> 'f) list \<Rightarrow> int \<times> (string \<times> 'f) list" where
  "script_api_register name fn cfuncs =
     (if length cfuncs < 16 then (0, cfuncs @ [(take 31 name, fn)]) else (-1, cfuncs))"

definition script_api_lookup :: "(string \<times> 'f) list \<Rightarrow> string \<Rightarrow> 'f option" where
  "script_api_lookup cfuncs name = map_option snd (find (\<lambda>p. fst p = name) cfuncs)"

text \<open>The variables of scripts are texts with an equals sign, cut to 63 characters.\<close>

definition script_env_set :: "string \<Rightarrow> string \<Rightarrow> string list \<Rightarrow> int \<times> string list" where
  "script_env_set key value env =
     (if length env < 16 then (0, env @ [take 63 (key @ ''='' @ value)]) else (-1, env))"

definition env_name :: "string \<Rightarrow> string" where
  "env_name e = takeWhile (\<lambda>c. c \<noteq> CHR ''='') e"

text \<open>\<open>strncmp\<close> up to the equals sign compares the name with the beginning of the key.\<close>

definition env_matches :: "string \<Rightarrow> string \<Rightarrow> bool" where
  "env_matches key e \<longleftrightarrow> CHR ''='' \<in> set e \<and> take (length (env_name e)) key = env_name e"

definition script_env_get :: "string list \<Rightarrow> string \<Rightarrow> string option" where
  "script_env_get env key = map_option (\<lambda>e. drop (length (env_name e) + 1) e) (find (env_matches key) env)"

definition script_loader_load :: "(string \<Rightarrow> (u8 list \<times> u32) option) \<Rightarrow> string \<Rightarrow> u8 list \<Rightarrow> int \<Rightarrow> (int \<times> u8 list) cmem" where
  "script_loader_load load_file path out maxlen =
     (case load_file path of
        None \<Rightarrow> Some (-1, out)
      | Some (data, sz) \<Rightarrow>
          let n = (if of_int (maxlen - 1) < sz then of_int (maxlen - 1) else sz) in
          Option.bind (memcpy out 0 data 0 (unat n)) (\<lambda>o1. map_option (Pair 0) (poke o1 (unat n) 0)))"

section \<open>Plugins\<close>

record plugin_info =
  pl_name :: string
  pl_init :: bool
  pl_cleanup :: bool

datatype plugin_event = P_Open string | P_Close string | P_Init string | P_Cleanup string

text \<open>\<open>dl\<close> says for a path whether it can be opened, and what it offers. Every plugin is kept with its path.\<close>

definition plugin_register ::
  "(string \<Rightarrow> plugin_info option option) \<Rightarrow> string \<Rightarrow> (string \<times> plugin_info) list \<Rightarrow> int \<times> (string \<times> plugin_info) list \<times> plugin_event list" where
  "plugin_register dl path plugins =
     (if 32 \<le> length plugins then (-1, plugins, [])
      else case dl path of
             None \<Rightarrow> (-1, plugins, [])
           | Some None \<Rightarrow> (-1, plugins, [P_Open path, P_Close path])
           | Some (Some info) \<Rightarrow> (0, plugins @ [(path, info)], P_Open path # (if pl_init info then [P_Init path] else [])))"

fun plugin_load :: "string \<Rightarrow> (string \<times> plugin_info) list \<Rightarrow> int \<times> plugin_event list" where
  "plugin_load name [] = (-1, [])"
| "plugin_load name ((path, info) # ps) =
     (if pl_name info = name then (0, if pl_init info then [P_Init path] else []) else plugin_load name ps)"

fun plugin_unload :: "string \<Rightarrow> (string \<times> plugin_info) list \<Rightarrow> int \<times> (string \<times> plugin_info) list \<times> plugin_event list" where
  "plugin_unload name [] = (-1, [], [])"
| "plugin_unload name ((path, info) # ps) =
     (if pl_name info = name then (0, ps, (if pl_cleanup info then [P_Cleanup path] else []) @ [P_Close path])
      else let (r, ps', ev) = plugin_unload name ps in (r, (path, info) # ps', ev))"

section \<open>The recovery shell\<close>

definition shell_history_add :: "string \<Rightarrow> string list \<Rightarrow> int \<times> string list" where
  "shell_history_add cmd history = (0, if length history < 16 then history @ [take 127 cmd] else history)"

definition shell_history_get :: "int \<Rightarrow> string list \<Rightarrow> string option" where
  "shell_history_get idx history = (if idx < 0 \<or> int (length history) \<le> idx then None else Some (history ! nat idx))"

definition shell_parse_command :: "string \<Rightarrow> string list cmem" where
  "shell_parse_command input =
     (if 256 \<le> length input then None else Some (take 16 (strtok_all (\<lambda>c. c = CHR '' '') input)))"

text \<open>The lines that a command prints.\<close>

definition shell_execute_command :: "string list \<Rightarrow> string list" where
  "shell_execute_command args =
     (if args = [] then []
      else if args ! 0 = ''help'' then
        [''Available commands:'', ''  help     - Show this help'', ''  ls       - List files'',
         ''  cat <file> - Show file contents'', ''  reboot   - Reboot system'', ''  clear    - Clear screen'']
      else if args ! 0 = ''ls'' then [''Filesystem not mounted'']
      else if args ! 0 = ''cat'' then
        (if 1 < length args then [''File '' @ [CHR 0x27] @ args ! 1 @ [CHR 0x27] @ '' not found''] else [''Usage: cat <filename>''])
      else if args ! 0 = ''reboot'' then [''Rebooting...'']
      else if args ! 0 = ''clear'' then [[CHR 0x1B] @ ''[2J'' @ [CHR 0x1B] @ ''[H'']
      else [''Unknown command: '' @ args ! 0])"

section \<open>What a table of names promises\<close>

text \<open>A table with room for \<open>cap\<close> names of at most \<open>len\<close> characters: a full table refuses, and a name is found with the
  value of its first registration.\<close>

locale name_table =
  fixes reg :: "string \<Rightarrow> 'v \<Rightarrow> 't \<Rightarrow> int \<times> 't" and lookup :: "'t \<Rightarrow> string \<Rightarrow> 'v option" and count :: "'t \<Rightarrow> nat"
    and cap :: nat and len :: nat
  assumes reg_ok: "count t < cap \<Longrightarrow> fst (reg n v t) = 0 \<and> count (snd (reg n v t)) = Suc (count t)"
    and reg_full: "cap \<le> count t \<Longrightarrow> reg n v t = (-1, t)"
    and lookup_reg: "count t < cap \<Longrightarrow> length n \<le> len \<Longrightarrow>
      lookup (snd (reg n v t)) k = (case lookup t k of Some w \<Rightarrow> Some w | None \<Rightarrow> if k = n then Some v else None)"
begin

fun reg_all :: "(string \<times> 'v) list \<Rightarrow> 't \<Rightarrow> 't" where
  "reg_all [] t = t"
| "reg_all ((n, v) # kvs) t = reg_all kvs (snd (reg n v t))"

lemma count_le: "count t \<le> cap \<Longrightarrow> count (reg_all kvs t) \<le> cap"
proof (induction kvs arbitrary: t)
  case (Cons kv kvs)
  obtain n v where kv: "kv = (n, v)" by (rule prod.exhaust)
  have "count (snd (reg n v t)) \<le> cap"
    using Cons.prems reg_ok [of t n v] reg_full [of t n v] by (cases "count t < cap") auto
  then show ?case using Cons.IH kv by simp
qed simp

lemma lookup_reg_all:
  "\<forall>(n, v) \<in> set kvs. length n \<le> len \<Longrightarrow> count t + length kvs \<le> cap \<Longrightarrow>
   lookup (reg_all kvs t) k = (case lookup t k of Some w \<Rightarrow> Some w | None \<Rightarrow> map_of kvs k)"
proof (induction kvs arbitrary: t)
  case (Cons kv kvs)
  obtain n v where kv: "kv = (n, v)" by (rule prod.exhaust)
  have "count t < cap" using Cons.prems(2) by simp
  then have "count (snd (reg n v t)) = Suc (count t)"
    "lookup (snd (reg n v t)) k = (case lookup t k of Some w \<Rightarrow> Some w | None \<Rightarrow> if k = n then Some v else None)"
    using reg_ok [of t n v] lookup_reg [of t n v k] Cons.prems(1) kv by auto
  then show ?case using Cons.IH [of "snd (reg n v t)"] Cons.prems kv by (auto split: option.split)
qed (simp split: option.split)

end

lemma find_append: "find P (xs @ ys) = (case find P xs of Some x \<Rightarrow> Some x | None \<Rightarrow> find P ys)"
  by (induction xs) auto

interpretation registry: name_table plugin_registry_register plugin_registry_find length 16 63
  by unfold_locales
    (auto simp: plugin_registry_register_def plugin_registry_find_def find_append split: option.split)

interpretation api: name_table script_api_register script_api_lookup length 16 31
  by unfold_locales (auto simp: script_api_register_def script_api_lookup_def find_append split: option.split)

text \<open>Sixteen plugins can be registered, and each is found under its path with the data of its first
  registration; no table grows beyond its array.\<close>

lemma plugins_found:
  assumes "length kvs \<le> 16" and "\<forall>(n, v) \<in> set kvs. length n \<le> 63"
  shows "plugin_registry_find (registry.reg_all kvs []) name = map_of kvs name"
  using registry.lookup_reg_all [of kvs "[]" name] assms by (simp add: plugin_registry_find_def)

lemma script_functions_found:
  assumes "length kvs \<le> 16" and "\<forall>(n, v) \<in> set kvs. length n \<le> 31"
  shows "script_api_lookup (api.reg_all kvs []) name = map_of kvs name"
  using api.lookup_reg_all [of kvs "[]" name] assms by (simp add: script_api_lookup_def)

text \<open>A variable is also found under every longer name.\<close>

lemma script_env_prefix:
  assumes "CHR ''='' \<notin> set key" and "length key + length v < 63"
  shows "script_env_get (snd (script_env_set key v [])) (key @ suffix) = Some v"
proof -
  have "take 63 (key @ ''='' @ v) = key @ CHR ''='' # v" using assms(2) by simp
  moreover have "env_name (key @ CHR ''='' # v) = key" unfolding env_name_def by (subst takeWhile_append2) (use assms(1) in auto)
  ultimately show ?thesis by (simp add: script_env_set_def script_env_get_def env_matches_def)
qed

text \<open>Unloading a plugin removes the first one of that name and nothing else.\<close>

lemma find_holds: "find P xs = Some x \<Longrightarrow> P x"
  by (induction xs) (auto split: if_splits)

lemma plugin_unload_eq:
  "plugin_unload name ps =
   (case find (\<lambda>p. pl_name (snd p) = name) ps of
      None \<Rightarrow> (-1, ps, [])
    | Some p \<Rightarrow> (0, remove1 p ps, (if pl_cleanup (snd p) then [P_Cleanup (fst p)] else []) @ [P_Close (fst p)]))"
  by (induction name ps rule: plugin_unload.induct) (auto split: option.splits dest: find_holds)

section \<open>Scripts compute\<close>

text \<open>Expressions, their value, the script for an expression and the depth of stack it needs.\<close>

datatype expr = Num int | Plus expr expr | Minus expr expr

primrec expr_value :: "expr \<Rightarrow> int" where
  "expr_value (Num n) = n"
| "expr_value (Plus a b) = expr_value a + expr_value b"
| "expr_value (Minus a b) = expr_value a - expr_value b"

primrec expr_fits :: "expr \<Rightarrow> bool" where
  "expr_fits (Num n) \<longleftrightarrow> in_int n"
| "expr_fits (Plus a b) \<longleftrightarrow> expr_fits a \<and> expr_fits b \<and> in_int (expr_value a + expr_value b)"
| "expr_fits (Minus a b) \<longleftrightarrow> expr_fits a \<and> expr_fits b \<and> in_int (expr_value a - expr_value b)"

primrec expr_depth :: "expr \<Rightarrow> nat" where
  "expr_depth (Num n) = 1"
| "expr_depth (Plus a b) = max (expr_depth a) (expr_depth b + 1)"
| "expr_depth (Minus a b) = max (expr_depth a) (expr_depth b + 1)"

fun show_nat :: "nat \<Rightarrow> string" where
  "show_nat n = (if n < 10 then [char_of (48 + n)] else show_nat (n div 10) @ [char_of (48 + n mod 10)])"

declare show_nat.simps [simp del]

definition show_int :: "int \<Rightarrow> string" where
  "show_int n = (if n < 0 then CHR ''-'' # show_nat (nat (- n)) else show_nat (nat n))"

primrec expr_code :: "expr \<Rightarrow> string list" where
  "expr_code (Num n) = [''push'', show_int n]"
| "expr_code (Plus a b) = expr_code a @ expr_code b @ [''add'']"
| "expr_code (Minus a b) = expr_code a @ expr_code b @ [''sub'']"

definition script_text :: "string list \<Rightarrow> string" where
  "script_text toks = concat (map (\<lambda>t. t @ '' '') toks)"

lemma of_char_digit: "n < 10 \<Longrightarrow> of_char (char_of (48 + n :: nat)) = (48 + n :: nat)"
  by simp

lemma show_nat_digits: "c \<in> set (show_nat n) \<Longrightarrow> dec_digit c"
proof (induction n rule: show_nat.induct)
  case (1 n)
  show ?case
  proof (cases "n < 10")
    case True
    then show ?thesis using 1(2) of_char_digit [of n] by (simp add: show_nat.simps [of n] dec_digit_def)
  next
    case False
    then have "c \<in> set (show_nat (n div 10)) \<or> c = char_of (48 + n mod 10)" using 1(2) by (auto simp: show_nat.simps [of n])
    then show ?thesis using 1(1) [OF False] of_char_digit [of "n mod 10"] by (auto simp: dec_digit_def)
  qed
qed

lemma digits_value_show: "digits_value (show_nat n) = int n"
proof -
  have "foldl (\<lambda>v c. 10 * v + (int (of_char c) - 48)) 0 (show_nat n) = int n"
  proof (induction n rule: show_nat.induct)
    case (1 n)
    show ?case
    proof (cases "n < 10")
      case True
      then show ?thesis using of_char_digit [of n] by (simp add: show_nat.simps [of n])
    next
      case False
      then show ?thesis using 1 [OF False] of_char_digit [of "n mod 10"]
        by (simp add: show_nat.simps [of n]) (metis mult_div_mod_eq of_nat_add of_nat_mult of_nat_numeral)
    qed
  qed
  moreover have "takeWhile dec_digit (show_nat n) = show_nat n" by (rule takeWhile_eq_all_conv [THEN iffD2]) (auto dest: show_nat_digits)
  ultimately show ?thesis unfolding digits_value_def by (simp only:)
qed

lemma show_nat_ne: "show_nat n \<noteq> []"
  by (subst show_nat.simps) simp

lemma digit_other: "dec_digit c \<Longrightarrow> c \<noteq> CHR '' '' \<and> \<not> white_space c \<and> c \<noteq> CHR ''-'' \<and> c \<noteq> CHR ''+'' \<and> c \<noteq> CHR 0x0A"
  by (auto simp: dec_digit_def white_space_def)

lemma str_atoi_show: "in_int n \<Longrightarrow> str_atoi (show_int n) = Some n"
proof (cases "n < 0")
  case True
  assume "in_int n"
  then show ?thesis using True digits_value_show [of "nat (- n)"] by (simp add: str_atoi_def show_int_def white_space_def)
next
  case False
  assume i: "in_int n"
  obtain c r where s: "show_nat (nat n) = c # r" using show_nat_ne by (cases "show_nat (nat n)") auto
  then have "dec_digit c" using show_nat_digits [of c "nat n"] by simp
  note d = digit_other [OF this]
  have "str_atoi (c # r) = (if in_int (digits_value (c # r)) then Some (digits_value (c # r)) else None)"
    unfolding str_atoi_def Let_def using d by simp
  then show ?thesis using False i digits_value_show [of "nat n"] s by (simp add: show_int_def)
qed

lemma show_int_token: "show_int n \<noteq> [] \<and> (\<forall>c \<in> set (show_int n). \<not> lua_sep c)"
  using show_nat_ne digit_other show_nat_digits by (auto simp: show_int_def lua_sep_def)

lemma strtok_text:
  "\<forall>t \<in> set toks. t \<noteq> [] \<and> (\<forall>c \<in> set t. \<not> lua_sep c) \<Longrightarrow> strtok_all lua_sep (script_text toks) = toks"
proof (induction toks)
  case Nil
  then show ?case by (simp add: script_text_def strtok_all.simps)
next
  case (Cons t toks)
  have t: "t \<noteq> []" "\<forall>c \<in> set t. \<not> lua_sep c" using Cons.prems by auto
  have e: "script_text (t # toks) = t @ CHR '' '' # script_text toks" by (simp add: script_text_def)
  have d: "dropWhile lua_sep (t @ CHR '' '' # script_text toks) = t @ CHR '' '' # script_text toks" using t by (cases t) auto
  have sp: "lua_sep (CHR '' '')" by (simp add: lua_sep_def)
  have tw: "takeWhile (\<lambda>c. \<not> lua_sep c) (t @ CHR '' '' # script_text toks) = t"
    "dropWhile (\<lambda>c. \<not> lua_sep c) (t @ CHR '' '' # script_text toks) = CHR '' '' # script_text toks"
    using t(2) sp by (auto simp: takeWhile_append dropWhile_append)
  have "strtok_all lua_sep (CHR '' '' # script_text toks) = strtok_all lua_sep (script_text toks)"
    by (subst (1 2) strtok_all.simps) (simp add: sp)
  then show ?case unfolding e using Cons t by (subst strtok_all.simps) (simp add: Let_def d tw)
qed

lemma expr_code_tokens: "t \<in> set (expr_code e) \<Longrightarrow> t \<noteq> [] \<and> (\<forall>c \<in> set t. \<not> lua_sep c)"
proof (induction e)
  case (Num n)
  then consider "t = ''push''" | "t = show_int n" by auto
  then show ?case
  proof cases
    case 1
    then show ?thesis by (simp add: lua_sep_def)
  next
    case 2
    show ?thesis unfolding 2 by (rule show_int_token)
  qed
qed (auto simp: lua_sep_def)

lemma max_room: "(n :: nat) + max a (Suc b) \<le> 256 \<Longrightarrow> n < 256"
  by (simp add: max_def split: if_splits)

lemma lua_run_code:
  "expr_fits e \<Longrightarrow> length (lua_stack st) + expr_depth e \<le> 256 \<Longrightarrow>
   lua_run call (expr_code e @ toks) st = lua_run call toks (st\<lparr>lua_stack := lua_stack st @ [expr_value e]\<rparr>)"
  by (induction e arbitrary: st toks)
    (auto simp: str_atoi_show lua_push_def lua_arith_def lua_pop_def butlast_append dest: max_room)

lemma expr_in_int: "expr_fits e \<Longrightarrow> in_int (expr_value e)"
  by (cases e) auto

text \<open>The script for an arithmetic expression computes its value: with enough stack for the expression, and no
  intermediate value beyond a 32-bit integer, running the text of the script returns the value and leaves the stack as it
  was.\<close>

lemma script_computes_expression:
  assumes "expr_fits e" and "length (lua_stack st) + expr_depth e \<le> 256"
  shows "lua_execute_script call (script_text (expr_code e)) st = Some (expr_value e, st)"
proof -
  have "strtok_all lua_sep (script_text (expr_code e)) = expr_code e" by (rule strtok_text) (blast dest: expr_code_tokens)
  moreover have "lua_run call (expr_code e) st = Some (st\<lparr>lua_stack := lua_stack st @ [expr_value e]\<rparr>)"
    using lua_run_code [OF assms, of call "[]"] by simp
  ultimately show ?thesis by (simp add: lua_execute_script_def lua_pop_def)
qed

end
