(* ===== verification/Uefi_Main.thy ===== *)
theory Uefi_Main
  imports Main_Boot Boot_Menu Localization Graphics Arch64_Boot Chainload Pxe
begin

text \<open>
  The boot manager as a whole, \<open>UefiMain\<close> of \<^verbatim>\<open>main.c\<close>: it finds the firmware, reads the configuration, sets the language and
  the font, counts down, and then boots the default entry or shows the menu with the fourteen entries of the
  program. The entries are the wrappers of \<^verbatim>\<open>main.c\<close> around the loaders of the other theories. The library \<^verbatim>\<open>libb\<close>, which is
  set up in between and not used by the boot manager, and console output are left out.
\<close>

section \<open>The machine\<close>

text \<open>Starting an EFI image: whether a device path can be made for a file, and what the firmware answers when it loads
  and when it starts the image with some content.\<close>

record image_services =
  im_path :: "string \<Rightarrow> bool"
  im_load :: "u8 list \<Rightarrow> efi_status"
  im_start :: "u8 list \<Rightarrow> efi_status"

text \<open>All parameters of the boot manager: the handle of its own image, files and variables, the loader for files, the
  allocator of the Limine loader, network, images, boot services, the environment of BloodChain, memory and the state of
  the platform module, whether the record of a font can be allocated, where the pool puts the kernel, the keys
  of the countdown, the horizontal resolution and the input of the menu.\<close>

record machine =
  ma_image :: efi_status
  ma_env :: boot_env
  ma_load :: file_loader
  ma_limine :: "nat \<Rightarrow> u64"
  ma_rom :: pxe_rom
  ma_images :: image_services
  ma_services :: boot_services
  ma_chain :: bloodchain_env
  ma_mem :: mem
  ma_coreboot :: coreboot_state
  ma_font_alloc :: bool
  ma_pool_at :: u64
  ma_keys :: "nat \<Rightarrow> bool"
  ma_width :: "int ptr"
  ma_inputs :: "menu_input list"

section \<open>The entries\<close>

text \<open>A function of the menu returns a status, enters a kernel, runs the recovery shell, whose loop never ends, or resets
  the machine.\<close>

datatype entry_run =
    Entry_Returns efi_status
  | Entry_Jump boot_outcome
  | Entry_Kernel exec_outcome
  | Entry_Shell
  | Entry_Reset

text \<open>The loaders return an \<open>int\<close>, which becomes a status by sign extension.\<close>

fun loader_run :: "boot_outcome \<Rightarrow> entry_run" where
  "loader_run (Boot_Failed r) = Entry_Returns (of_int r)"
| "loader_run (Boot_Jump a args m) = Entry_Jump (Boot_Jump a args m)"

fun exec_run :: "exec_outcome \<Rightarrow> entry_run" where
  "exec_run (Exec_Failed st) = Entry_Returns st"
| "exec_run (Exec_Entered k p m) = Entry_Kernel (Exec_Entered k p m)"

definition BootLinuxKernelWrapper :: "machine \<Rightarrow> entry_run cmem" where
  "BootLinuxKernelWrapper M =
     map_option loader_run
       (linux_load_kernel (ma_load M) (ma_mem M) (ascii ''/boot/vmlinuz'') (Some (ascii ''/boot/initrd.img'')) (Some (ascii ''root=/dev/sda1 ro'')))"

definition BootMultiboot2KernelWrapper :: "machine \<Rightarrow> entry_run cmem" where
  "BootMultiboot2KernelWrapper M =
     map_option loader_run
       (multiboot2_load_kernel (ma_load M) (ma_mem M) (ascii ''/boot/vmlinuz-mb2'') (Some (ascii ''root=/dev/sda1 ro'')))"

definition BootLimineKernelWrapper :: "machine \<Rightarrow> entry_run cmem" where
  "BootLimineKernelWrapper M =
     map_option loader_run
       (limine_load_kernel (ma_load M) (ma_limine M) (ma_mem M) (ascii ''/boot/vmlinuz-limine'') (Some (ascii ''root=/dev/sda1 ro'')))"

definition BootChainloadWrapper :: "machine \<Rightarrow> entry_run cmem" where
  "BootChainloadWrapper M = map_option loader_run (chainload_file (ma_load M) (ma_mem M) (ascii ''/boot/grub2.bin''))"

definition BootIa32Wrapper :: "machine \<Rightarrow> entry_run cmem" where
  "BootIa32Wrapper M =
     map_option loader_run
       (ia32_load_kernel (ma_load M) (ma_mem M) (ascii ''/boot/vmlinuz-ia32'') (Some (ascii ''/boot/initrd-ia32.img''))
          (Some (ascii ''root=/dev/sda1 ro'')))"

definition BootX86_64Wrapper :: "machine \<Rightarrow> entry_run cmem" where
  "BootX86_64Wrapper M =
     map_option loader_run
       (x86_64_load_kernel (ma_load M) (ma_mem M) (ascii ''/boot/vmlinuz-x86_64'') (Some (ascii ''/boot/initrd-x86_64.img''))
          (Some (ascii ''root=/dev/sda1 ro'')))"

definition BootAarch64Wrapper :: "machine \<Rightarrow> entry_run cmem" where
  "BootAarch64Wrapper M =
     map_option loader_run
       (aarch64_load_kernel (ma_load M) (ma_mem M) (ascii ''/boot/Image-aarch64'') (Some (ascii ''/boot/initrd-aarch64.img''))
          (Some (ascii ''root=/dev/sda1 ro'')))"

definition BootRiscv64Wrapper :: "machine \<Rightarrow> entry_run cmem" where
  "BootRiscv64Wrapper M =
     map_option loader_run
       (riscv64_load_kernel (ma_load M) (ma_mem M) (ascii ''/boot/Image-riscv64'') (Some (ascii ''/boot/initrd-riscv64.img''))
          (Some (ascii ''root=/dev/sda1 ro'')))"

definition BootLoongarch64Wrapper :: "machine \<Rightarrow> entry_run cmem" where
  "BootLoongarch64Wrapper M =
     map_option loader_run
       (loongarch64_load_kernel (ma_load M) (ma_mem M) (ascii ''/boot/Image-loongarch64'') (Some (ascii ''/boot/initrd-loongarch64.img''))
          (Some (ascii ''root=/dev/sda1 ro'')))"

section \<open>Booting over the network\<close>

definition InitializeNetwork :: "pxe_rom \<Rightarrow> bool \<Rightarrow> efi_status \<times> bool" where
  "InitializeNetwork rom up =
     (let (rc, up', ev) = pxe_network_init rom up in (if rc = 0 then EFI_SUCCESS else EFI_DEVICE_ERROR, up'))"

text \<open>The paths are wide strings, or null pointers; the second component says whether the kernel has been
  entered.\<close>

definition BootFromNetwork :: "pxe_rom \<Rightarrow> mem \<Rightarrow> bool \<Rightarrow> u8 list ptr \<Rightarrow> u8 list ptr \<Rightarrow> string ptr \<Rightarrow> entry_run cmem" where
  "BootFromNetwork rom m up kernel_path initrd_path cmdline = do {
     kernel_ascii \<leftarrow> (case kernel_path of None \<Rightarrow> Some [] | Some p \<Rightarrow> UnicodeStrToAsciiStrS p [] 256);
     initrd_ascii \<leftarrow> (case initrd_path of None \<Rightarrow> Some [] | Some p \<Rightarrow> UnicodeStrToAsciiStrS p [] 256);
     (out, up', ev) \<leftarrow> pxe_boot_kernel rom m up (ascii kernel_ascii)
        (if initrd_path = None then None else Some (ascii initrd_ascii))
        (Some (ascii (case cmdline of None \<Rightarrow> [] | Some c \<Rightarrow> c)));
     Some (case out of
             Boot_Failed rc \<Rightarrow> Entry_Returns (if rc = 0 then EFI_SUCCESS else EFI_LOAD_ERROR)
           | Boot_Jump a args m' \<Rightarrow> Entry_Jump out)
   }"

definition BootPxeNetworkWrapper :: "machine \<Rightarrow> entry_run cmem" where
  "BootPxeNetworkWrapper M =
     (let (st, up) = InitializeNetwork (ma_rom M) False in
      if EFI_ERROR st then Some (Entry_Returns st)
      else BootFromNetwork (ma_rom M) (ma_mem M) up (Some (wide ''/boot/kernel.efi'')) (Some (wide ''/boot/initrd.img''))
             (Some ''console=ttyS0''))"

section \<open>The shells and the exit\<close>

definition LoadAndStartImageFromPath :: "boot_env \<Rightarrow> image_services \<Rightarrow> string \<Rightarrow> efi_status cmem" where
  "LoadAndStartImageFromPath E S path =
     (if EFI_ERROR (root_status E) then Some (root_status E)
      else case read_whole (zero_pool E) (root_file E path) 0 of
             None \<Rightarrow> None
           | Some (st, n, buf) \<Rightarrow>
               if EFI_ERROR st then Some st
               else if \<not> im_path S path then Some EFI_OUT_OF_RESOURCES
               else if length buf < unat n then None
               else let img = take (unat n) buf in Some (if EFI_ERROR (im_load S img) then im_load S img else im_start S img))"

fun try_images :: "boot_env \<Rightarrow> image_services \<Rightarrow> string list \<Rightarrow> efi_status cmem" where
  "try_images E S [] = Some EFI_NOT_FOUND"
| "try_images E S (p # ps) =
     (case LoadAndStartImageFromPath E S p of
        None \<Rightarrow> None
      | Some st \<Rightarrow> if \<not> EFI_ERROR st then Some EFI_SUCCESS else try_images E S ps)"

definition shell_candidates :: "string list" where
  "shell_candidates =
     (let b = CHR 0x5C in
      [[b] @ ''EFI'' @ [b] @ ''BOOT'' @ [b] @ ''Shell.efi'', [b] @ ''EFI'' @ [b] @ ''tools'' @ [b] @ ''Shell.efi'', [b] @ ''Shell.efi''])"

definition BootUefiShellWrapper :: "machine \<Rightarrow> entry_run cmem" where
  "BootUefiShellWrapper M =
     (if EFI_ERROR (ma_image M) then Some (Entry_Returns (ma_image M))
      else map_option Entry_Returns (try_images (ma_env M) (ma_images M) shell_candidates))"

text \<open>The entries with their names, in the order in which they are added.\<close>

definition boot_entries :: "machine \<Rightarrow> (string \<times> entry_run cmem) list" where
  "boot_entries M =
     [(''BloodChain Boot Protocol'', map_option exec_run (BootBloodchainWrapper (ma_chain M) (ma_mem M))),
      (''Linux Kernel'', BootLinuxKernelWrapper M),
      (''Multiboot2 Kernel'', BootMultiboot2KernelWrapper M),
      (''Limine Kernel'', BootLimineKernelWrapper M),
      (''Chainload Bootloader'', BootChainloadWrapper M),
      (''PXE Network Boot'', BootPxeNetworkWrapper M),
      (''IA-32 (32-bit x86)'', BootIa32Wrapper M),
      (''x86-64 (64-bit x86)'', BootX86_64Wrapper M),
      (''ARM64 (aarch64)'', BootAarch64Wrapper M),
      (''RISC-V 64'', BootRiscv64Wrapper M),
      (''LoongArch 64'', BootLoongarch64Wrapper M),
      (''Recovery Shell'', Some Entry_Shell),
      (''UEFI Shell'', BootUefiShellWrapper M),
      (''Exit to UEFI Firmware'', Some Entry_Reset)]"

text \<open>In the menu an entry is the status that its function returns; for a function that does not return, or
  goes wrong, the status stands for nothing, and \<open>after_menu\<close> below looks at what the function did.\<close>

definition entry_status :: "entry_run cmem \<Rightarrow> efi_status" where
  "entry_status r = (case r of Some (Entry_Returns st) \<Rightarrow> st | _ \<Rightarrow> EFI_SUCCESS)"

definition main_menu :: "machine \<Rightarrow> menu" where
  "main_menu M =
     fold (\<lambda>(name, r) menu. snd (AddBootEntry (map (\<lambda>c. of_nat (of_char c)) name) (Some (entry_status r)) menu)) (boot_entries M) empty_menu"

section \<open>The main function\<close>

datatype main_result =
    Main_Returns efi_status
  | Main_Waits
  | Main_Entry entry_run
  | Main_Jump boot_outcome
  | Main_Kernel exec_outcome
  | Main_Reset

text \<open>When the menu returns success the kernel \<^verbatim>\<open>kernel.efi\<close> is loaded and entered; whenever that fails the machine is
  reset after a key. The pool puts the file at \<open>ma_pool_at\<close>. The hash function has no effect with the digests of the program.\<close>

definition boot_kernel_efi :: "machine \<Rightarrow> coreboot_state ptr \<Rightarrow> (u8 list \<Rightarrow> u8 list) \<Rightarrow> main_result cmem" where
  "boot_kernel_efi M cb digest =
     (case main_LoadAndVerifyKernel digest g_known_hashes (zero_pool (ma_env M)) (root_status (ma_env M)) (root_file (ma_env M) ''kernel.efi'') of
        None \<Rightarrow> None
      | Some (st, n, buf) \<Rightarrow>
          if EFI_ERROR st then Some Main_Reset
          else (case main_ExecuteKernel cb (ma_services M) (wr (ma_mem M) (ma_pool_at M) buf) (ma_pool_at M) n 0 of
                  None \<Rightarrow> None
                | Some (Exec_Failed st, ev) \<Rightarrow> Some (if EFI_ERROR st then Main_Reset else Main_Returns EFI_SUCCESS)
                | Some (Exec_Entered k p m, ev) \<Rightarrow> Some (Main_Kernel (Exec_Entered k p m))))"

definition after_menu ::
  "machine \<Rightarrow> coreboot_state ptr \<Rightarrow> (u8 list \<Rightarrow> u8 list) \<Rightarrow> efi_status \<Rightarrow> entry_run cmem \<Rightarrow> main_result cmem" where
  "after_menu M cb digest st r =
     (if st = EFI_SUCCESS then
        (case r of
           None \<Rightarrow> None
         | Some (Entry_Returns st') \<Rightarrow> boot_kernel_efi M cb digest
         | Some run \<Rightarrow> Some (Main_Entry run))
      else Some Main_Reset)"

text \<open>No font is ever made the default one before a font file is read: \<open>InitFontSystem\<close> is never called.\<close>

definition main_font :: "machine \<Rightarrow> BOOT_CONFIG \<Rightarrow> font ptr cmem" where
  "main_font M c = (if bc_font_path c \<noteq> [] then LoadFontFile (ma_env M) (ma_font_alloc M) None (Some (bc_font_path c)) else Some None)"

definition UefiMain :: "machine \<Rightarrow> (u8 list \<Rightarrow> u8 list) \<Rightarrow> main_result cmem" where
  "UefiMain M digest =
     (if EFI_ERROR (ma_image M) then Some (Main_Returns (ma_image M))
      else
        let (found, cb) = CorebootPlatformInit (ma_mem M) (ma_coreboot M);
            gCoreboot = (if found then Some cb else None)
        in do {
          c \<leftarrow> LoadBootConfig (ma_env M);
          L \<leftarrow> SetLanguage (ma_env M) (Some (bc_language c));
          f \<leftarrow> main_font M c;
          a \<leftarrow> autoboot (ma_load M) (ma_mem M) (ma_keys M) c;
          (case a of
             Some out \<Rightarrow> Some (Main_Jump out)
           | None \<Rightarrow>
               (case ShowBootMenu (ma_width M) (ma_inputs M) (main_menu M) of
                  None \<Rightarrow> None
                | Some (Menu_Again M' s) \<Rightarrow> Some Main_Waits
                | Some (Menu_Return st M') \<Rightarrow>
                    after_menu M gCoreboot digest st (snd (boot_entries M ! nat (SelectedEntry M')))))
        })"

section \<open>What the setup returns\<close>

lemma read_whole_returns:
  assumes "file_promises f"
  shows "\<exists>st n buf. read_whole pool f 0 = Some (st, n, buf) \<and> (\<not> EFI_ERROR st \<longrightarrow> unat n \<le> length buf)"
proof -
  obtain si k where i: "fh_info_size f = (si, k)" by (cases "fh_info_size f")
  obtain sj sz where j: "fh_info f = (sj, sz)" by (cases "fh_info f")
  obtain st n bs where r: "fh_read f sz = (st, n, bs)" by (cases "fh_read f sz")
  have b: "length bs \<le> unat sz" "unat n \<le> unat sz" and s: "si = EFI_BUFFER_TOO_SMALL \<or> EFI_ERROR si"
    using assms i r by (auto simp: file_promises_def)
  have "memcpy (replicate (unat sz) 0) 0 bs 0 (length bs) = Some (bs @ replicate (unat sz - length bs) 0)"
    using b(1) by (simp add: memcpy_def)
  then show ?thesis using s b i j r by (auto simp: read_whole_def Let_def)
qed

lemma LoadFontFile_returns:
  assumes "\<And>name. file_promises (root_file E name)"
  shows "\<exists>f. LoadFontFile E alloc fallback filename = Some f"
proof -
  have g: "\<exists>t. memcpy (replicate (unat h * count) 0) 0 glyphs 0 (unat h * count) = Some t"
    if "parse_psf1 buf n = Some (Some (h, glyphs, count))" "unat n \<le> length buf" for buf n h glyphs count
    using psf_glyphs_enough [OF that] by (simp add: memcpy_def)
  have p: "parse_psf1 buf n \<noteq> None" if "\<not> n < 4" "unat n \<le> length buf" for buf n
    using that by (auto simp: parse_psf1_def Let_def word_less_nat_alt)
  show ?thesis
  proof (cases filename)
    case (Some name)
    obtain st n buf where r: "read_whole (zero_pool E) (root_file E (take 255 name)) 0 = Some (st, n, buf)"
      "\<not> EFI_ERROR st \<longrightarrow> unat n \<le> length buf"
      using read_whole_returns [OF assms] by blast
    show ?thesis
    proof (cases "EFI_ERROR st \<or> n < 4")
      case False
      then obtain q where q: "parse_psf1 buf n = Some q" using p r(2) by blast
      show ?thesis
      proof (cases q)
        case (Some hgc)
        obtain h glyphs count where hgc: "hgc = (h, glyphs, count)" by (rule prod_cases3)
        obtain t where "memcpy (replicate (unat h * count) 0) 0 glyphs 0 (unat h * count) = Some t"
          using g q r(2) False unfolding Some hgc by blast
        then show ?thesis using r q False Some hgc \<open>filename = Some name\<close> by (simp add: LoadFontFile_def)
      qed (use r q False \<open>filename = Some name\<close> in \<open>simp add: LoadFontFile_def\<close>)
    qed (use r \<open>filename = Some name\<close> in \<open>auto simp: LoadFontFile_def\<close>)
  qed (simp add: LoadFontFile_def)
qed

lemma SetLanguage_returns:
  assumes "\<And>name. file_promises (root_file E name)" and "\<And>n. zero_pool E (16 * n)"
  shows "\<exists>L. SetLanguage E lang = Some L"
proof -
  have p: "\<exists>g. parse_locale_ini (zero_pool E) s = Some g" for s using parse_locale_ini_returns [of "zero_pool E"] assms(2) by blast
  have r: "\<exists>r. ReadWholeFileAscii (zero_pool E) (root_file E n) = Some r" for n by (rule ReadWholeFileAscii_returns [OF assms(1)])
  define l where "l = (case lang of None \<Rightarrow> ''en'' | Some s \<Rightarrow> if s = [] then ''en'' else s)"
  obtain st n buf where q: "ReadWholeFileAscii (zero_pool E) (root_file E (locale_path l)) = Some (st, n, buf)"
    using r [of "locale_path l"] by (metis prod_cases3)
  obtain g where "parse_locale_ini (zero_pool E) (text_of buf) = Some g" using p by blast
  then show ?thesis using q unfolding SetLanguage_def l_def [symmetric] by (simp add: Let_def)
qed

text \<open>What the boot manager relies on before the menu.\<close>

definition setup_promises :: "boot_env \<Rightarrow> bool" where
  "setup_promises E \<longleftrightarrow> firmware_promises E \<and> (\<forall>n. zero_pool E (16 * n)) \<and>
     (\<forall>p. json_find (json_config E) ''menu_timeout'' = Some p \<longrightarrow> length (takeWhile digit p) \<le> 18)"

lemma setup_returns:
  assumes "setup_promises (ma_env M)"
  obtains c L f where "LoadBootConfig (ma_env M) = Some c" "SetLanguage (ma_env M) (Some (bc_language c)) = Some L"
    "main_font M c = Some f"
proof -
  have f: "file_promises (root_file (ma_env M) name)" for name using assms by (simp add: setup_promises_def firmware_promises_def)
  obtain c where c: "LoadBootConfig (ma_env M) = Some c"
  proof (cases "EFI_ERROR (root_status (ma_env M))")
    case True
    then show ?thesis using that by (simp add: LoadBootConfig_def)
  next
    case False
    then show ?thesis using LoadBootConfig_steps [OF _ False] assms that unfolding setup_promises_def by metis
  qed
  moreover obtain L where "SetLanguage (ma_env M) (Some (bc_language c)) = Some L"
    using SetLanguage_returns [OF f] assms unfolding setup_promises_def by blast
  moreover obtain x where "main_font M c = Some x"
  proof -
    obtain y where "LoadFontFile (ma_env M) (ma_font_alloc M) None (Some (bc_font_path c)) = Some y" using LoadFontFile_returns [OF f] by blast
    then show ?thesis using that unfolding main_font_def by (cases "bc_font_path c = []") auto
  qed
  ultimately show thesis using that by blast
qed

section \<open>The menu of the boot manager\<close>

lemma add_entries:
  "menu_wf N \<Longrightarrow> length (BootEntries N) + length es \<le> 128 \<Longrightarrow>
   let N' = fold (\<lambda>(name, r) menu. snd (AddBootEntry (g name) (Some (h r)) menu)) es N in
   menu_wf N' \<and> SelectedEntry N' = SelectedEntry N \<and>
   BootEntries N' = BootEntries N @ map (\<lambda>(name, r). \<lparr>me_name = take 63 (g name), me_boot = Some (h r)\<rparr>) es"
proof (induction es arbitrary: N)
  case (Cons e es)
  obtain name r where e: "e = (name, r)" by fastforce
  have "menu_wf (snd (AddBootEntry (g name) (Some (h r)) N))" by (rule menu_wf_add [OF Cons.prems(1)])
  then show ?case using Cons.IH [of "snd (AddBootEntry (g name) (Some (h r)) N)"] Cons.prems(2)
    by (simp add: e AddBootEntry_def Let_def)
qed simp

lemma main_menu_entries:
  "menu_wf (main_menu M)" "SelectedEntry (main_menu M) = 0" "length (BootEntries (main_menu M)) = 14"
  "k < 14 \<Longrightarrow> me_boot (BootEntries (main_menu M) ! k) = Some (entry_status (snd (boot_entries M ! k)))"
proof -
  have l: "length (boot_entries M) = 14" by (simp add: boot_entries_def)
  note a = add_entries [OF menu_wf_empty, of "boot_entries M" "map (\<lambda>c. of_nat (of_char c))" entry_status,
      folded main_menu_def, unfolded Let_def l]
  have z: "BootEntries empty_menu = []" "SelectedEntry empty_menu = 0" by (simp_all add: empty_menu_def)
  then show "menu_wf (main_menu M)" "SelectedEntry (main_menu M) = 0" using a by simp_all
  have b: "BootEntries (main_menu M) =
      map (\<lambda>(name, r). \<lparr>me_name = take 63 (map (\<lambda>c. of_nat (of_char c)) name), me_boot = Some (entry_status r)\<rparr>) (boot_entries M)"
    using a z by simp
  then show "length (BootEntries (main_menu M)) = 14" by (simp add: l)
  show "me_boot (BootEntries (main_menu M) ! k) = Some (entry_status (snd (boot_entries M ! k)))" if "k < 14"
    using that unfolding b by (simp add: l split: prod.split)
qed

lemma key_opens_menu: "\<exists>i < 10. keys i \<Longrightarrow> autoboot load_file m keys c = Some None"
proof -
  assume k: "\<exists>i < 10. keys i"
  have "countdown keys 0 (nat (bc_menu_timeout c))" if "0 < bc_menu_timeout c"
  proof -
    have "0 < nat (bc_menu_timeout c)" using that by simp
    moreover have "\<exists>i < 10 * nat (bc_menu_timeout c). keys (0 + i)"
    proof -
      obtain i where "i < 10" "keys i" using k by blast
      moreover have "10 \<le> 10 * nat (bc_menu_timeout c)" using that by simp
      ultimately show ?thesis by (auto intro!: exI [of _ i])
    qed
    ultimately show ?thesis using countdown_eq by blast
  qed
  then show ?thesis by (simp add: autoboot_def)
qed


section \<open>A machine\<close>

text \<open>A machine with one file, a Linux kernel, on which somebody presses a key and chooses the second entry.\<close>

definition sample_loader :: file_loader where
  "sample_loader p = (if p = ascii ''/boot/vmlinuz'' then Some (linux_sample, 516) else None)"

definition sample_machine :: machine where
  "sample_machine =
     \<lparr>ma_image = 0, ma_env = sample_env, ma_load = sample_loader, ma_limine = (\<lambda>n. 0), ma_rom = rom_sample,
      ma_images = \<lparr>im_path = (\<lambda>p. False), im_load = (\<lambda>b. EFI_NOT_FOUND), im_start = (\<lambda>b. EFI_NOT_FOUND)\<rparr>,
      ma_services = \<lparr>bs_map_size = (EFI_NOT_FOUND, 0), bs_pool = (\<lambda>n. True), bs_map = (EFI_NOT_FOUND, []), bs_exit = 0,
        bs_gop = (EFI_NOT_FOUND, None)\<rparr>,
      ma_chain = \<lparr>be_pages = (EFI_NOT_FOUND, 0), be_load = (\<lambda>p a m. (EFI_NOT_FOUND, 0, 0, m)), be_exists = (\<lambda>p. False),
        be_align_up = (\<lambda>n a. n), be_rsdp = 0, be_smbios = None, be_framebuffer = None, be_secure = (EFI_NOT_FOUND, 0)\<rparr>,
      ma_mem = (\<lambda>a. 0),
      ma_coreboot = \<lparr>cb_header = 0, cb_framebuffer = 0, cb_memory_map = 0, cb_memory_map_entries = 0, cb_version = 0,
        cb_extra_version = 0, cb_build = 0, cb_compile_time = 0, cb_compiler = 0, cb_assembler = 0, cb_board_id = 0\<rparr>,
      ma_font_alloc = True, ma_pool_at = 0, ma_keys = (\<lambda>i. i = 3), ma_width = Some 800, ma_inputs = [down_key, enter_key]\<rparr>"

lemma sample_machine_setup: "setup_promises (ma_env sample_machine)"
  using sample_env_promises sample_env_json
  by (simp add: setup_promises_def sample_machine_def json_find_def AsciiStrStr_def) (simp add: sample_env_def)

lemma sample_machine_linux: "\<exists>m. snd (boot_entries sample_machine ! 1) = Some (Entry_Jump (Boot_Jump 0x100000 [0x90000] m))"
proof -
  have "(unat (512 :: u32)) = 512" "unat (516 - 512 :: u32) = 4" by simp_all
  then show ?thesis
    by (simp add: boot_entries_def BootLinuxKernelWrapper_def sample_machine_def sample_loader_def ascii_def linux_load_kernel_def
        linux_start_def linux_sample_def peek32_def peek_def le32_at_def be32_def nth_append linux_setup_size_def copy_in_def
        linux_initrd_def linux_params_def Let_def)
qed


end
