(* ===== verification/Spec2Isabelle.thy ===== *)
theory Spec2Isabelle
  imports Crypto_Tests Fs_Reader Ext2 Boot_Secure Libb Arch64_Boot Chainload Pxe Main_Boot
    Boot_Menu Localization Graphics Tpm2 Scripting Uefi_Main
begin

text \<open>
  A verification library for the boot loader BloodHorn.

  \<^bold>\<open>The program.\<close> BloodHorn is a boot loader in C for UEFI and Coreboot machines. Its boot manager (\<^verbatim>\<open>main.c\<close>) reads
  a configuration, counts down, and boots a kernel with one of several protocols (\<^verbatim>\<open>boot/Arch32\<close>, BloodChain in
  \<^verbatim>\<open>boot/Arch32/BloodChain\<close>), from a disk (\<^verbatim>\<open>fs\<close>), over the network (\<^verbatim>\<open>net\<close>) or as a Coreboot payload
  (\<^verbatim>\<open>coreboot\<close>); a key opens a menu (\<^verbatim>\<open>boot/menu.c\<close>). Images can be checked and measured with a cryptographic library (\<^verbatim>\<open>security\<close>, \<^verbatim>\<open>boot/secure.c\<close>); a small
  development library (\<^verbatim>\<open>boot/libb\<close>) is offered to loaded code; scripts and plugins extend the program.

  \<^bold>\<open>Conventions.\<close> C integers are words of their width (\<open>u8\<close>, \<open>u16\<close>, \<open>u32\<close>, \<open>u64\<close>), so that they wrap as in C;
  an \<open>int\<close> that only carries a status is an \<open>int\<close>. An array is a list of bytes; an access outside of it, the use
  of a null pointer and every other undefined step is the value \<open>None\<close> of the type \<open>'a cmem\<close> (\<open>BH_Prelude\<close>),
  which is distinct from the error codes of the program. A pointer that may be null is an option (\<open>'a ptr\<close>). Loaders
  that write to fixed addresses work on \<open>mem\<close>, a function from 64-bit addresses to bytes (\<open>Boot_Mem\<close>). Loops
  are structural recursions, or functions with a measure, where they end; loops that may not end (the chains
  of FAT32, records of ext2 and ISO 9660, header tags) are \<open>partial_function (option)\<close>, for which \<open>None\<close> also means
  that the loop runs forever, and their termination is proved where it holds. The only count that bounds a loop is
  the program's own.

  \<^bold>\<open>What is a parameter.\<close> Code outside of the repository is an argument of the definitions that use it: the disk
  (\<open>disk\<close>, \<open>disk_io\<close>, \<open>sector_io\<close>), the allocators (\<open>kmalloc\<close>, \<open>alloc\<close>, \<open>pool\<close>), the file loader (\<open>file_loader\<close>), the firmware
  (\<open>efi_platform\<close>, \<open>boot_env\<close>, \<open>boot_services\<close>, \<open>bloodchain_env\<close>, \<open>pxe_rom\<close>, the system table of \<open>Libb\<close>), the network card
  (\<open>ethernet\<close>), the graphics protocol (\<open>gop\<close>), the registers of the TPM (\<open>tpm_bus\<close>), the functions that a script calls, and the
  entropy sources. What a theorem needs of them is a named hypothesis, and the witness of the theorem
  discharges it on a concrete instance.

  \<^bold>\<open>The library.\<close>
  \<^item> \<open>BH_Prelude\<close>: types, memory primitives, lemmas on words and lists.
  \<^item> \<open>Sha256\<close>, \<open>Hmac_Kdf\<close>, \<open>Aes\<close>, \<open>Aes_Gcm\<close>, \<open>Crypto_Util\<close>, \<open>Crypto_Tests\<close> (\<^verbatim>\<open>security/crypto.c\<close>, \<^verbatim>\<open>aes.c\<close>, \<^verbatim>\<open>hmac.c\<close>,
    \<^verbatim>\<open>entropy.c\<close>): streaming and one-shot hashing compute the digest of a reference definition; HMAC and PBKDF2 are the
    constructions over it, in the locale \<open>hash_function\<close>; AES and its CBC and GCM modes invert themselves, in the locale
    \<open>block_cipher\<close>; GCM releases plaintext only with the right tag; which signatures the signature check accepts.
  \<^item> \<open>Boot_Secure\<close> (\<^verbatim>\<open>boot/secure.c\<close>): with secure boot only images with an allowed digest are handed out.
  \<^item> \<open>Fs_Path\<close>, \<open>Fs_Mount\<close> (\<^verbatim>\<open>fs/fs_common.c\<close>, \<^verbatim>\<open>fs/fs_mount.c\<close>): path normalisation stays in its buffer and gives a normal
    form; both mount tables find the longest mount point (locale \<open>mount_lookup\<close>, interpreted twice); the invariant of
    the table as a state machine.
  \<^item> \<open>Disk_Io\<close>, \<open>Fat32\<close>, \<open>Ext2\<close>, \<open>Iso9660\<close>, \<open>Fs_Reader\<close> (\<^verbatim>\<open>fs/fat32.c\<close>, \<^verbatim>\<open>ext2.c\<close>, \<^verbatim>\<open>iso9660.c\<close>): reading a file refines
    the content that the on-disk structures describe; both readers satisfy the contract \<open>file_reader\<close>, from which reading in
    pieces follows; where a damaged volume makes the driver run forever or overrun its buffer.
  \<^item> \<open>Boot_Mem\<close>, \<open>Multiboot\<close>, \<open>Linux_Boot\<close>, \<open>Arch64_Boot\<close>, \<open>Chainload\<close>, \<open>Limine_Boot\<close>, \<open>Bloodchain\<close> (\<^verbatim>\<open>boot/Arch32\<close>): where each
    loader puts the kernel, the ram disk, the command line and the structure for the kernel, and that these do not
    overlap or, where they do, what is lost. The three 64-bit platforms interpret the locale \<open>arch64_layout\<close>.
  \<^item> \<open>Net\<close>, \<open>Pxe\<close> (\<^verbatim>\<open>net\<close>): checksums against their definition, options of DHCP as a round trip, ARP and TFTP; network
    booting calls the firmware in the order of an automaton.
  \<^item> \<open>Config\<close> (\<^verbatim>\<open>config\<close>), \<open>Edk2_String\<close>, \<open>Main_Config\<close> (\<^verbatim>\<open>main.c\<close>): reading what was written gives it back; the two INI
    readers agree; loading the configuration always returns a well-formed one.
  \<^item> \<open>Coreboot\<close>, \<open>Main_Boot\<close> (\<^verbatim>\<open>coreboot\<close>, \<^verbatim>\<open>main.c\<close>): the firmware table, the payload file, the parameters a kernel is
    entered with, the countdown.
  \<^item> \<open>Libb\<close> (\<^verbatim>\<open>boot/libb/bloodhorn.c\<close>): memory and string routines against the library functions they stand for, reference
    counting of the library.
  \<^item> \<open>Boot_Menu\<close>, \<open>Localization\<close>, \<open>Graphics\<close> (\<^verbatim>\<open>boot/menu.c\<close>, \<^verbatim>\<open>mouse.c\<close>, \<^verbatim>\<open>localization.c\<close>, \<^verbatim>\<open>font.c\<close>, \<^verbatim>\<open>uefi/graphics.c\<close>): the loop of
    the menu keeps its invariant and boots the entry that was chosen; language files are read back; rectangles and text stay
    in the framebuffer and in the font.
  \<^item> \<open>Uefi_Main\<close> (\<^verbatim>\<open>main.c\<close>): the main function, composed of the configuration, the language, the font, the countdown, the menu and the
    loaders; from the start of the program, the entry that is chosen is the one that is booted.
  \<^item> \<open>Tpm2\<close> (\<^verbatim>\<open>security/tpm2.c\<close>): a measurement extends the register with the digest of the data and is logged, for every chip; the
    chip's writes are recorded by running the driver on \<open>traced\<close>.
  \<^item> \<open>Scripting\<close> (\<^verbatim>\<open>scripting\<close>, \<^verbatim>\<open>plugins\<close>, \<^verbatim>\<open>recovery/shell.c\<close>): scripts of arithmetic compute their value; the tables of names
    interpret the locale \<open>name_table\<close>.

  \<^bold>\<open>Not modelled.\<close> Console output, the colours and the font cache of the menu, code that only calls firmware protocols or
  prints (\<^verbatim>\<open>uefi/uefi.c\<close>, \<^verbatim>\<open>coreboot/coreboot_main.c\<close>, the file and network commands of the recovery shell),
  \<^verbatim>\<open>security/sha512.c\<close>, which is not C, and the vendored EDK2 tree but for the string routines that the boot manager calls.
\<close>

end
